(* ===== verification/Py_Prelude.thy ===== *)
theory Py_Prelude
  imports
    Complex_Main
    "HOL-Library.AList"
    "HOL-Library.List_Lexorder"
    "HOL-Library.Char_ord"
    "HOL-Library.Product_Lexorder"
    "HOL-Library.Multiset"
    "HOL-Library.Sublist"
begin

text \<open>
  What every component shares: Python exceptions as values, the two result monads the models are
  written in, the loops over lists that may raise, and Python's insertion-ordered dictionaries as
  association lists.

  Strings are \<^typ>\<open>string\<close>: a character is a Unicode code point below 256. The order on strings
  is the lexicographic order by code point, which is Python's order on \<^verbatim>\<open>str\<close>; pairs are ordered
  lexicographically, as Python's tuples are; \<^term>\<open>sort_key\<close> is a stable sort, as
  \<^verbatim>\<open>sorted(key=...)\<close> is.
\<close>

section \<open>Exceptions as values\<close>

text \<open>
  One constructor per exception class the sources raise or let escape. The string is the constant
  part of the message, which tells the raise sites of a function apart.
\<close>

datatype py_error =
    ValueError string
  | TypeError string
  | KeyError string
  | IndexError
  | AttributeError string
  | FileNotFoundError string
  | OSError string
  | RuntimeError string
  | AssertionError
  | ZeroDivisionError
  | OverflowError
  | ReleaseGateError string
  | VisualArtifactMismatch string
  | JSONDecodeError
  | ValidationError string
  | HTTPException int

datatype 'a result = Ok (result_value: 'a) | Raise (result_error: py_error)

abbreviation gate_error :: "string \<Rightarrow> 'a result" where
  "gate_error msg \<equiv> Raise (ReleaseGateError msg)"

text \<open>Facts that take a successful run apart into the successes of its steps.\<close>

named_theorems run_ok

primrec rbind :: "'a result \<Rightarrow> ('a \<Rightarrow> 'b result) \<Rightarrow> 'b result" where
  "rbind (Ok x) f = f x"
| "rbind (Raise e) f = Raise e"

definition ensure :: "bool \<Rightarrow> py_error \<Rightarrow> unit result" where
  "ensure b e = (if b then Ok () else Raise e)"

definition is_ok :: "'a result \<Rightarrow> bool" where
  "is_ok r = (case r of Ok _ \<Rightarrow> True | Raise _ \<Rightarrow> False)"

lemma is_ok_simps [simp]: "is_ok (Ok x)" "\<not> is_ok (Raise e)"
  by (simp_all add: is_ok_def)

lemma is_ok_iff: "is_ok r \<longleftrightarrow> (\<exists>x. r = Ok x)"
  by (cases r) simp_all

lemma not_ok_iff: "\<not> is_ok r \<longleftrightarrow> (\<exists>e. r = Raise e)"
  by (cases r) simp_all

lemma rbind_Ok_iff [run_ok]: "rbind m f = Ok y \<longleftrightarrow> (\<exists>x. m = Ok x \<and> f x = Ok y)"
  by (cases m) simp_all

lemma rbind_Raise_iff:
  "rbind m f = Raise e \<longleftrightarrow> m = Raise e \<or> (\<exists>x. m = Ok x \<and> f x = Raise e)"
  by (cases m) simp_all

lemma rbind_assoc: "rbind (rbind m f) g = rbind m (\<lambda>x. rbind (f x) g)"
  by (cases m) simp_all

lemma rbind_return [simp]: "rbind m Ok = m"
  by (cases m) simp_all

lemma ensure_simps [simp]: "ensure True e = Ok ()" "ensure False e = Raise e"
  by (simp_all add: ensure_def)

lemma ensure_Ok_iff [run_ok]: "ensure b e = Ok u \<longleftrightarrow> b"
  by (simp add: ensure_def)

lemma ensure_Raise_iff: "ensure b e = Raise e' \<longleftrightarrow> \<not> b \<and> e' = e"
  by (auto simp: ensure_def)

lemma rbind_ensure: "rbind (ensure b e) f = (if b then f () else Raise e)"
  by (simp add: ensure_def)

lemma rbind_cong [fundef_cong]:
  "m = m' \<Longrightarrow> (\<And>x. m' = Ok x \<Longrightarrow> f x = f' x) \<Longrightarrow> rbind m f = rbind m' f'"
  by (cases m') simp_all

section \<open>Loops that may raise\<close>

text \<open>\<^verbatim>\<open>for x in xs: s = f(s, x)\<close>, left at the first exception.\<close>

primrec foldM :: "('s \<Rightarrow> 'a \<Rightarrow> 's result) \<Rightarrow> 's \<Rightarrow> 'a list \<Rightarrow> 's result" where
  "foldM f s [] = Ok s"
| "foldM f s (x # xs) = rbind (f s x) (\<lambda>s'. foldM f s' xs)"

text \<open>\<^verbatim>\<open>[f(x) for x in xs]\<close>, left at the first exception.\<close>

primrec mapM :: "('a \<Rightarrow> 'b result) \<Rightarrow> 'a list \<Rightarrow> 'b list result" where
  "mapM f [] = Ok []"
| "mapM f (x # xs) = rbind (f x) (\<lambda>y. rbind (mapM f xs) (\<lambda>ys. Ok (y # ys)))"

text \<open>\<^verbatim>\<open>for x in xs: check(x)\<close>: the loop body only raises or continues.\<close>

primrec forM :: "('a \<Rightarrow> unit result) \<Rightarrow> 'a list \<Rightarrow> unit result" where
  "forM f [] = Ok ()"
| "forM f (x # xs) = rbind (f x) (\<lambda>_. forM f xs)"

lemma foldM_append: "foldM f s (xs @ ys) = rbind (foldM f s xs) (\<lambda>s'. foldM f s' ys)"
  by (induction xs arbitrary: s) (simp_all add: rbind_assoc)

lemma foldM_cong [fundef_cong]:
  "\<lbrakk>xs = ys; s = t; \<And>u x. x \<in> set ys \<Longrightarrow> f u x = g u x\<rbrakk> \<Longrightarrow> foldM f s xs = foldM g t ys"
  by (induction ys arbitrary: xs s t) (auto intro: rbind_cong)

lemma foldM_invariant:
  assumes "foldM f s xs = Ok s'" and "P s"
    and "\<And>t x t'. \<lbrakk>x \<in> set xs; P t; f t x = Ok t'\<rbrakk> \<Longrightarrow> P t'"
  shows "P s'"
  using assms
proof (induction xs arbitrary: s)
  case Nil
  then show ?case by simp
next
  case (Cons x xs)
  from Cons.prems(1) obtain t where t: "f s x = Ok t" "foldM f t xs = Ok s'"
    by (auto simp: run_ok)
  have "P t" using Cons.prems(2,3) t(1) by (meson list.set_intros(1))
  with t(2) Cons.prems(3) show ?case by (intro Cons.IH) auto
qed

lemma mapM_Ok_iff [run_ok]:
  "mapM f xs = Ok ys \<longleftrightarrow> list_all2 (\<lambda>x y. f x = Ok y) xs ys"
  by (induction xs arbitrary: ys) (auto simp: run_ok list_all2_Cons1)

lemma list_all2_setD1: "list_all2 P xs ys \<Longrightarrow> x \<in> set xs \<Longrightarrow> \<exists>y \<in> set ys. P x y"
  by (metis list_all2_conv_all_nth in_set_conv_nth nth_mem)

lemma list_all2_setD2: "list_all2 P xs ys \<Longrightarrow> y \<in> set ys \<Longrightarrow> \<exists>x \<in> set xs. P x y"
  by (metis list_all2_conv_all_nth in_set_conv_nth nth_mem)

lemma mapM_length: "mapM f xs = Ok ys \<Longrightarrow> length ys = length xs"
  by (auto simp: run_ok dest: list_all2_lengthD)

lemma mapM_Ok_map: "(\<And>x. x \<in> set xs \<Longrightarrow> f x = Ok (g x)) \<Longrightarrow> mapM f xs = Ok (map g xs)"
  by (induction xs) auto

lemma forM_Ok_iff [run_ok]: "forM f xs = Ok u \<longleftrightarrow> (\<forall>x \<in> set xs. f x = Ok ())"
  by (induction xs) (auto simp: run_ok)

lemma mapM_cong [fundef_cong]:
  "\<lbrakk>xs = ys; \<And>x. x \<in> set ys \<Longrightarrow> f x = g x\<rbrakk> \<Longrightarrow> mapM f xs = mapM g ys"
  by (induction ys arbitrary: xs) (auto intro: rbind_cong)

lemma forM_cong [fundef_cong]:
  "\<lbrakk>xs = ys; \<And>x. x \<in> set ys \<Longrightarrow> f x = g x\<rbrakk> \<Longrightarrow> forM f xs = forM g ys"
  by (induction ys arbitrary: xs) (auto intro: rbind_cong)

section \<open>Insertion-ordered dictionaries\<close>

text \<open>
  A \<^verbatim>\<open>dict\<close> is an association list with distinct keys in insertion order: \<^term>\<open>map_of\<close> looks a
  key up, \<^term>\<open>AList.update\<close> overwrites in place or appends, as \<^verbatim>\<open>d[k] = v\<close> does.
\<close>

type_synonym ('k, 'v) dict = "('k \<times> 'v) list"

abbreviation dict_keys :: "('k, 'v) dict \<Rightarrow> 'k list" where
  "dict_keys d \<equiv> map fst d"

abbreviation wf_dict :: "('k, 'v) dict \<Rightarrow> bool" where
  "wf_dict d \<equiv> distinct (map fst d)"

text \<open>\<^verbatim>\<open>d[k]\<close>, which raises \<^verbatim>\<open>KeyError\<close>.\<close>

definition dict_item :: "(string, 'v) dict \<Rightarrow> string \<Rightarrow> 'v result" where
  "dict_item d k = (case map_of d k of None \<Rightarrow> Raise (KeyError k) | Some v \<Rightarrow> Ok v)"

text \<open>\<^verbatim>\<open>d.get(k, v0)\<close>.\<close>

definition dict_get :: "('k, 'v) dict \<Rightarrow> 'k \<Rightarrow> 'v \<Rightarrow> 'v" where
  "dict_get d k v0 = (case map_of d k of None \<Rightarrow> v0 | Some v \<Rightarrow> v)"

text \<open>\<^verbatim>\<open>d.setdefault(k, []).append(v)\<close>, and the same on a \<^verbatim>\<open>defaultdict(list)\<close>.\<close>

definition dict_append :: "'k \<Rightarrow> 'v \<Rightarrow> ('k, 'v list) dict \<Rightarrow> ('k, 'v list) dict" where
  "dict_append k v d = AList.update k (dict_get d k [] @ [v]) d"

text \<open>A dictionary comprehension \<^verbatim>\<open>{k: v for ...}\<close>: later keys overwrite, in place.\<close>

definition dict_of :: "('k \<times> 'v) list \<Rightarrow> ('k, 'v) dict" where
  "dict_of kvs = foldl (\<lambda>d (k, v). AList.update k v d) [] kvs"

lemma dict_item_Ok_iff [run_ok]: "dict_item d k = Ok v \<longleftrightarrow> map_of d k = Some v"
  by (auto simp: dict_item_def split: option.splits)

lemma wf_dict_update: "wf_dict d \<Longrightarrow> wf_dict (AList.update k v d)"
  by (rule distinct_update)

lemma wf_dict_append: "wf_dict d \<Longrightarrow> wf_dict (dict_append k v d)"
  by (simp add: dict_append_def wf_dict_update)

lemma dict_get_update:
  "dict_get (AList.update k v d) k' v0 = (if k' = k then v else dict_get d k' v0)"
  by (simp add: dict_get_def update_conv')

lemma dict_get_append:
  "dict_get (dict_append k v d) k' [] = dict_get d k' [] @ (if k' = k then [v] else [])"
  by (simp add: dict_append_def dict_get_update)

lemma dict_of_snoc: "dict_of (kvs @ [(k, v)]) = AList.update k v (dict_of kvs)"
  by (simp add: dict_of_def)

lemma wf_dict_of: "wf_dict (dict_of kvs)"
proof (induction kvs rule: rev_induct)
  case Nil
  show ?case by (simp add: dict_of_def)
next
  case (snoc p kvs)
  then show ?case by (cases p) (simp add: dict_of_snoc wf_dict_update)
qed

lemma map_of_dict_of: "map_of (dict_of kvs) = map_of (rev kvs)"
proof (induction kvs rule: rev_induct)
  case Nil
  show ?case by (simp add: dict_of_def)
next
  case (snoc p kvs)
  then show ?case by (cases p) (simp add: dict_of_snoc update_conv')
qed

lemma dict_of_id: "wf_dict kvs \<Longrightarrow> dict_of kvs = kvs"
proof (induction kvs rule: rev_induct)
  case Nil
  show ?case by (simp add: dict_of_def)
next
  case (snoc p kvs)
  obtain k v where [simp]: "p = (k, v)" by (cases p)
  have "AList.update k v kvs = kvs @ [(k, v)]" if "k \<notin> set (map fst kvs)" for kvs :: "('a \<times> 'b) list"
    using that by (induction kvs) auto
  with snoc show ?case by (auto simp: dict_of_snoc)
qed

text \<open>\<^verbatim>\<open>d = defaultdict(list); for x in xs: d[f(x)].append(x)\<close>\<close>

definition group_by :: "('a \<Rightarrow> 'k) \<Rightarrow> 'a list \<Rightarrow> ('k, 'a list) dict" where
  "group_by f xs = foldl (\<lambda>d x. dict_append (f x) x d) [] xs"

lemma group_by_snoc: "group_by f (xs @ [x]) = dict_append (f x) x (group_by f xs)"
  by (simp add: group_by_def)

lemma dict_keys_update:
  "dict_keys (AList.update k v d) = (if k \<in> set (dict_keys d) then dict_keys d else dict_keys d @ [k])"
  by (induction d) auto

lemma dict_get_group_by: "dict_get (group_by f xs) k [] = filter (\<lambda>x. f x = k) xs"
proof (induction xs rule: rev_induct)
  case Nil
  show ?case by (simp add: group_by_def dict_get_def)
next
  case (snoc x xs)
  then show ?case by (simp add: group_by_snoc dict_get_append)
qed

lemma wf_group_by [simp]: "wf_dict (group_by f xs)"
  by (induction xs rule: rev_induct) (simp_all add: group_by_snoc wf_dict_append, simp add: group_by_def)

lemma keys_group_by: "fst ` set (group_by f xs) = f ` set xs"
  by (induction xs rule: rev_induct)
    (simp_all add: group_by_snoc dict_append_def dom_update, simp add: group_by_def)

lemma map_of_group_by:
  "map_of (group_by f xs) k = (if k \<in> f ` set xs then Some (filter (\<lambda>x. f x = k) xs) else None)"
proof (cases "map_of (group_by f xs) k")
  case None
  then show ?thesis by (simp add: map_of_eq_None_iff keys_group_by)
next
  case (Some v)
  then have "k \<in> fst ` set (group_by f xs)" by (metis map_of_eq_None_iff option.distinct(1))
  moreover have "v = filter (\<lambda>x. f x = k) xs" using dict_get_group_by [of f xs k] Some by (simp add: dict_get_def)
  ultimately show ?thesis using Some by (simp add: keys_group_by)
qed

lemma in_group_by_iff:
  "(k, ms) \<in> set (group_by f xs) \<longleftrightarrow> k \<in> f ` set xs \<and> ms = filter (\<lambda>x. f x = k) xs"
  using map_of_group_by [of f xs k] map_of_eq_Some_iff [of "group_by f xs" k ms]
  by (auto split: if_splits)

section \<open>Lists\<close>

text \<open>\<^verbatim>\<open>enumerate(xs)\<close>\<close>

abbreviation enumerate0 :: "'a list \<Rightarrow> (nat \<times> 'a) list" where
  "enumerate0 xs \<equiv> List.enumerate 0 xs"

lemma distinct_map_sort_key [simp]: "distinct (map g (sort_key f xs)) \<longleftrightarrow> distinct (map g xs)"
  by (metis mset_eq_imp_distinct_iff mset_map mset_sort)

lemma map_enumerate_conv:
  "map f (List.enumerate n xs) = map (\<lambda>i. f (n + i, xs ! i)) [0..<length xs]"
  by (rule nth_equalityI) (simp_all add: nth_enumerate_eq)

lemma distinct_map_enumerate:
  assumes "\<And>i x j y. f (i, x) = f (j, y) \<Longrightarrow> i = j"
  shows "distinct (map f (List.enumerate n xs))"
proof (induction xs arbitrary: n)
  case (Cons x xs)
  have "f (n, x) \<notin> f ` set (List.enumerate (Suc n) xs)"
    using assms by (force simp: in_set_enumerate_eq)
  with Cons show ?case by simp
qed simp

text \<open>The elements in order of first occurrence: \<^verbatim>\<open>list(dict.fromkeys(xs))\<close>.\<close>

primrec dedup :: "'a list \<Rightarrow> 'a list" where
  "dedup [] = []"
| "dedup (x # xs) = x # filter (\<lambda>y. y \<noteq> x) (dedup xs)"

lemma set_dedup [simp]: "set (dedup xs) = set xs"
  by (induction xs) auto

lemma distinct_dedup [simp]: "distinct (dedup xs)"
  by (induction xs) auto

lemma dedup_id: "distinct xs \<Longrightarrow> dedup xs = xs"
  by (induction xs) (auto simp: filter_id_conv)

lemma sort_dedup: "sort (dedup xs) = sorted_list_of_set (set xs)"
  by (metis distinct_dedup distinct_remdups_id set_dedup sorted_list_of_set_sort_remdups)

lemma length_dedup_le: "length (dedup xs) \<le> length xs"
  by (induction xs) (auto intro: le_trans [OF length_filter_le])

lemma length_dedup_card: "length (dedup xs) = card (set xs)"
  by (metis distinct_card distinct_dedup set_dedup)

lemma distinct_iff_length_dedup: "distinct xs \<longleftrightarrow> length (dedup xs) = length xs"
  using card_distinct distinct_card by (auto simp: length_dedup_card)

lemma sum_list_filter_partition:
  "sum_list (map f (filter P xs)) + sum_list (map f (filter (\<lambda>x. \<not> P x) xs)) =
    (sum_list (map f xs) :: 'b :: comm_monoid_add)"
  by (induction xs) (auto simp: ac_simps)

lemma filter_le_length_sum: "length (filter P xs) + length (filter (\<lambda>x. \<not> P x) xs) = length xs"
  by (rule sum_length_filter_compl)

section \<open>Counters\<close>

text \<open>\<^verbatim>\<open>Counter(xs)\<close>\<close>

definition counter_of :: "'a list \<Rightarrow> ('a, nat) dict" where
  "counter_of xs = foldl (\<lambda>d x. AList.update x (dict_get d x 0 + 1) d) [] xs"

lemma counter_of_snoc: "counter_of (xs @ [x]) = AList.update x (dict_get (counter_of xs) x 0 + 1) (counter_of xs)"
  by (simp add: counter_of_def)

lemma dict_get_counter_of: "dict_get (counter_of xs) x 0 = count_list xs x"
proof (induction xs rule: rev_induct)
  case Nil
  then show ?case by (simp add: counter_of_def dict_get_def)
next
  case (snoc y xs)
  then show ?case by (auto simp: counter_of_snoc dict_get_update)
qed

lemma wf_counter_of [simp]: "wf_dict (counter_of xs)"
  by (induction xs rule: rev_induct) (simp_all add: counter_of_snoc wf_dict_update, simp add: counter_of_def)

lemma keys_counter_of: "fst ` set (counter_of xs) = set xs"
  by (induction xs rule: rev_induct)
    (simp_all add: counter_of_snoc dom_update, simp add: counter_of_def)

lemma in_counter_of: "(x, n) \<in> set (counter_of xs) \<longleftrightarrow> x \<in> set xs \<and> n = count_list xs x"
proof -
  have "(x, n) \<in> set (counter_of xs) \<longleftrightarrow> map_of (counter_of xs) x = Some n"
    by (simp add: map_of_eq_Some_iff)
  also have "\<dots> \<longleftrightarrow> x \<in> set xs \<and> n = count_list xs x"
  proof (cases "map_of (counter_of xs) x")
    case None
    then have "x \<notin> set xs" by (simp add: map_of_eq_None_iff keys_counter_of)
    with None show ?thesis by simp
  next
    case (Some m)
    then have "x \<in> fst ` set (counter_of xs)" by (metis map_of_eq_None_iff option.distinct(1))
    then have "x \<in> set xs" by (simp only: keys_counter_of)
    moreover have "m = count_list xs x" using dict_get_counter_of [of xs x] Some by (simp add: dict_get_def)
    ultimately show ?thesis using Some by auto
  qed
  finally show ?thesis .
qed

lemma sum_update_counter:
  "sum_list (map (\<lambda>(k, n). g k * n) (AList.update x (Suc (dict_get d x 0)) d)) =
    sum_list (map (\<lambda>(k, n). g k * n) d) + (g x :: nat)" if "wf_dict d"
  using that by (induction d) (auto simp: dict_get_def algebra_simps image_iff intro!: map_cong)

lemma sum_counter_of: "sum_list (map (\<lambda>(k, n). g k * n) (counter_of xs)) = sum_list (map g xs :: nat list)"
  by (induction xs rule: rev_induct) (simp_all add: counter_of_snoc sum_update_counter, simp add: counter_of_def)

lemma sort_key_sorted: "sorted (map f xs) \<Longrightarrow> sort_key f xs = xs"
  by (induction xs) (simp_all add: insort_is_Cons)

lemma sort_key_idem [simp]: "sort_key f (sort_key f xs) = sort_key f xs"
  by (rule sort_key_sorted) simp

lemma map_sort_key: "(\<And>x. h (g x) = f x) \<Longrightarrow> map g (sort_key f xs) = sort_key h (map g xs)"
proof (induction xs)
  case (Cons x xs)
  have "map g (insort_key f y ys) = insort_key h (g y) (map g ys)" for y ys
    by (induction ys) (simp_all add: Cons.prems)
  with Cons show ?case by simp
qed simp

end
