(* ===== verification/Py_Text.thy ===== *)
theory Py_Text
  imports Py_Prelude
begin

text \<open>
  The string operations of Python the program uses, on \<^typ>\<open>string\<close>: character classes and case,
  \<^verbatim>\<open>strip\<close>, \<^verbatim>\<open>split\<close>, \<^verbatim>\<open>splitlines\<close>, \<^verbatim>\<open>replace\<close>, \<^verbatim>\<open>join\<close>, zero-padded decimals, the decimal
  forms of integers and floats, and UTF-8. A character is a code point below 256, and the classes and
  the case mapping are those of Unicode on these.
\<close>

section \<open>Characters\<close>

abbreviation code :: "char \<Rightarrow> nat" where
  "code c \<equiv> of_char c"

definition is_digit :: "char \<Rightarrow> bool" where
  "is_digit c \<longleftrightarrow> 48 \<le> code c \<and> code c \<le> 57"

definition is_lower :: "char \<Rightarrow> bool" where
  "is_lower c \<longleftrightarrow> 97 \<le> code c \<and> code c \<le> 122"

definition is_upper :: "char \<Rightarrow> bool" where
  "is_upper c \<longleftrightarrow> 65 \<le> code c \<and> code c \<le> 90"

text \<open>
  \<^verbatim>\<open>str.isalpha\<close> and \<^verbatim>\<open>str.isalnum\<close> of one character: above 127 the accented letters, the feminine and
  masculine ordinals and the micro sign, and for \<^verbatim>\<open>isalnum\<close> the superscript digits and the fractions.
\<close>

definition is_alpha :: "char \<Rightarrow> bool" where
  "is_alpha c \<longleftrightarrow> is_lower c \<or> is_upper c \<or> code c \<in> {170, 181, 186} \<or>
     (192 \<le> code c \<and> code c \<noteq> 215 \<and> code c \<noteq> 247)"

definition is_alnum :: "char \<Rightarrow> bool" where
  "is_alnum c \<longleftrightarrow> is_alpha c \<or> is_digit c \<or> code c \<in> {178, 179, 185, 188, 189, 190}"

text \<open>\<^verbatim>\<open>\w\<close> and \<^verbatim>\<open>\s\<close> (space, \<^verbatim>\<open>\t \n \v \f \r\<close>, the four separators 28 to 31, and the two
  Latin-1 blanks 133 and 160).\<close>

definition is_word :: "char \<Rightarrow> bool" where
  "is_word c \<longleftrightarrow> is_alnum c \<or> c = CHR ''_''"

definition is_space :: "char \<Rightarrow> bool" where
  "is_space c \<longleftrightarrow> code c = 32 \<or> (9 \<le> code c \<and> code c \<le> 13) \<or> (28 \<le> code c \<and> code c \<le> 31) \<or>
     code c = 133 \<or> code c = 160"

text \<open>\<^verbatim>\<open>lower()\<close>, and its inverse on the letters that have one below 256.\<close>

definition to_lower :: "char \<Rightarrow> char" where
  "to_lower c = (if is_upper c \<or> (192 \<le> code c \<and> code c \<le> 222 \<and> code c \<noteq> 215)
     then char_of (code c + 32) else c)"

definition to_upper :: "char \<Rightarrow> char" where
  "to_upper c = (if is_lower c \<or> (224 \<le> code c \<and> code c \<le> 254 \<and> code c \<noteq> 247)
     then char_of (code c - 32) else c)"

abbreviation str_lower :: "string \<Rightarrow> string" where
  "str_lower s \<equiv> map to_lower s"

section \<open>Slices and searches\<close>

definition starts_with :: "string \<Rightarrow> string \<Rightarrow> bool" where
  "starts_with s p = prefix p s"

definition ends_with :: "string \<Rightarrow> string \<Rightarrow> bool" where
  "ends_with s p = suffix p s"

text \<open>\<^verbatim>\<open>p in s\<close>\<close>

primrec contains :: "string \<Rightarrow> string \<Rightarrow> bool" where
  "contains [] p \<longleftrightarrow> p = []"
| "contains (c # s) p \<longleftrightarrow> prefix p (c # s) \<or> contains s p"

definition remove_prefix :: "string \<Rightarrow> string \<Rightarrow> string" where
  "remove_prefix s p = (if prefix p s then drop (length p) s else s)"

definition lstrip :: "string \<Rightarrow> string" where
  "lstrip s = dropWhile is_space s"

definition strip :: "string \<Rightarrow> string" where
  "strip s = rev (lstrip (rev (lstrip s)))"

text \<open>\<^verbatim>\<open>s.strip("_")\<close>\<close>

definition strip_char :: "char \<Rightarrow> string \<Rightarrow> string" where
  "strip_char c s = rev (dropWhile (\<lambda>x. x = c) (rev (dropWhile (\<lambda>x. x = c) s)))"

text \<open>\<^verbatim>\<open>s.split(c)\<close> for one character.\<close>

fun split_on :: "char \<Rightarrow> string \<Rightarrow> string list" where
  "split_on c [] = [[]]"
| "split_on c (x # xs) =
     (if x = c then [] # split_on c xs
      else (case split_on c xs of [] \<Rightarrow> [[x]] | w # ws \<Rightarrow> (x # w) # ws))"

text \<open>\<^verbatim>\<open>s.replace(old, new)\<close> for a non-empty \<open>old\<close>: leftmost, without overlaps.\<close>

function str_replace :: "string \<Rightarrow> string \<Rightarrow> string \<Rightarrow> string" where
  "str_replace old new s =
     (case s of
        [] \<Rightarrow> []
      | c # cs \<Rightarrow>
          if old \<noteq> [] \<and> prefix old s then new @ str_replace old new (drop (length old) s)
          else c # str_replace old new cs)"
  by pat_completeness auto
termination by (relation "measure (\<lambda>(old, new, s). length s)") auto

declare str_replace.simps [simp del]

text \<open>\<^verbatim>\<open>sep.join(xs)\<close>\<close>

fun join :: "string \<Rightarrow> string list \<Rightarrow> string" where
  "join sep [] = []"
| "join sep [x] = x"
| "join sep (x # y # ys) = x @ sep @ join sep (y # ys)"

text \<open>
  \<^verbatim>\<open>s.splitlines()\<close>: the line ends are \<^verbatim>\<open>\n\<close>, \<^verbatim>\<open>\r\<close>, \<^verbatim>\<open>\r\n\<close>, \<^verbatim>\<open>\v\<close>, \<^verbatim>\<open>\f\<close>, the separators 28 to 30
  and 133 (and two code points above 255); a final line end opens no new line.
\<close>

definition is_line_end :: "char \<Rightarrow> bool" where
  "is_line_end c \<longleftrightarrow> (10 \<le> code c \<and> code c \<le> 13) \<or> (28 \<le> code c \<and> code c \<le> 30) \<or> code c = 133"

fun splitlines_aux :: "string \<Rightarrow> string \<Rightarrow> string list" where
  "splitlines_aux line [] = (if line = [] then [] else [rev line])"
| "splitlines_aux line (c # cs) =
     (if c = CHR 0x0D \<and> cs \<noteq> [] \<and> hd cs = CHR 0x0A then splitlines_aux line cs
      else if is_line_end c then rev line # splitlines_aux [] cs
      else splitlines_aux (c # line) cs)"

definition splitlines :: "string \<Rightarrow> string list" where
  "splitlines s = splitlines_aux [] s"

text \<open>
  \<^verbatim>\<open>for line in f\<close> on a file opened as text: \<^verbatim>\<open>\r\n\<close> and \<^verbatim>\<open>\r\<close> are read as \<^verbatim>\<open>\n\<close>, and only \<^verbatim>\<open>\n\<close>
  ends a line. The lines are given without their ends; a file that ends with \<^verbatim>\<open>\n\<close> has a last empty
  line here, which every reader of the program skips.
\<close>

fun universal_newlines :: "string \<Rightarrow> string" where
  "universal_newlines [] = []"
| "universal_newlines (c # cs) =
     (if c = CHR 0x0D then CHR 0x0A # universal_newlines
        (if cs \<noteq> [] \<and> hd cs = CHR 0x0A then tl cs else cs)
      else c # universal_newlines cs)"

definition file_lines :: "string \<Rightarrow> string list" where
  "file_lines s = split_on (CHR 0x0A) (universal_newlines s)"

section \<open>Decimal forms\<close>

definition digit_char :: "nat \<Rightarrow> char" where
  "digit_char d = char_of (48 + d)"

definition digit_value :: "char \<Rightarrow> nat" where
  "digit_value c = code c - 48"

fun nat_str :: "nat \<Rightarrow> string" where
  "nat_str n = (if n < 10 then [digit_char n] else nat_str (n div 10) @ [digit_char (n mod 10)])"

declare nat_str.simps [simp del]

definition int_str :: "int \<Rightarrow> string" where
  "int_str i = (if i < 0 then ''-'' @ nat_str (nat (- i)) else nat_str (nat i))"

definition str_nat :: "string \<Rightarrow> nat" where
  "str_nat s = foldl (\<lambda>n c. 10 * n + digit_value c) 0 s"

text \<open>\<^verbatim>\<open>f"{n:0wd}"\<close>\<close>

definition zero_pad :: "nat \<Rightarrow> nat \<Rightarrow> string" where
  "zero_pad w n = replicate (w - length (nat_str n)) (CHR ''0'') @ nat_str n"

lemma char_of_code [simp]: "char_of (code c) = c"
  by simp

lemma char_of_eq_iff: "n < 256 \<Longrightarrow> char_of n = c \<longleftrightarrow> code c = n"
  by (metis char_of_code mod_less of_char_of)

lemma code_eqD: "code c = n \<Longrightarrow> c = char_of n"
  by (metis char_of_code)

lemma is_digit_digit_char: "d < 10 \<Longrightarrow> is_digit (digit_char d)"
  by (simp add: is_digit_def digit_char_def)

lemma digit_value_digit_char [simp]: "d < 10 \<Longrightarrow> digit_value (digit_char d) = d"
  by (simp add: digit_value_def digit_char_def)

lemma nat_str_digits: "\<forall>c \<in> set (nat_str n). is_digit c"
proof (induction n rule: nat_str.induct)
  case (1 n)
  then show ?case
    by (subst nat_str.simps) (auto simp: is_digit_digit_char)
qed

lemma nat_str_nonempty [simp]: "nat_str n \<noteq> []"
  by (subst nat_str.simps) simp

lemma str_nat_snoc: "str_nat (s @ [c]) = 10 * str_nat s + digit_value c"
  by (simp add: str_nat_def)

lemma str_nat_nat_str [simp]: "str_nat (nat_str n) = n"
proof (induction n rule: nat_str.induct)
  case (1 n)
  show ?case
  proof (cases "n < 10")
    case True
    then show ?thesis by (subst nat_str.simps) (simp add: str_nat_def)
  next
    case False
    with 1 show ?thesis by (subst nat_str.simps) (simp add: str_nat_snoc)
  qed
qed

lemma nat_str_inj: "nat_str m = nat_str n \<longleftrightarrow> m = n"
  by (metis str_nat_nat_str)

lemma nat_str_hd_zero: "hd (nat_str n) = CHR ''0'' \<Longrightarrow> n = 0"
proof (induction n rule: nat_str.induct)
  case (1 n)
  show ?case
  proof (cases "n < 10")
    case True
    have "digit_value (CHR ''0'') = 0" by (simp add: digit_value_def)
    with True "1.prems" show ?thesis
      by (subst (asm) nat_str.simps) (metis digit_value_digit_char list.sel(1))
  next
    case False
    then have "hd (nat_str n) = hd (nat_str (n div 10))"
      by (subst nat_str.simps) simp
    with 1 False have "n div 10 = 0" by simp
    with False show ?thesis by simp
  qed
qed

lemma str_nat_zeros: "str_nat (replicate k (CHR ''0'') @ s) = str_nat s"
proof -
  have "foldl (\<lambda>n c. 10 * n + digit_value c) 0 (replicate k (CHR ''0'')) = 0"
    by (induction k) (simp_all add: digit_value_def)
  then show ?thesis by (simp add: str_nat_def)
qed

lemma str_nat_zero_pad [simp]: "str_nat (zero_pad w n) = n"
  by (simp add: zero_pad_def str_nat_zeros)

lemma zero_pad_inj: "zero_pad w m = zero_pad w n \<longleftrightarrow> m = n"
  by (metis str_nat_zero_pad)

lemma zero_pad_digits: "\<forall>c \<in> set (zero_pad w n). is_digit c"
  using nat_str_digits [of n] by (auto simp: zero_pad_def is_digit_def)

section \<open>Floats\<close>

text \<open>
  A float is represented by the rational its \<^verbatim>\<open>repr\<close> denotes: \<^verbatim>\<open>repr\<close> is one-to-one and monotone
  on the finite doubles, so distinct floats stay distinct and comparisons agree. Not-a-number, the
  infinities and negative zero do not occur in the program's data and have no representation.
  \<open>decimal_of\<close> writes a decimal fraction as \<open>m / 10^k\<close> with the least \<open>k\<close>; a shortest \<^verbatim>\<open>repr\<close> has
  at most 340 decimal places.
\<close>

fun decimal_places :: "nat \<Rightarrow> nat \<Rightarrow> rat \<Rightarrow> nat \<times> rat" where
  "decimal_places 0 k q = (k, q)"
| "decimal_places (Suc fuel) k q =
     (if snd (quotient_of q) = 1 then (k, q) else decimal_places fuel (Suc k) (10 * q))"

definition decimal_of :: "rat \<Rightarrow> int \<times> nat" where
  "decimal_of q = (let (k, m) = decimal_places 340 0 q in (floor m, k))"

definition rstrip_zeros :: "string \<Rightarrow> string" where
  "rstrip_zeros s = rev (dropWhile (\<lambda>c. c = CHR ''0'') (rev s))"

text \<open>The digits of a positive decimal, without trailing zeros, and the place of its point.\<close>

definition decimal_digits :: "nat \<Rightarrow> nat \<Rightarrow> string \<times> int" where
  "decimal_digits m k = (rstrip_zeros (nat_str m), int (length (nat_str m)) - int k)"

definition exponent_str :: "int \<Rightarrow> string" where
  "exponent_str e = (if e < 0 then ''-'' else ''+'') @ zero_pad 2 (nat \<bar>e\<bar>)"

definition fixed_str :: "string \<Rightarrow> int \<Rightarrow> string" where
  "fixed_str ds pt =
     (if pt \<le> 0 then ''0.'' @ replicate (nat (- pt)) (CHR ''0'') @ ds
      else if int (length ds) \<le> pt then ds @ replicate (nat pt - length ds) (CHR ''0'')
      else take (nat pt) ds @ ''.'' @ drop (nat pt) ds)"

definition scientific_str :: "string \<Rightarrow> int \<Rightarrow> string" where
  "scientific_str ds pt =
     take 1 ds @ (if length ds = 1 then [] else ''.'' @ drop 1 ds) @ ''e'' @ exponent_str (pt - 1)"

text \<open>\<^verbatim>\<open>repr(x)\<close>\<close>

definition float_repr :: "rat \<Rightarrow> string" where
  "float_repr q =
     (if q = 0 then ''0.0'' else
      let (m, k) = decimal_of \<bar>q\<bar>; (ds, pt) = decimal_digits (nat m) k in
      (if q < 0 then ''-'' else []) @
      (if - 4 < pt \<and> pt \<le> 16
       then fixed_str ds pt @ (if int (length ds) \<le> pt then ''.0'' else [])
       else scientific_str ds pt))"

text \<open>\<^verbatim>\<open>format(x, ".12g")\<close>: twelve significant digits, ties to even.\<close>

definition round_digits :: "nat \<Rightarrow> nat \<Rightarrow> nat \<Rightarrow> nat \<times> nat" where
  "round_digits p m k =
     (let n = length (nat_str m) in
      if n \<le> p then (m, k)
      else let s = 10 ^ (n - p); d = m div s; r = m mod s in
        ((if 2 * r > s \<or> (2 * r = s \<and> odd d) then d + 1 else d) * s, k))"

definition format_12g :: "rat \<Rightarrow> string" where
  "format_12g q =
     (if q = 0 then ''0'' else
      let (m, k) = decimal_of \<bar>q\<bar>; (m', k') = round_digits 12 (nat m) k;
          (ds, pt) = decimal_digits m' k' in
      (if q < 0 then ''-'' else []) @
      (if - 4 \<le> pt - 1 \<and> pt - 1 < 12 then fixed_str ds pt else scientific_str ds pt))"

section \<open>UTF-8\<close>

text \<open>\<^verbatim>\<open>s.encode("utf-8")\<close> and its inverse, on code points below 256; bytes are characters too.\<close>

definition utf8_char :: "char \<Rightarrow> string" where
  "utf8_char c = (if code c < 128 then [c]
     else [char_of (192 + code c div 64), char_of (128 + code c mod 64)])"

definition utf8_encode :: "string \<Rightarrow> string" where
  "utf8_encode s = concat (map utf8_char s)"

fun utf8_decode :: "string \<Rightarrow> string option" where
  "utf8_decode [] = Some []"
| "utf8_decode (b # bs) =
     (if code b < 128 then map_option ((#) b) (utf8_decode bs)
      else case bs of
        [] \<Rightarrow> None
      | b' # bs' \<Rightarrow>
          if (code b = 194 \<or> code b = 195) \<and> 128 \<le> code b' \<and> code b' < 192
          then map_option ((#) (char_of (64 * (code b - 192) + (code b' - 128)))) (utf8_decode bs')
          else None)"

lemma code_lt_256: "code c < 256"
  by (cases c) (simp add: of_char_def horner_sum_bound)

lemma utf8_decode_encode [simp]: "utf8_decode (utf8_encode s) = Some s"
proof (induction s)
  case Nil
  show ?case by (simp add: utf8_encode_def)
next
  case (Cons c s)
  have lt: "code c < 256" by (rule code_lt_256)
  show ?case
  proof (cases "code c < 128")
    case True
    with Cons show ?thesis by (simp add: utf8_encode_def utf8_char_def)
  next
    case False
    then have "2 \<le> code c div 64" by (simp add: less_eq_div_iff_mult_less_eq)
    moreover have "code c div 64 < 4" using lt by (simp add: less_mult_imp_div_less)
    ultimately have q: "code c div 64 = 2 \<or> code c div 64 = 3" by arith
    have "64 * (code c div 64) + code c mod 64 = code c" by simp
    moreover have "128 + code c mod 64 = code c" if "code c div 64 = 2"
      using that \<open>64 * (code c div 64) + code c mod 64 = code c\<close> by linarith
    moreover have "192 + code c mod 64 = code c" if "code c div 64 = 3"
      using that \<open>64 * (code c div 64) + code c mod 64 = code c\<close> by linarith
    ultimately show ?thesis using Cons False q
      by (auto simp: utf8_encode_def utf8_char_def)
  qed
qed

lemma utf8_encode_inj: "utf8_encode s = utf8_encode t \<Longrightarrow> s = t"
  by (metis option.inject utf8_decode_encode)

definition is_ascii :: "string \<Rightarrow> bool" where
  "is_ascii s \<longleftrightarrow> (\<forall>c \<in> set s. code c < 128)"

lemma utf8_encode_ascii: "is_ascii s \<Longrightarrow> utf8_encode s = s"
  by (induction s) (auto simp: is_ascii_def utf8_encode_def utf8_char_def)

lemma is_ascii_simps [simp]:
  "is_ascii []" "is_ascii (c # s) \<longleftrightarrow> code c < 128 \<and> is_ascii s"
  "is_ascii (s @ t) \<longleftrightarrow> is_ascii s \<and> is_ascii t"
  by (auto simp: is_ascii_def)

section \<open>Lines\<close>

lemma splitlines_aux_line:
  assumes "\<forall>c \<in> set s. \<not> is_line_end c"
  shows "splitlines_aux line (s @ CHR 0x0A # rest) = (rev line @ s) # splitlines_aux [] rest"
  using assms
proof (induction s arbitrary: line)
  case Nil
  show ?case by (simp add: is_line_end_def)
next
  case (Cons c s)
  then have "c \<noteq> CHR 0x0D" by (auto simp: is_line_end_def)
  with Cons show ?case by simp
qed

text \<open>Lines written each with its newline are read back, when none holds a line end.\<close>

lemma splitlines_concat:
  assumes "\<forall>l \<in> set ls. \<forall>c \<in> set l. \<not> is_line_end c"
  shows "splitlines (concat (map (\<lambda>l. l @ [CHR 0x0A]) ls)) = ls"
  using assms
proof (induction ls)
  case Nil
  show ?case by (simp add: splitlines_def)
next
  case (Cons l ls)
  then show ?case
    using splitlines_aux_line [of l "[]" "concat (map (\<lambda>l. l @ [CHR 0x0A]) ls)"]
    by (simp add: splitlines_def)
qed

end
