(* ===== verification/Py_Json.thy ===== *)
theory Py_Json
  imports Py_Text
begin

text \<open>
  JSON values as Python holds them, Python's equality and truth value on them, \<^verbatim>\<open>json.dumps\<close> in the
  styles the program uses and \<^verbatim>\<open>json.loads\<close>. The main result is the round trip: what \<^verbatim>\<open>dumps\<close> writes,
  \<^verbatim>\<open>loads\<close> reads back, with the keys sorted when the style sorts them. The locale \<open>row_codec\<close> is
  the part of it the components that keep their rows in JSONL files rely on.
\<close>

datatype json =
    JNull
  | JBool bool
  | JInt int
  | JFloat rat
  | JStr string
  | JArr "json list"
  | JObj "(string \<times> json) list"

type_synonym pyobj = "(string, json) dict"

section \<open>Python's view of a value\<close>

text \<open>
  \<^verbatim>\<open>==\<close> compares numbers across \<^verbatim>\<open>bool\<close>, \<^verbatim>\<open>int\<close> and \<^verbatim>\<open>float\<close> and dictionaries without their order: two
  values are equal when their normal forms are.
\<close>

fun py_norm :: "json \<Rightarrow> json" where
  "py_norm JNull = JNull"
| "py_norm (JBool b) = JFloat (if b then 1 else 0)"
| "py_norm (JInt i) = JFloat (of_int i)"
| "py_norm (JFloat q) = JFloat q"
| "py_norm (JStr s) = JStr s"
| "py_norm (JArr xs) = JArr (map py_norm xs)"
| "py_norm (JObj fs) = JObj (sort_key fst (map (\<lambda>(k, v). (k, py_norm v)) fs))"

definition py_eq :: "json \<Rightarrow> json \<Rightarrow> bool" where
  "py_eq x y \<longleftrightarrow> py_norm x = py_norm y"

fun truthy :: "json \<Rightarrow> bool" where
  "truthy JNull = False"
| "truthy (JBool b) = b"
| "truthy (JInt i) = (i \<noteq> 0)"
| "truthy (JFloat q) = (q \<noteq> 0)"
| "truthy (JStr s) = (s \<noteq> [])"
| "truthy (JArr xs) = (xs \<noteq> [])"
| "truthy (JObj fs) = (fs \<noteq> [])"

text \<open>\<^verbatim>\<open>row.get(k)\<close> and \<^verbatim>\<open>row[k]\<close>\<close>

abbreviation jget :: "pyobj \<Rightarrow> string \<Rightarrow> json" where
  "jget row k \<equiv> dict_get row k JNull"

abbreviation jitem :: "pyobj \<Rightarrow> string \<Rightarrow> json result" where
  "jitem row k \<equiv> dict_item row k"

fun is_str :: "json \<Rightarrow> bool" where
  "is_str (JStr s) = True"
| "is_str _ = False"

lemma is_str_iff: "is_str v \<longleftrightarrow> (\<exists>s. v = JStr s)"
  by (cases v) auto

lemma py_eq_refl [simp]: "py_eq x x"
  by (simp add: py_eq_def)

lemma py_eq_sym: "py_eq x y \<longleftrightarrow> py_eq y x"
  by (auto simp: py_eq_def)

lemma py_eq_trans: "py_eq x y \<Longrightarrow> py_eq y z \<Longrightarrow> py_eq x z"
  by (simp add: py_eq_def)

lemma py_eq_JStr [simp]: "py_eq (JStr s) v \<longleftrightarrow> v = JStr s" "py_eq v (JStr s) \<longleftrightarrow> v = JStr s"
  by (cases v; auto simp: py_eq_def)+

lemma py_eq_JNull [simp]: "py_eq JNull v \<longleftrightarrow> v = JNull" "py_eq v JNull \<longleftrightarrow> v = JNull"
  by (cases v; auto simp: py_eq_def)+

text \<open>\<^verbatim>\<open>v.get\<close> on a value that should be a dictionary, and a value that should be a string.\<close>

definition obj_fields :: "json \<Rightarrow> pyobj result" where
  "obj_fields v = (case v of JObj fs \<Rightarrow> Ok fs | _ \<Rightarrow> Raise (AttributeError ''get''))"

definition str_of :: "json \<Rightarrow> string result" where
  "str_of v = (case v of JStr s \<Rightarrow> Ok s | _ \<Rightarrow> Raise (TypeError ''path''))"

lemma obj_fields_Ok [run_ok]: "obj_fields v = Ok fs \<longleftrightarrow> v = JObj fs"
  by (cases v) (auto simp: obj_fields_def)

lemma str_of_Ok [run_ok]: "str_of v = Ok s \<longleftrightarrow> v = JStr s"
  by (cases v) (auto simp: str_of_def)

text \<open>\<^verbatim>\<open>len(v)\<close> and \<^verbatim>\<open>iter(v)\<close>: a string has its characters, a dictionary its keys.\<close>

definition py_iter :: "json \<Rightarrow> json list result" where
  "py_iter v = (case v of
     JArr xs \<Rightarrow> Ok xs
   | JStr s \<Rightarrow> Ok (map (\<lambda>c. JStr [c]) s)
   | JObj fs \<Rightarrow> Ok (map (\<lambda>(k, _). JStr k) fs)
   | _ \<Rightarrow> Raise (TypeError ''not iterable''))"

text \<open>Lists and dictionaries are not hashable: no keys, no members of sets.\<close>

definition hashable :: "json \<Rightarrow> bool" where
  "hashable v \<longleftrightarrow> (case v of JArr _ \<Rightarrow> False | JObj _ \<Rightarrow> False | _ \<Rightarrow> True)"

lemma hashable_JStr [simp]: "hashable (JStr s)"
  by (simp add: hashable_def)

text \<open>\<^verbatim>\<open>str(v)\<close> and \<^verbatim>\<open>repr(v)\<close>\<close>

definition hex_nibble :: "nat \<Rightarrow> char" where
  "hex_nibble d = (if d < 10 then char_of (48 + d) else char_of (87 + d))"

definition repr_char :: "char \<Rightarrow> char \<Rightarrow> string" where
  "repr_char q c =
     (if c = CHR 0x5C then [CHR 0x5C, CHR 0x5C]
      else if c = q then [CHR 0x5C, q]
      else if code c = 10 then [CHR 0x5C, CHR ''n'']
      else if code c = 13 then [CHR 0x5C, CHR ''r'']
      else if code c = 9 then [CHR 0x5C, CHR ''t'']
      else if code c < 32 \<or> (127 \<le> code c \<and> code c \<le> 160) \<or> code c = 173
      then [CHR 0x5C, CHR ''x'', hex_nibble (code c div 16), hex_nibble (code c mod 16)]
      else [c])"

definition repr_str :: "string \<Rightarrow> string" where
  "repr_str s =
     (let q = (if CHR 0x27 \<in> set s \<and> CHR 0x22 \<notin> set s then CHR 0x22 else CHR 0x27) in
      q # concat (map (repr_char q) s) @ [q])"

fun py_repr :: "json \<Rightarrow> string" where
  "py_repr JNull = ''None''"
| "py_repr (JBool b) = (if b then ''True'' else ''False'')"
| "py_repr (JInt i) = int_str i"
| "py_repr (JFloat q) = float_repr q"
| "py_repr (JStr s) = repr_str s"
| "py_repr (JArr xs) = ''['' @ join '', '' (map py_repr xs) @ '']''"
| "py_repr (JObj fs) = ''{'' @ join '', '' (map (\<lambda>(k, v). repr_str k @ '': '' @ py_repr v) fs) @ ''}''"

definition py_str :: "json \<Rightarrow> string" where
  "py_str v = (case v of JStr s \<Rightarrow> s | _ \<Rightarrow> py_repr v)"

lemma py_str_JStr [simp]: "py_str (JStr s) = s"
  by (simp add: py_str_def)

section \<open>dumps\<close>

record jstyle =
  js_indent :: "nat option"
  js_sort :: bool
  js_ascii :: bool
  js_item_sep :: string
  js_key_sep :: string

text \<open>The styles of the program's calls.\<close>

definition js_canonical :: jstyle where
  \<comment> \<open>\<^verbatim>\<open>json.dumps(x, sort_keys=True, separators=(",", ":"))\<close>\<close>
  "js_canonical = \<lparr>js_indent = None, js_sort = True, js_ascii = True,
     js_item_sep = '','', js_key_sep = '':''\<rparr>"

definition js_compact :: jstyle where
  \<comment> \<open>\<^verbatim>\<open>json.dumps(x, separators=(",", ":"))\<close>, and pydantic's \<^verbatim>\<open>model_dump_json\<close>\<close>
  "js_compact = js_canonical\<lparr>js_sort := False\<rparr>"

definition js_pretty :: jstyle where
  \<comment> \<open>\<^verbatim>\<open>json.dumps(x, indent=2, sort_keys=True)\<close>\<close>
  "js_pretty = \<lparr>js_indent = Some 2, js_sort = True, js_ascii = True,
     js_item_sep = '','', js_key_sep = '': ''\<rparr>"

definition js_lines :: jstyle where
  \<comment> \<open>\<^verbatim>\<open>json.dumps(x, sort_keys=True)\<close>\<close>
  "js_lines = \<lparr>js_indent = None, js_sort = True, js_ascii = True,
     js_item_sep = '', '', js_key_sep = '': ''\<rparr>"

definition js_lines_raw :: jstyle where
  \<comment> \<open>\<^verbatim>\<open>json.dumps(x, ensure_ascii=False, sort_keys=True)\<close>\<close>
  "js_lines_raw = js_lines\<lparr>js_ascii := False\<rparr>"

definition hex_char :: "nat \<Rightarrow> char" where
  "hex_char d = (if d < 10 then char_of (48 + d) else char_of (87 + d))"

definition esc_char :: "bool \<Rightarrow> char \<Rightarrow> string" where
  "esc_char ascii c =
     (if c = CHR 0x22 then [CHR 0x5C, CHR 0x22]
      else if c = CHR 0x5C then [CHR 0x5C, CHR 0x5C]
      else if code c = 10 then [CHR 0x5C, CHR ''n'']
      else if code c = 13 then [CHR 0x5C, CHR ''r'']
      else if code c = 9 then [CHR 0x5C, CHR ''t'']
      else if code c = 8 then [CHR 0x5C, CHR ''b'']
      else if code c = 12 then [CHR 0x5C, CHR ''f'']
      else if code c < 32 \<or> (ascii \<and> 127 \<le> code c)
      then [CHR 0x5C, CHR ''u'', CHR ''0'', CHR ''0'', hex_char (code c div 16), hex_char (code c mod 16)]
      else [c])"

definition dump_str :: "bool \<Rightarrow> string \<Rightarrow> string" where
  "dump_str ascii s = CHR 0x22 # concat (map (esc_char ascii) s) @ [CHR 0x22]"

definition newline :: "jstyle \<Rightarrow> nat \<Rightarrow> string" where
  "newline st l = (case js_indent st of None \<Rightarrow> [] | Some k \<Rightarrow> CHR 0x0A # replicate (k * l) (CHR '' ''))"

definition bracketed :: "jstyle \<Rightarrow> nat \<Rightarrow> char \<Rightarrow> char \<Rightarrow> string list \<Rightarrow> string" where
  "bracketed st l op cl items =
     (if items = [] then [op, cl]
      else [op] @ newline st (Suc l) @ join (js_item_sep st @ newline st (Suc l)) items @
        newline st l @ [cl])"

definition key_order :: "jstyle \<Rightarrow> (string \<times> 'a) list \<Rightarrow> (string \<times> 'a) list" where
  "key_order st fs = (if js_sort st then sort_key fst fs else fs)"

fun dump :: "jstyle \<Rightarrow> nat \<Rightarrow> json \<Rightarrow> string" where
  "dump st l JNull = ''null''"
| "dump st l (JBool b) = (if b then ''true'' else ''false'')"
| "dump st l (JInt i) = int_str i"
| "dump st l (JFloat q) = float_repr q"
| "dump st l (JStr s) = dump_str (js_ascii st) s"
| "dump st l (JArr xs) = bracketed st l (CHR ''['') (CHR '']'') (map (dump st (Suc l)) xs)"
| "dump st l (JObj fs) = bracketed st l (CHR ''{'') (CHR ''}'')
     (map snd (key_order st
       (map (\<lambda>(k, v). (k, dump_str (js_ascii st) k @ js_key_sep st @ dump st (Suc l) v)) fs)))"

definition dumps :: "jstyle \<Rightarrow> json \<Rightarrow> string" where
  "dumps st v = dump st 0 v"

section \<open>loads\<close>

definition is_ws :: "char \<Rightarrow> bool" where
  "is_ws c \<longleftrightarrow> code c = 32 \<or> code c = 9 \<or> code c = 10 \<or> code c = 13"

abbreviation skip_ws :: "string \<Rightarrow> string" where
  "skip_ws s \<equiv> dropWhile is_ws s"

definition hex_value :: "char \<Rightarrow> nat option" where
  "hex_value c =
     (if is_digit c then Some (code c - 48)
      else if 97 \<le> code c \<and> code c \<le> 102 then Some (code c - 87)
      else if 65 \<le> code c \<and> code c \<le> 70 then Some (code c - 55)
      else None)"

definition simple_escape :: "char \<Rightarrow> char option" where
  "simple_escape e =
     (if e = CHR 0x22 \<or> e = CHR 0x5C \<or> e = CHR ''/'' then Some e
      else if e = CHR ''n'' then Some (CHR 0x0A)
      else if e = CHR ''r'' then Some (CHR 0x0D)
      else if e = CHR ''t'' then Some (CHR 0x09)
      else if e = CHR ''b'' then Some (CHR 0x08)
      else if e = CHR ''f'' then Some (CHR 0x0C)
      else None)"

text \<open>
  The body of a string, after its opening quote. A \<^verbatim>\<open>\u\<close> escape above 00ff names a code point outside
  the model's alphabet and is not read.
\<close>

fun p_chars :: "string \<Rightarrow> (string \<times> string) option" where
  "p_chars [] = None"
| "p_chars (c # cs) =
     (if c = CHR 0x22 then Some ([], cs)
      else if c = CHR 0x5C then
        (case cs of
           [] \<Rightarrow> None
         | e # r \<Rightarrow>
             (case simple_escape e of
                Some x \<Rightarrow> map_option (\<lambda>(s, r'). (x # s, r')) (p_chars r)
              | None \<Rightarrow>
                  (case r of
                     h1 # h2 # h3 # h4 # r4 \<Rightarrow>
                       (if e = CHR ''u'' \<and> hex_value h1 = Some 0 \<and> hex_value h2 = Some 0 then
                          (case (hex_value h3, hex_value h4) of
                             (Some a, Some b) \<Rightarrow>
                               map_option (\<lambda>(s, r'). (char_of (16 * a + b) # s, r')) (p_chars r4)
                           | _ \<Rightarrow> None)
                        else None)
                   | _ \<Rightarrow> None)))
      else if code c < 32 then None
      else map_option (\<lambda>(s, r'). (c # s, r')) (p_chars cs))"

definition p_nat :: "string \<Rightarrow> (string \<times> string) option" where
  "p_nat s =
     (case s of
        [] \<Rightarrow> None
      | c # r \<Rightarrow>
          if c = CHR ''0'' then Some ([c], r)
          else if is_digit c then Some (takeWhile is_digit s, dropWhile is_digit s)
          else None)"

text \<open>An optional fraction and an optional exponent, each only when digits follow.\<close>

definition p_fraction :: "string \<Rightarrow> string \<times> string" where
  "p_fraction s =
     (case s of
        c # r \<Rightarrow> if c = CHR ''.'' \<and> takeWhile is_digit r \<noteq> []
                 then (takeWhile is_digit r, dropWhile is_digit r) else ([], s)
      | [] \<Rightarrow> ([], s))"

definition p_exponent :: "string \<Rightarrow> int option \<times> string" where
  "p_exponent s =
     (case s of
        c # r \<Rightarrow>
          if c = CHR ''e'' \<or> c = CHR ''E'' then
            (let neg = (r \<noteq> [] \<and> hd r = CHR ''-'');
                 r' = (if r \<noteq> [] \<and> (hd r = CHR ''-'' \<or> hd r = CHR ''+'') then tl r else r);
                 ds = takeWhile is_digit r'
             in if ds = [] then (None, s)
                else (Some (if neg then - int (str_nat ds) else int (str_nat ds)),
                      dropWhile is_digit r'))
          else (None, s)
      | [] \<Rightarrow> (None, s))"

definition pow10 :: "int \<Rightarrow> rat" where
  "pow10 e = (if 0 \<le> e then 10 ^ nat e else 1 / 10 ^ nat (- e))"

definition p_number :: "string \<Rightarrow> (json \<times> string) option" where
  "p_number s =
     (let neg = (s \<noteq> [] \<and> hd s = CHR ''-''); s' = (if neg then tl s else s) in
      case p_nat s' of
        None \<Rightarrow> None
      | Some (ds, r) \<Rightarrow>
          (let (fs, r') = p_fraction r; (ex, r'') = p_exponent r' in
           if fs = [] \<and> ex = None
           then Some (JInt (if neg then - int (str_nat ds) else int (str_nat ds)), r)
           else let q = of_nat (str_nat (ds @ fs)) * pow10 ((case ex of None \<Rightarrow> 0 | Some e \<Rightarrow> e) - int (length fs))
                in Some (JFloat (if neg then - q else q), r'')))"

definition p_literal :: "string \<Rightarrow> json \<Rightarrow> string \<Rightarrow> (json \<times> string) option" where
  "p_literal w v s = (if prefix w s then Some (v, drop (length w) s) else None)"

text \<open>
  Values, array items and object fields; the fuel bounds the nesting of the calls and
  \<open>loads\<close> gives twice the length of the text, which is always enough.
\<close>

fun p_value :: "nat \<Rightarrow> string \<Rightarrow> (json \<times> string) option"
  and p_items :: "nat \<Rightarrow> string \<Rightarrow> (json list \<times> string) option"
  and p_fields :: "nat \<Rightarrow> string \<Rightarrow> ((string \<times> json) list \<times> string) option" where
  "p_value 0 s = None"
| "p_value (Suc n) [] = None"
| "p_value (Suc n) (c # r) =
     (if c = CHR 0x22 then map_option (\<lambda>(s, r'). (JStr s, r')) (p_chars r)
      else if c = CHR ''['' then
        (let r' = skip_ws r in
         if r' \<noteq> [] \<and> hd r' = CHR '']'' then Some (JArr [], tl r')
         else map_option (\<lambda>(xs, r''). (JArr xs, r'')) (p_items n r'))
      else if c = CHR ''{'' then
        (let r' = skip_ws r in
         if r' \<noteq> [] \<and> hd r' = CHR ''}'' then Some (JObj [], tl r')
         else map_option (\<lambda>(fs, r''). (JObj (dict_of fs), r'')) (p_fields n r'))
      else if c = CHR ''n'' then p_literal ''null'' JNull (c # r)
      else if c = CHR ''t'' then p_literal ''true'' (JBool True) (c # r)
      else if c = CHR ''f'' then p_literal ''false'' (JBool False) (c # r)
      else p_number (c # r))"
| "p_items 0 s = None"
| "p_items (Suc n) s =
     (case p_value n s of
        None \<Rightarrow> None
      | Some (v, r) \<Rightarrow>
          (case skip_ws r of
             [] \<Rightarrow> None
           | c # r' \<Rightarrow>
               if c = CHR '','' then map_option (\<lambda>(vs, r''). (v # vs, r'')) (p_items n (skip_ws r'))
               else if c = CHR '']'' then Some ([v], r')
               else None))"
| "p_fields 0 s = None"
| "p_fields (Suc n) s =
     (case s of
        [] \<Rightarrow> None
      | q # s1 \<Rightarrow>
          if q \<noteq> CHR 0x22 then None
          else
            (case p_chars s1 of
               None \<Rightarrow> None
             | Some (k, s2) \<Rightarrow>
                 (case skip_ws s2 of
                    [] \<Rightarrow> None
                  | col # s3 \<Rightarrow>
                      if col \<noteq> CHR '':'' then None
                      else
                        (case p_value n (skip_ws s3) of
                           None \<Rightarrow> None
                         | Some (v, r) \<Rightarrow>
                             (case skip_ws r of
                                [] \<Rightarrow> None
                              | c # r' \<Rightarrow>
                                  if c = CHR '','' then
                                    map_option (\<lambda>(fs, r''). ((k, v) # fs, r'')) (p_fields n (skip_ws r'))
                                  else if c = CHR ''}'' then Some ([(k, v)], r')
                                  else None)))))"

definition loads :: "string \<Rightarrow> json result" where
  "loads s =
     (case p_value (2 * length s) (skip_ws s) of
        None \<Rightarrow> Raise JSONDecodeError
      | Some (v, r) \<Rightarrow> if skip_ws r = [] then Ok v else Raise JSONDecodeError)"

text \<open>
  A row of a file as the programs use it: \<^verbatim>\<open>row[k]\<close> fails on a row that is no object, and the
  readers use the values at these keys as strings.
\<close>

definition loads_object :: "string \<Rightarrow> pyobj result" where
  "loads_object line = rbind (loads line) (\<lambda>v. case v of JObj fs \<Rightarrow> Ok fs | _ \<Rightarrow> Raise (TypeError ''row''))"

definition str_item :: "pyobj \<Rightarrow> string \<Rightarrow> string result" where
  "str_item row k = rbind (jitem row k) (\<lambda>v. case v of JStr s \<Rightarrow> Ok s | _ \<Rightarrow> Raise (TypeError k))"

lemma str_item_Ok_iff [run_ok]: "str_item row k = Ok s \<longleftrightarrow> map_of row k = Some (JStr s)"
proof (cases "map_of row k")
  case (Some v)
  then show ?thesis by (cases v) (auto simp: str_item_def dict_item_def)
qed (simp add: str_item_def dict_item_def)

section \<open>Round trip\<close>

text \<open>What a style writes for a value, read back: the same value with the keys in the style's order.\<close>

fun js_ordered :: "jstyle \<Rightarrow> json \<Rightarrow> json" where
  "js_ordered st (JArr xs) = JArr (map (js_ordered st) xs)"
| "js_ordered st (JObj fs) = JObj (key_order st (map (\<lambda>(k, v). (k, js_ordered st v)) fs))"
| "js_ordered st v = v"

text \<open>Dictionaries have distinct keys, and the round trip is stated for values without floats.\<close>

fun js_plain :: "json \<Rightarrow> bool" where
  "js_plain (JFloat q) = False"
| "js_plain (JArr xs) = list_all js_plain xs"
| "js_plain (JObj fs) = (distinct (map fst fs) \<and> list_all (\<lambda>(k, v). js_plain v) fs)"
| "js_plain v = True"

fun js_size :: "json \<Rightarrow> nat" where
  "js_size (JArr xs) = Suc (sum_list (map (\<lambda>x. Suc (js_size x)) xs))"
| "js_size (JObj fs) = Suc (sum_list (map (\<lambda>(k, v). Suc (js_size v)) fs))"
| "js_size v = 1"

definition js_separators :: "jstyle \<Rightarrow> bool" where
  "js_separators st \<longleftrightarrow>
     (\<exists>w. js_item_sep st = CHR '','' # w \<and> (\<forall>c \<in> set w. is_ws c)) \<and>
     (\<exists>w. js_key_sep st = CHR '':'' # w \<and> (\<forall>c \<in> set w. is_ws c))"

definition no_number :: "string \<Rightarrow> bool" where
  "no_number s \<longleftrightarrow> s = [] \<or>
     (\<not> is_digit (hd s) \<and> hd s \<noteq> CHR ''.'' \<and> hd s \<noteq> CHR ''e'' \<and> hd s \<noteq> CHR ''E'')"

lemma sort_key_map_fst:
  "(\<And>x. fst (g x) = fst x) \<Longrightarrow> sort_key fst (map g xs) = map g (sort_key fst xs)"
proof (induction xs)
  case (Cons x xs)
  have "insort_key fst (g x) (map g ys) = map g (insort_key fst x ys)" for ys
    using Cons.prems by (induction ys) auto
  with Cons show ?case by simp
qed simp

lemma key_order_map:
  "key_order st (map (\<lambda>(k, v). (k, f k v)) fs) = map (\<lambda>(k, v). (k, f k v)) (key_order st fs)"
  unfolding key_order_def by (auto intro: sort_key_map_fst)

lemma set_key_order [simp]: "set (key_order st fs) = set fs"
  by (simp add: key_order_def)

lemma key_order_eq_Nil [simp]: "key_order st fs = [] \<longleftrightarrow> fs = []"
  by (metis set_empty set_key_order)

lemma mset_key_order [simp]: "mset (key_order st fs) = mset fs"
  by (simp add: key_order_def)

lemma distinct_key_order [simp]: "distinct (map fst (key_order st fs)) \<longleftrightarrow> distinct (map fst fs)"
  by (metis mset_eq_imp_distinct_iff mset_key_order mset_map)

lemma hex_value_hex_char: "d < 16 \<Longrightarrow> hex_value (hex_char d) = Some d"
  by (auto simp: hex_value_def hex_char_def is_digit_def)

lemma p_chars_esc:
  "p_chars (esc_char a c @ t) = map_option (\<lambda>(s, r). (c # s, r)) (p_chars t)"
proof -
  have hex: "16 * (code c div 16) + code c mod 16 = code c" by simp
  have hi: "code c div 16 < 16" using code_lt_256 [of c] by (simp add: less_mult_imp_div_less)
  have lo: "code c mod 16 < 16" by simp
  have zero: "hex_value (CHR ''0'') = Some 0" by (simp add: hex_value_def is_digit_def)
  have u: "simple_escape (CHR ''u'') = None" by (simp add: simple_escape_def)
  have esc: "simple_escape (CHR ''n'') = Some (CHR 0x0A)" "simple_escape (CHR ''r'') = Some (CHR 0x0D)"
    "simple_escape (CHR ''t'') = Some (CHR 0x09)" "simple_escape (CHR ''b'') = Some (CHR 0x08)"
    "simple_escape (CHR ''f'') = Some (CHR 0x0C)" "simple_escape (CHR 0x22) = Some (CHR 0x22)"
    "simple_escape (CHR 0x5C) = Some (CHR 0x5C)"
    by (simp_all add: simple_escape_def)
  have named: "code c = 10 \<Longrightarrow> c = CHR 0x0A" "code c = 13 \<Longrightarrow> c = CHR 0x0D"
    "code c = 9 \<Longrightarrow> c = CHR 0x09" "code c = 8 \<Longrightarrow> c = CHR 0x08" "code c = 12 \<Longrightarrow> c = CHR 0x0C"
    by (drule code_eqD, simp add: char_of_eq_iff)+
  show ?thesis
    unfolding esc_char_def
    by (auto simp: esc u zero hex_value_hex_char [OF hi] hex_value_hex_char [OF lo] hex dest: named)
qed

lemma p_chars_dump_str:
  "p_chars (concat (map (esc_char a) s) @ CHR 0x22 # rest) = Some (s, rest)"
  by (induction s) (auto simp: p_chars_esc)

lemma p_number_int:
  assumes "no_number rest"
  shows "p_number (int_str i @ rest) = Some (JInt i, rest)"
proof -
  have nat: "p_nat (nat_str n @ rest) = Some (nat_str n, rest)" for n
  proof (cases "n = 0")
    case True
    then show ?thesis by (simp add: p_nat_def nat_str.simps [of 0] digit_char_def char_of_eq_iff)
  next
    case False
    obtain c r where cr: "nat_str n = c # r" by (cases "nat_str n") auto
    have "c \<noteq> CHR ''0''" using nat_str_hd_zero [of n] False cr by auto
    moreover have digs: "\<forall>c \<in> set (nat_str n). is_digit c" by (rule nat_str_digits)
    moreover have "takeWhile is_digit (nat_str n @ rest) = nat_str n"
      "dropWhile is_digit (nat_str n @ rest) = rest"
      using digs assms by (cases rest; auto simp: no_number_def takeWhile_append2 dropWhile_append2)+
    ultimately show ?thesis using cr by (simp add: p_nat_def)
  qed
  have tail: "p_fraction rest = ([], rest)" "p_exponent rest = (None, rest)"
    using assms by (cases rest; auto simp: no_number_def p_fraction_def p_exponent_def)+
  have nd: "hd (nat_str n) \<noteq> CHR ''-''" for n
    using nat_str_digits [of n] by (cases "nat_str n") (auto simp: is_digit_def)
  show ?thesis
  proof (cases "i < 0")
    case True
    then show ?thesis using nat tail by (simp add: int_str_def p_number_def)
  next
    case False
    then show ?thesis using nat tail nd by (simp add: int_str_def p_number_def)
  qed
qed

lemma skip_ws_append: "(\<forall>c \<in> set w. is_ws c) \<Longrightarrow> skip_ws (w @ s) = skip_ws s"
  by (induction w) auto

lemma newline_ws: "\<forall>c \<in> set (newline st l). is_ws c"
  by (auto simp: newline_def is_ws_def split: option.splits)

lemma no_number_char [simp]:
  "no_number (CHR '','' # s)" "no_number (CHR '']'' # s)" "no_number (CHR ''}'' # s)"
  by (auto simp: no_number_def is_digit_def)

lemma no_number_ws: "(\<forall>c \<in> set w. is_ws c) \<Longrightarrow> no_number s \<Longrightarrow> no_number (w @ s)"
  by (cases w) (auto simp: no_number_def is_ws_def is_digit_def)

lemma not_ws [simp]:
  "\<not> is_ws (CHR '','')" "\<not> is_ws (CHR '']'')" "\<not> is_ws (CHR ''}'')" "\<not> is_ws (CHR '':'')"
  "\<not> is_ws (CHR ''['')" "\<not> is_ws (CHR ''{'')" "\<not> is_ws (CHR 0x22)"
  by (auto simp: is_ws_def)

text \<open>The first character of a written value is never a blank, and never closes a bracket.\<close>

definition value_start :: "string \<Rightarrow> bool" where
  "value_start s \<longleftrightarrow> s \<noteq> [] \<and> \<not> is_ws (hd s) \<and> hd s \<noteq> CHR '']''"

lemma value_start_append: "value_start s \<Longrightarrow> value_start (s @ t) \<and> skip_ws (s @ t) = s @ t"
  by (cases s) (auto simp: value_start_def)

lemma int_str_start: "value_start (int_str i) \<and>
    (hd (int_str i) = CHR ''-'' \<or> is_digit (hd (int_str i)))"
proof -
  have d: "is_digit (hd (nat_str n))" for n
    using nat_str_digits [of n] by (cases "nat_str n") auto
  have "\<not> is_ws c \<and> c \<noteq> CHR '']''" if "is_digit c" for c
    using that by (auto simp: is_digit_def is_ws_def)
  with d show ?thesis
    by (auto simp: int_str_def value_start_def is_ws_def)
qed

lemma dump_start: "js_plain v \<Longrightarrow> value_start (dump st l v)"
  using int_str_start
  by (cases v) (auto simp: value_start_def dump_str_def bracketed_def is_ws_def)

lemma p_items_dump:
  assumes "js_separators st" "xs \<noteq> []" "sum_list (map (\<lambda>x. Suc (js_size x)) xs) \<le> n"
    and "\<forall>x \<in> set xs. js_plain x"
    and "\<And>x l n rest. \<lbrakk>x \<in> set xs; no_number rest; js_size x \<le> n\<rbrakk> \<Longrightarrow>
      p_value n (dump st l x @ rest) = Some (js_ordered st x, rest)"
  shows "p_items n (join (js_item_sep st @ newline st l) (map (dump st l) xs) @
      newline st l' @ CHR '']'' # rest) = Some (map (js_ordered st) xs, rest)"
  using assms(2-)
proof (induction xs arbitrary: n)
  case Nil
  then show ?case by simp
next
  case (Cons x xs)
  from assms(1) obtain w where w: "js_item_sep st = CHR '','' # w" "\<forall>c \<in> set w. is_ws c"
    by (auto simp: js_separators_def)
  from Cons.prems(2) obtain m where n: "n = Suc m" "js_size x \<le> m"
    "sum_list (map (\<lambda>x. Suc (js_size x)) xs) \<le> m" by (cases n) auto
  let ?close = "newline st l' @ CHR '']'' # rest"
  have ws_end: "skip_ws ?close = CHR '']'' # rest"
    by (simp add: skip_ws_append [OF newline_ws])
  show ?case
  proof (cases "xs = []")
    case True
    have "p_value m (dump st l x @ ?close) = Some (js_ordered st x, ?close)"
      by (rule Cons.prems(4)) (auto simp: n intro!: no_number_ws newline_ws)
    with True show ?thesis by (simp add: n ws_end)
  next
    case False
    let ?following = "join (js_item_sep st @ newline st l) (map (dump st l) xs) @ ?close"
    have j: "join (js_item_sep st @ newline st l) (map (dump st l) (x # xs)) @ ?close =
      dump st l x @ CHR '','' # (w @ newline st l) @ ?following"
      using False by (cases xs) (simp_all add: w(1))
    have start: "skip_ws ((w @ newline st l) @ ?following) = ?following"
    proof -
      obtain y ys where xs: "xs = y # ys" using False by (cases xs) auto
      have "value_start (dump st l y)" using Cons.prems(3) xs by (auto intro: dump_start)
      then have "skip_ws (dump st l y @ r) = dump st l y @ r" for r
        using value_start_append by blast
      then have "skip_ws ?following = ?following" using xs by (cases ys) (simp_all add: append_assoc)
      then show ?thesis using skip_ws_append [of "w @ newline st l"] w(2) newline_ws by auto
    qed
    have "p_value m (dump st l x @ CHR '','' # (w @ newline st l) @ ?following) =
      Some (js_ordered st x, CHR '','' # (w @ newline st l) @ ?following)"
      by (rule Cons.prems(4)) (auto simp: n)
    moreover have "p_items m ?following = Some (map (js_ordered st) xs, rest)"
      by (rule Cons.IH) (use False n Cons.prems in auto)
    ultimately show ?thesis unfolding j using start by (simp add: n)
  qed
qed

lemma p_fields_dump:
  assumes "js_separators st" "fs \<noteq> []" "sum_list (map (\<lambda>(k, v). Suc (js_size v)) fs) \<le> n"
    and "\<forall>(k, v) \<in> set fs. js_plain v"
    and "\<And>k v l n rest. \<lbrakk>(k, v) \<in> set fs; no_number rest; js_size v \<le> n\<rbrakk> \<Longrightarrow>
      p_value n (dump st l v @ rest) = Some (js_ordered st v, rest)"
  shows "p_fields n (join (js_item_sep st @ newline st l)
        (map (\<lambda>(k, v). dump_str (js_ascii st) k @ js_key_sep st @ dump st l v) fs) @
      newline st l' @ CHR ''}'' # rest) = Some (map (\<lambda>(k, v). (k, js_ordered st v)) fs, rest)"
  using assms(2-)
proof (induction fs arbitrary: n)
  case Nil
  then show ?case by simp
next
  case (Cons p fs)
  obtain k v where p: "p = (k, v)" by (cases p)
  from assms(1) obtain w where w: "js_item_sep st = CHR '','' # w" "\<forall>c \<in> set w. is_ws c"
    by (auto simp: js_separators_def)
  from assms(1) obtain u where u: "js_key_sep st = CHR '':'' # u" "\<forall>c \<in> set u. is_ws c"
    by (auto simp: js_separators_def)
  from Cons.prems(2) p obtain m where n: "n = Suc m" "js_size v \<le> m"
    "sum_list (map (\<lambda>(k, v). Suc (js_size v)) fs) \<le> m" by (cases n) auto
  let ?close = "newline st l' @ CHR ''}'' # rest"
  let ?item = "\<lambda>(k, v). dump_str (js_ascii st) k @ js_key_sep st @ dump st l v"
  have ws_end: "skip_ws ?close = CHR ''}'' # rest"
    by (simp add: skip_ws_append [OF newline_ws])
  have vs: "value_start (dump st l v)" using Cons.prems(3) p by (auto intro: dump_start)
  have key: "p_chars (concat (map (esc_char (js_ascii st)) k) @ CHR 0x22 # t) = Some (k, t)" for t
    by (rule p_chars_dump_str)
  have item: "?item p @ t = CHR 0x22 # concat (map (esc_char (js_ascii st)) k) @ CHR 0x22 #
      CHR '':'' # u @ dump st l v @ t" for t
    by (simp add: p dump_str_def u(1))
  have ws_val: "skip_ws (u @ dump st l v @ t) = dump st l v @ t" for t
    using skip_ws_append [OF u(2)] value_start_append [OF vs] by simp
  show ?case
  proof (cases "fs = []")
    case True
    have "p_value m (dump st l v @ ?close) = Some (js_ordered st v, ?close)"
      by (rule Cons.prems(4)) (auto simp: n p intro!: no_number_ws newline_ws)
    with True show ?thesis by (simp add: n item key ws_val ws_end) (simp add: p)
  next
    case False
    let ?following = "join (js_item_sep st @ newline st l) (map ?item fs) @ ?close"
    have j: "join (js_item_sep st @ newline st l) (map ?item (p # fs)) @ ?close =
      ?item p @ CHR '','' # (w @ newline st l) @ ?following"
      using False by (cases fs) (simp_all add: w(1))
    have start: "skip_ws ((w @ newline st l) @ ?following) = ?following"
    proof -
      obtain q fs' where fs: "fs = q # fs'" using False by (cases fs) auto
      have "skip_ws (?item q @ r) = ?item q @ r" for r
        by (cases q) (simp add: dump_str_def)
      then have "skip_ws ?following = ?following" using fs by (cases fs') (simp_all add: append_assoc)
      then show ?thesis using skip_ws_append [of "w @ newline st l"] w(2) newline_ws by auto
    qed
    have "p_value m (dump st l v @ CHR '','' # (w @ newline st l) @ ?following) =
      Some (js_ordered st v, CHR '','' # (w @ newline st l) @ ?following)"
      by (rule Cons.prems(4)) (auto simp: n p)
    moreover have "p_fields m ?following = Some (map (\<lambda>(k, v). (k, js_ordered st v)) fs, rest)"
    proof (rule Cons.IH)
      show "fs \<noteq> []" by (rule False)
      show "sum_list (map (\<lambda>(k, v). Suc (js_size v)) fs) \<le> m" by (rule n(3))
      show "\<forall>(k, v) \<in> set fs. js_plain v" using Cons.prems(3) by auto
      show "p_value n (dump st l v @ rest) = Some (js_ordered st v, rest)"
        if "(k, v) \<in> set fs" "no_number rest" "js_size v \<le> n" for k v l n rest
        by (rule Cons.prems(4)) (use that in auto)
    qed
    ultimately show ?thesis unfolding j item using start ws_val by (simp add: n key p)
  qed
qed


lemma key_order_items:
  "map snd (key_order st (map (\<lambda>(k, v). (k, f k v)) fs)) = map (\<lambda>(k, v). f k v) (key_order st fs)"
  unfolding key_order_map by (simp add: comp_def case_prod_beta')

lemma p_value_int:
  assumes "no_number rest"
  shows "p_value (Suc n) (int_str i @ rest) = Some (JInt i, rest)"
proof -
  obtain c r where cr: "int_str i = c # r"
    using int_str_start [of i] by (cases "int_str i") (auto simp: value_start_def)
  then have "c = CHR ''-'' \<or> is_digit c" using int_str_start [of i] by simp
  then have "p_value (Suc n) (c # r @ rest) = p_number (c # r @ rest)"
    by (auto simp: is_digit_def)
  then show ?thesis using p_number_int [OF assms, of i] cr by simp
qed

lemma p_value_dump:
  assumes sep: "js_separators st"
  shows "\<lbrakk>js_plain v; no_number rest; js_size v \<le> n\<rbrakk> \<Longrightarrow>
    p_value n (dump st l v @ rest) = Some (js_ordered st v, rest)"
proof (induction v arbitrary: n l rest rule: json.induct)
  case (JArr xs)
  then obtain m where n: "n = Suc m" "sum_list (map (\<lambda>x. Suc (js_size x)) xs) \<le> m"
    by (cases n) auto
  show ?case
  proof (cases "xs = []")
    case True
    then show ?thesis by (simp add: n bracketed_def)
  next
    case False
    let ?items = "join (js_item_sep st @ newline st (Suc l)) (map (dump st (Suc l)) xs) @
      newline st l @ CHR '']'' # rest"
    have items: "p_items m ?items = Some (map (js_ordered st) xs, rest)"
      by (rule p_items_dump [OF sep False n(2)]) (use JArr in \<open>auto simp: list_all_iff\<close>)
    obtain x ys where xs: "xs = x # ys" using False by (cases xs) auto
    have vs: "value_start (dump st (Suc l) x)" using JArr.prems(1) xs by (auto intro: dump_start)
    obtain t where t: "?items = dump st (Suc l) x @ t" using xs by (cases ys) auto
    have start: "skip_ws (newline st (Suc l) @ ?items) = ?items" "?items \<noteq> []" "hd ?items \<noteq> CHR '']''"
      unfolding t using value_start_append [OF vs, of t]
      by (auto simp: skip_ws_append [OF newline_ws] value_start_def)
    have d: "dump st l (JArr xs) @ rest = CHR ''['' # newline st (Suc l) @ ?items"
      using False by (simp add: bracketed_def)
    show ?thesis unfolding d n(1) using start items by (simp add: Let_def)
  qed
next
  case (JObj fs)
  then obtain m where n: "n = Suc m" "sum_list (map (\<lambda>(k, v). Suc (js_size v)) fs) \<le> m"
    by (cases n) auto
  show ?case
  proof (cases "fs = []")
    case True
    then show ?thesis by (simp add: n bracketed_def key_order_def)
  next
    case False
    let ?gs = "key_order st fs"
    let ?item = "\<lambda>(k, v). dump_str (js_ascii st) k @ js_key_sep st @ dump st (Suc l) v"
    let ?items = "join (js_item_sep st @ newline st (Suc l)) (map ?item ?gs) @
      newline st l @ CHR ''}'' # rest"
    have items: "p_fields m ?items = Some (map (\<lambda>(k, v). (k, js_ordered st v)) ?gs, rest)"
    proof (rule p_fields_dump [OF sep])
      show "?gs \<noteq> []" using False by simp
      show "sum_list (map (\<lambda>(k, v). Suc (js_size v)) ?gs) \<le> m"
        using n(2) by (metis (no_types, lifting) mset_key_order mset_map sum_mset_sum_list)
      show "\<forall>(k, v) \<in> set ?gs. js_plain v" using JObj.prems(1) by (auto simp: list_all_iff)
      show "p_value n (dump st l v @ rest) = Some (js_ordered st v, rest)"
        if "(k, v) \<in> set ?gs" "no_number rest" "js_size v \<le> n" for k v l n rest
        using that JObj.prems(1) by (intro JObj.IH [of "(k, v)" v]) (auto simp: list_all_iff)
    qed
    have dist: "dict_of (map (\<lambda>(k, v). (k, js_ordered st v)) ?gs) = map (\<lambda>(k, v). (k, js_ordered st v)) ?gs"
      using JObj.prems(1) by (intro dict_of_id) (simp add: comp_def case_prod_beta')
    obtain g gs' where gs: "?gs = g # gs'" using False by (cases ?gs) auto
    obtain t where t: "?items = CHR 0x22 # t"
      using gs by (cases g; cases gs') (auto simp: dump_str_def)
    have start: "skip_ws (newline st (Suc l) @ ?items) = ?items" "?items \<noteq> []" "hd ?items \<noteq> CHR ''}''"
      unfolding t by (auto simp: skip_ws_append [OF newline_ws])
    have d: "dump st l (JObj fs) @ rest = CHR ''{'' # newline st (Suc l) @ ?items"
      using False by (simp add: bracketed_def key_order_items)
    have o: "js_ordered st (JObj fs) = JObj (map (\<lambda>(k, v). (k, js_ordered st v)) ?gs)"
      by (simp add: key_order_map)
    show ?thesis unfolding d n(1) o using start items dist by (simp add: Let_def)
  qed
qed (auto simp: p_value_int p_chars_dump_str dump_str_def p_literal_def gr0_conv_Suc Suc_le_eq)


lemma join_length:
  "s \<noteq> [] \<Longrightarrow> sum_list (map length xs) + length xs \<le> length (join s xs) + 1"
proof (induction xs rule: induct_list012)
  case (3 x y zs)
  then show ?case by (cases s) auto
qed auto

lemma js_size_dump:
  assumes sep: "js_separators st"
  shows "js_plain v \<Longrightarrow> js_size v \<le> 2 * length (dump st l v)"
proof (induction v arbitrary: l rule: json.induct)
  case (JArr xs)
  have len: "sum_list (map (\<lambda>x. Suc (js_size x)) xs) \<le>
      2 * sum_list (map length (map (dump st (Suc l)) xs)) + length xs"
    using JArr
  proof (induction xs)
    case (Cons x xs)
    have "js_size x \<le> 2 * length (dump st (Suc l) x)" using Cons.prems by auto
    moreover have "sum_list (map (\<lambda>x. Suc (js_size x)) xs) \<le>
      2 * sum_list (map length (map (dump st (Suc l)) xs)) + length xs"
      by (rule Cons.IH) (use Cons.prems in auto)
    ultimately show ?case by simp
  qed simp
  have "js_item_sep st @ newline st (Suc l) \<noteq> []" using sep by (auto simp: js_separators_def)
  from join_length [OF this, of "map (dump st (Suc l)) xs"] len
  show ?case by (auto simp: bracketed_def)
next
  case (JObj fs)
  let ?item = "\<lambda>(k, v). dump_str (js_ascii st) k @ js_key_sep st @ dump st (Suc l) v"
  have len: "sum_list (map (\<lambda>(k, v). Suc (js_size v)) fs) \<le>
      2 * sum_list (map length (map ?item fs)) + length fs"
    using JObj
  proof (induction fs)
    case (Cons p fs)
    obtain k v where p: "p = (k, v)" by (cases p)
    have "js_size v \<le> 2 * length (dump st (Suc l) v)"
      using Cons.prems(2) p by (intro Cons.prems(1) [of p]) auto
    moreover have "sum_list (map (\<lambda>(k, v). Suc (js_size v)) fs) \<le>
      2 * sum_list (map length (map ?item fs)) + length fs"
      by (rule Cons.IH) (use Cons.prems in auto)
    ultimately show ?case by (simp add: p)
  qed simp
  have perm: "sum_list (map length (map ?item fs)) = sum_list (map length (map ?item (key_order st fs)))"
    by (metis (no_types, lifting) map_map mset_key_order mset_map sum_mset_sum_list)
  have "length fs = length (key_order st fs)" by (metis mset_key_order size_mset)
  moreover have "js_item_sep st @ newline st (Suc l) \<noteq> []" using sep by (auto simp: js_separators_def)
  note join_length [OF this, of "map ?item (key_order st fs)"]
  ultimately show ?case using len perm by (auto simp: bracketed_def key_order_items)
qed (auto simp: dump_str_def int_str_def Suc_le_eq)

lemma dumps_start: "js_plain v \<Longrightarrow> skip_ws (dumps st v @ t) = dumps st v @ t"
  unfolding dumps_def using value_start_append dump_start by blast

text \<open>The round trip, with whatever blanks follow the document (the newline of a JSONL row).\<close>

lemma loads_dumps:
  assumes "js_separators st" "js_plain v" "\<forall>c \<in> set w. is_ws c"
  shows "loads (dumps st v @ w) = Ok (js_ordered st v)"
proof -
  have sz: "js_size v \<le> 2 * length (dumps st v @ w)"
    using js_size_dump [OF assms(1,2), of 0] by (simp add: dumps_def)
  have nn: "no_number w" using no_number_ws [OF assms(3), of "[]"] by (simp add: no_number_def)
  have "p_value (2 * length (dumps st v @ w)) (dumps st v @ w) = Some (js_ordered st v, w)"
    using p_value_dump [OF assms(1,2) nn sz, of 0] by (simp add: dumps_def)
  moreover have "skip_ws w = []" using assms(3) by simp
  ultimately show ?thesis using dumps_start [OF assms(2), of st w] by (simp add: loads_def)
qed

lemma js_separators_styles [simp]:
  "js_separators js_canonical" "js_separators js_compact" "js_separators js_pretty"
  "js_separators js_lines" "js_separators js_lines_raw"
  by (auto simp: js_separators_def js_canonical_def js_compact_def js_pretty_def js_lines_def
      js_lines_raw_def is_ws_def)

lemma js_ordered_unsorted [simp]: "\<not> js_sort st \<Longrightarrow> js_ordered st v = v"
proof (induction v rule: json.induct)
  case (JArr xs)
  then show ?case by (simp add: map_idI)
next
  case (JObj fs)
  then have "map (\<lambda>(k, v). (k, js_ordered st v)) fs = fs"
    by (intro map_idI) (auto simp: prod_set_defs)
  with JObj.prems show ?case by (simp add: key_order_def)
qed auto

lemma dict_get_Some: "map_of d k = Some v \<Longrightarrow> dict_get d k v0 = v"
  by (simp add: dict_get_def)

lemma map_of_key_order: "distinct (map fst fs) \<Longrightarrow> map_of (key_order st fs) = map_of fs"
  by (subst map_of_inject_set) simp_all

lemma js_ordered_fields:
  assumes "distinct (map fst fs)"
  obtains gs where "js_ordered st (JObj fs) = JObj gs" "\<And>k. map_of gs k = map_option (js_ordered st) (map_of fs k)"
proof -
  have d: "distinct (map fst (map (\<lambda>(k, v). (k, js_ordered st v)) fs))"
    using assms by (simp add: comp_def case_prod_beta')
  have "map_of (key_order st (map (\<lambda>(k, v). (k, js_ordered st v)) fs)) k = map_option (js_ordered st) (map_of fs k)" for k
    by (simp only: map_of_key_order [OF d] map_of_map o_apply)
  with that show ?thesis by simp
qed

text \<open>
  Two documents of one sorting style are equal texts exactly when they are equal up to the order of
  their keys.
\<close>

lemma dumps_inj:
  assumes "js_separators st" "js_plain u" "js_plain v" "dumps st u = dumps st v"
  shows "js_ordered st u = js_ordered st v"
  using loads_dumps [OF assms(1,2), of "[]"] loads_dumps [OF assms(1,3), of "[]"] assms(4) by simp

section \<open>JSONL files\<close>

text \<open>
  A style writes on one line when it does not indent, escapes what is not ASCII and has printable
  separators: then no character of a document ends a line for \<^verbatim>\<open>splitlines\<close>. The raw styles do not
  have this property: a text with code point 133 is written as it is.
\<close>

abbreviation printable :: "char \<Rightarrow> bool" where
  "printable c \<equiv> 32 \<le> code c \<and> code c < 127"

definition js_inline :: "jstyle \<Rightarrow> bool" where
  "js_inline st \<longleftrightarrow> js_indent st = None \<and> js_ascii st \<and>
     (\<forall>c \<in> set (js_item_sep st @ js_key_sep st). printable c)"

lemma js_inline_styles [simp]: "js_inline js_canonical" "js_inline js_compact" "js_inline js_lines"
  by (auto simp: js_inline_def js_canonical_def js_compact_def js_lines_def)

lemma hex_char_printable: "d < 16 \<Longrightarrow> printable (hex_char d)"
  by (auto simp: hex_char_def)

lemma esc_char_printable: "\<forall>d \<in> set (esc_char True c). printable d"
proof -
  have "code c div 16 < 16" using code_lt_256 [of c] by (simp add: less_mult_imp_div_less)
  then show ?thesis
    using hex_char_printable [of "code c div 16"] hex_char_printable [of "code c mod 16"]
    by (auto simp: esc_char_def)
qed

lemma set_join: "set (join s xs) \<subseteq> set s \<union> (\<Union>x \<in> set xs. set x)"
  by (induction xs rule: induct_list012) auto

lemma int_str_printable: "\<forall>c \<in> set (int_str i). printable c"
  using nat_str_digits [of "nat i"] nat_str_digits [of "nat (- i)"]
  by (auto simp: int_str_def is_digit_def)

definition js_text :: "jstyle \<Rightarrow> bool" where
  "js_text st \<longleftrightarrow> js_ascii st \<and> (\<forall>c \<in> set (js_item_sep st @ js_key_sep st). printable c)"

abbreviation js_char :: "jstyle \<Rightarrow> char \<Rightarrow> bool" where
  "js_char st c \<equiv> printable c \<or> (js_indent st \<noteq> None \<and> code c = 10)"

lemma newline_char: "c \<in> set (newline st l) \<Longrightarrow> js_char st c"
  by (auto simp: newline_def split: option.splits)

lemma bracketed_char:
  assumes "c \<in> set (bracketed st l op cl items)" "js_text st" "printable op" "printable cl"
    "\<And>x. x \<in> set items \<Longrightarrow> c \<in> set x \<Longrightarrow> js_char st c"
  shows "js_char st c"
proof -
  from assms(1) consider "c = op \<or> c = cl" | n where "c \<in> set (newline st n)"
    | "c \<in> set (join (js_item_sep st @ newline st (Suc l)) items)"
    by (auto simp: bracketed_def split: if_splits)
  then show ?thesis
  proof cases
    case 3
    then have "c \<in> set (js_item_sep st @ newline st (Suc l)) \<union> (\<Union>x \<in> set items. set x)"
      by (rule subsetD [OF set_join])
    then show ?thesis using assms(2,5) newline_char [of c st "Suc l"] by (auto simp: js_text_def)
  qed (use assms(3,4) newline_char in auto)
qed

lemma dump_char:
  assumes st: "js_text st"
  shows "js_plain v \<Longrightarrow> c \<in> set (dump st l v) \<Longrightarrow> js_char st c"
proof (induction v arbitrary: l c rule: json.induct)
  case (JInt i)
  then show ?case using int_str_printable by auto
next
  case (JStr s)
  with st esc_char_printable show ?case by (auto simp: dump_str_def js_text_def)
next
  case (JArr xs)
  show ?case
    by (rule bracketed_char [OF JArr.prems(2) [unfolded dump.simps] st])
      (use JArr in \<open>auto simp: list_all_iff\<close>)
next
  case (JObj fs)
  have key: "\<forall>d \<in> set (dump_str (js_ascii st) k). printable d" for k
    using st esc_char_printable by (auto simp: dump_str_def js_text_def)
  show ?case
  proof (rule bracketed_char [OF JObj.prems(2) [unfolded dump.simps key_order_items] st])
    fix x assume x: "x \<in> set (map (\<lambda>(k, v). dump_str (js_ascii st) k @ js_key_sep st @ dump st (Suc l) v) (key_order st fs))"
      "c \<in> set x"
    then obtain k v where kv: "(k, v) \<in> set fs"
      "c \<in> set (dump_str (js_ascii st) k) \<or> c \<in> set (js_key_sep st) \<or> c \<in> set (dump st (Suc l) v)" by auto
    then consider "c \<in> set (dump_str (js_ascii st) k) \<or> c \<in> set (js_key_sep st)" | "c \<in> set (dump st (Suc l) v)"
      by auto
    then show "js_char st c"
    proof cases
      case 2
      then show ?thesis using JObj.prems(1) kv(1)
        by (intro JObj.IH [of "(k, v)" v c "Suc l"]) (auto simp: list_all_iff)
    qed (use key st in \<open>auto simp: js_text_def\<close>)
  qed auto
qed (auto split: if_splits)

lemma dump_printable: "js_inline st \<Longrightarrow> js_plain v \<Longrightarrow> c \<in> set (dump st l v) \<Longrightarrow> printable c"
  using dump_char [of st v c l] by (simp add: js_inline_def js_text_def)

lemma js_text_pretty [simp]: "js_text js_pretty"
  by (auto simp: js_text_def js_pretty_def)

text \<open>A text file read back: neither the encoding nor the newline translation changes a document.\<close>

lemma universal_newlines_id: "(\<forall>c \<in> set s. c \<noteq> CHR 0x0D) \<Longrightarrow> universal_newlines s = s"
  by (induction s) auto

lemma dumps_text:
  assumes "js_text st" "js_plain v"
  shows "is_ascii (dumps st v)" "universal_newlines (dumps st v @ [CHR 0x0A]) = dumps st v @ [CHR 0x0A]"
proof -
  have "js_char st c" if "c \<in> set (dumps st v)" for c using dump_char [OF assms] that by (simp add: dumps_def)
  then have c: "code c < 127 \<and> c \<noteq> CHR 0x0D" if "c \<in> set (dumps st v)" for c using that by fastforce
  then show "is_ascii (dumps st v)" by (fastforce simp: is_ascii_def)
  show "universal_newlines (dumps st v @ [CHR 0x0A]) = dumps st v @ [CHR 0x0A]"
    by (rule universal_newlines_id) (use c in auto)
qed

text \<open>
  What a component relies on when it writes rows to a file, one to a line, and another reads them
  back: the encoder's lines hold no line end and the decoder inverts it. The file's text and the
  reader are those of \<^verbatim>\<open>[json.loads(line) for line in text.splitlines()]\<close>.
\<close>

definition write_rows :: "('a \<Rightarrow> string) \<Rightarrow> 'a list \<Rightarrow> string" where
  "write_rows enc rows = concat (map (\<lambda>r. enc r @ [CHR 0x0A]) rows)"

definition read_rows :: "(string \<Rightarrow> 'a result) \<Rightarrow> string \<Rightarrow> 'a list result" where
  "read_rows dec text = mapM dec (splitlines text)"

locale row_codec =
  fixes enc :: "'a \<Rightarrow> string" and dec :: "string \<Rightarrow> 'a result" and valid :: "'a \<Rightarrow> bool"
  assumes dec_enc: "valid r \<Longrightarrow> dec (enc r) = Ok r"
    and enc_inline: "valid r \<Longrightarrow> c \<in> set (enc r) \<Longrightarrow> \<not> is_line_end c"
begin

lemma splitlines_rows: "list_all valid rows \<Longrightarrow> splitlines (write_rows enc rows) = map enc rows"
  using splitlines_concat [of "map enc rows"] enc_inline
  by (auto simp: write_rows_def comp_def list_all_iff)

lemma rows_roundtrip: "list_all valid rows \<Longrightarrow> read_rows dec (write_rows enc rows) = Ok rows"
  by (induction rows) (simp_all add: read_rows_def splitlines_rows dec_enc)

lemma write_rows_append: "write_rows enc (rs @ ss) = write_rows enc rs @ write_rows enc ss"
  by (simp add: write_rows_def)

lemma append_row:
  "list_all valid rows \<Longrightarrow> valid r \<Longrightarrow> read_rows dec (write_rows enc rows @ enc r @ [CHR 0x0A]) = Ok (rows @ [r])"
  using rows_roundtrip [of "rows @ [r]"] by (simp add: write_rows_def)

lemma enc_inj: "valid r \<Longrightarrow> valid s \<Longrightarrow> enc r = enc s \<longleftrightarrow> r = s"
  by (metis dec_enc result.inject(1))

end

lemma printable_inline: "printable c \<Longrightarrow> \<not> is_line_end c"
  by (auto simp: is_line_end_def)

text \<open>The unsorted one-line style is a codec for every plain value, a sorting one for sorted values.\<close>

definition js_row :: "jstyle \<Rightarrow> json \<Rightarrow> bool" where
  "js_row st v \<longleftrightarrow> js_plain v \<and> js_ordered st v = v"

lemma row_codec_style: "js_separators st \<Longrightarrow> js_inline st \<Longrightarrow> row_codec (dumps st) loads (js_row st)"
  using loads_dumps [of st _ "[]"] dump_printable printable_inline
  by unfold_locales (auto simp: js_row_def dumps_def)

interpretation compact: row_codec "dumps js_compact" loads "js_row js_compact"
  by (rule row_codec_style) simp_all

interpretation lines: row_codec "dumps js_lines" loads "js_row js_lines"
  by (rule row_codec_style) simp_all

end
