(* ===== verification/Py_Files.thy ===== *)
theory Py_Files
  imports Py_Json
begin

text \<open>
  The file system and the effects the release code has on it. A computation reads and changes a world:
  the present file system, the file systems that existed after each change (what a concurrent reader,
  or the next process after a crash, may find), and the faults still to come. Every operation of the
  operating system may fail, and one that is not atomic may fail half-way. Triples over such
  computations, with the rules the publication proofs use.
\<close>

section \<open>Paths and files\<close>

text \<open>
  An absolute path as the list of its components; \<^verbatim>\<open>p / s\<close> drops empty and \<^verbatim>\<open>.\<close> components and an
  absolute \<open>s\<close> replaces \<open>p\<close>, as in \<^verbatim>\<open>pathlib\<close>. A \<^verbatim>\<open>..\<close> component is a name like any other here.
\<close>

type_synonym path = "string list"

datatype node = File string | Dir

type_synonym fs = "(path \<times> node) list"

definition path_parts :: "string \<Rightarrow> path" where
  "path_parts s = filter (\<lambda>x. x \<noteq> [] \<and> x \<noteq> ''.'') (split_on (CHR ''/'') s)"

definition path_join :: "path \<Rightarrow> string \<Rightarrow> path" where
  "path_join p s = (if prefix ''/'' s then path_parts s else p @ path_parts s)"

definition fs_exists :: "fs \<Rightarrow> path \<Rightarrow> bool" where
  "fs_exists fs p \<longleftrightarrow> map_of fs p \<noteq> None"

definition fs_is_dir :: "fs \<Rightarrow> path \<Rightarrow> bool" where
  "fs_is_dir fs p \<longleftrightarrow> map_of fs p = Some Dir"

definition fs_read :: "fs \<Rightarrow> path \<Rightarrow> string result" where
  "fs_read fs p =
     (case map_of fs p of
        None \<Rightarrow> Raise (FileNotFoundError ''open'')
      | Some Dir \<Rightarrow> Raise (OSError ''is a directory'')
      | Some (File b) \<Rightarrow> Ok b)"

lemma fs_read_Ok [run_ok]: "fs_read fs p = Ok b \<longleftrightarrow> map_of fs p = Some (File b)"
  by (auto simp: fs_read_def split: option.splits node.splits)

definition fs_read_text :: "fs \<Rightarrow> path \<Rightarrow> string result" where
  "fs_read_text fs p =
     rbind (fs_read fs p) (\<lambda>b. case utf8_decode b of
       None \<Rightarrow> Raise (ValueError ''invalid utf-8'') | Some t \<Rightarrow> Ok (universal_newlines t))"

definition fs_empty_dir :: "fs \<Rightarrow> path \<Rightarrow> bool" where
  "fs_empty_dir fs p \<longleftrightarrow> list_all (\<lambda>(q, _). \<not> strict_prefix p q) fs"

text \<open>Changes of the file system.\<close>

definition fs_write :: "path \<Rightarrow> string \<Rightarrow> fs \<Rightarrow> fs" where
  "fs_write p b fs = AList.update p (File b) fs"

definition fs_mkdirs :: "path \<Rightarrow> fs \<Rightarrow> fs" where
  "fs_mkdirs p fs =
     foldl (\<lambda>fs q. if fs_exists fs q then fs else AList.update q Dir fs) fs (filter (\<lambda>q. q \<noteq> []) (prefixes p))"

definition fs_remove :: "path \<Rightarrow> fs \<Rightarrow> fs" where
  "fs_remove p fs = filter (\<lambda>(q, _). q \<noteq> p) fs"

definition fs_remove_tree :: "path \<Rightarrow> fs \<Rightarrow> fs" where
  "fs_remove_tree p fs = filter (\<lambda>(q, _). \<not> prefix p q) fs"

text \<open>\<^verbatim>\<open>os.replace(a, b)\<close>: the tree at \<open>a\<close> takes the place of what is at \<open>b\<close>, in one step.\<close>

definition fs_replace :: "path \<Rightarrow> path \<Rightarrow> fs \<Rightarrow> fs" where
  "fs_replace a b fs =
     map (\<lambda>(q, n). (if prefix a q then b @ drop (length a) q else q, n)) (fs_remove_tree b fs)"

lemma map_of_filter_keys: "map_of (filter (\<lambda>(q, _). P q) fs) p = (if P p then map_of fs p else None)"
  by (induction fs) auto

lemma lookup_write [simp]: "map_of (fs_write p b fs) q = (if q = p then Some (File b) else map_of fs q)"
  by (simp add: fs_write_def update_conv')

lemma lookup_remove [simp]: "map_of (fs_remove p fs) q = (if q = p then None else map_of fs q)"
  by (simp add: fs_remove_def map_of_filter_keys)

lemma lookup_remove_tree [simp]: "map_of (fs_remove_tree p fs) q = (if prefix p q then None else map_of fs q)"
  by (simp add: fs_remove_tree_def map_of_filter_keys)

lemma lookup_replace:
  assumes "\<not> prefix a b" "\<not> prefix b a"
  shows "map_of (fs_replace a b fs) q =
    (if prefix b q then map_of fs (a @ drop (length b) q) else if prefix a q then None else map_of fs q)"
proof -
  have disj: "prefix a q \<Longrightarrow> \<not> prefix b q" for q
    using assms by (meson prefix_same_cases)
  have "map_of (map (\<lambda>(q, n). (if prefix a q then b @ drop (length a) q else q, n)) gs) q =
    (if prefix b q then map_of gs (a @ drop (length b) q) else if prefix a q then None else map_of gs q)"
    if "\<forall>p \<in> fst ` set gs. \<not> prefix b p" for gs :: fs
    using that
  proof (induction gs)
    case (Cons p gs)
    obtain k n where p: "p = (k, n)" by (cases p)
    have k: "\<not> prefix b k" using Cons.prems p by simp
    have "(if prefix a k then b @ drop (length a) k else k) = q \<longleftrightarrow>
      (if prefix b q then k = a @ drop (length b) q else if prefix a q then False else k = q)"
    proof (cases "prefix a k")
      case True
      then obtain t where t: "k = a @ t" by (auto simp: prefix_def)
      show ?thesis
      proof (cases "prefix b q")
        case True
        then show ?thesis by (auto simp: t prefix_def)
      next
        case False
        have "b @ t \<noteq> q" "prefix a q \<or> a @ t \<noteq> q" using False by (auto simp: prefix_def)
        with False show ?thesis by (auto simp: t)
      qed
    next
      case False
      then show ?thesis using k by auto
    qed
    with Cons p show ?case by (auto split: if_splits)
  qed auto
  moreover have "\<forall>p \<in> fst ` set (fs_remove_tree b fs). \<not> prefix b p" by (auto simp: fs_remove_tree_def)
  moreover have "map_of (fs_remove_tree b fs) (a @ s) = map_of fs (a @ s)" for s
    using disj [of "a @ s"] by simp
  ultimately show ?thesis unfolding fs_replace_def by simp
qed

lemma lookup_mkdirs:
  "map_of (fs_mkdirs p fs) q =
    (if map_of fs q = None \<and> q \<noteq> [] \<and> prefix q p then Some Dir else map_of fs q)"
proof -
  have "map_of (foldl (\<lambda>fs q. if fs_exists fs q then fs else AList.update q Dir fs) fs qs) q =
    (if map_of fs q = None \<and> q \<in> set qs then Some Dir else map_of fs q)" for qs
  proof (induction qs arbitrary: fs)
    case (Cons r qs)
    have "fs_exists fs r \<longleftrightarrow> map_of fs r \<noteq> None" by (simp add: fs_exists_def)
    then show ?case by (cases "map_of fs r") (auto simp: Cons.IH update_conv')
  qed simp
  moreover have "q \<in> set (filter (\<lambda>q. q \<noteq> []) (prefixes p)) \<longleftrightarrow> q \<noteq> [] \<and> prefix q p"
    by (auto simp: set_prefixes_eq)
  ultimately show ?thesis by (simp add: fs_mkdirs_def)
qed

section \<open>Effects\<close>

text \<open>
  \<open>past\<close> holds every file system that was current before \<open>present\<close>. A \<open>Fault k\<close> makes the next
  operation fail; an operation that is not atomic has then done its first \<open>k\<close> units of work.
\<close>

datatype fault = NoFault | Fault nat

record world =
  present :: fs
  past :: "fs list"
  faults :: "fault list"

type_synonym 'a io = "world \<Rightarrow> 'a result \<times> world"

definition states :: "world \<Rightarrow> fs list" where
  "states w = present w # past w"

definition change :: "fs \<Rightarrow> world \<Rightarrow> world" where
  "change fs w = w\<lparr>present := fs, past := states w\<rparr>"

text \<open>A world at the beginning of a run.\<close>

definition start :: "fs \<Rightarrow> fault list \<Rightarrow> world" where
  "start fs fl = \<lparr>present = fs, past = [], faults = fl\<rparr>"

definition io_return :: "'a \<Rightarrow> 'a io" where
  "io_return x w = (Ok x, w)"

definition io_raise :: "py_error \<Rightarrow> 'a io" where
  "io_raise e w = (Raise e, w)"

definition io_bind :: "'a io \<Rightarrow> ('a \<Rightarrow> 'b io) \<Rightarrow> 'b io" where
  "io_bind m f w = (case m w of (Ok x, w') \<Rightarrow> f x w' | (Raise e, w') \<Rightarrow> (Raise e, w'))"

definition io_catch :: "'a io \<Rightarrow> (py_error \<Rightarrow> 'a io) \<Rightarrow> 'a io" where
  "io_catch m h w = (case m w of (Ok x, w') \<Rightarrow> (Ok x, w') | (Raise e, w') \<Rightarrow> h e w')"

definition io_seq :: "unit io \<Rightarrow> 'b io \<Rightarrow> 'b io" where
  "io_seq m n = io_bind m (\<lambda>_. n)"

text \<open>\<^verbatim>\<open>try: m finally: n\<close>\<close>

definition io_finally :: "'a io \<Rightarrow> unit io \<Rightarrow> 'a io" where
  "io_finally m n = io_bind (io_catch m (\<lambda>e. io_seq n (io_raise e))) (\<lambda>x. io_seq n (io_return x))"

text \<open>\<^verbatim>\<open>try: m except OSError: pass\<close>\<close>

definition is_os_error :: "py_error \<Rightarrow> bool" where
  "is_os_error e = (case e of OSError _ \<Rightarrow> True | FileNotFoundError _ \<Rightarrow> True | _ \<Rightarrow> False)"

definition io_ignore :: "unit io \<Rightarrow> unit io" where
  "io_ignore m = io_catch m (\<lambda>e. if is_os_error e then io_return () else io_raise e)"

primrec io_for :: "('a \<Rightarrow> unit io) \<Rightarrow> 'a list \<Rightarrow> unit io" where
  "io_for f [] = io_return ()"
| "io_for f (x # xs) = io_seq (f x) (io_for f xs)"

primrec io_map :: "('a \<Rightarrow> 'b io) \<Rightarrow> 'a list \<Rightarrow> 'b list io" where
  "io_map f [] = io_return []"
| "io_map f (x # xs) = io_bind (f x) (\<lambda>y. io_bind (io_map f xs) (\<lambda>ys. io_return (y # ys)))"

definition fs_op :: "(nat \<Rightarrow> fs \<Rightarrow> fs) \<Rightarrow> (fs \<Rightarrow> ('a \<times> fs) result) \<Rightarrow> 'a io" where
  "fs_op torn f w =
     (case faults w of
        Fault k # rest \<Rightarrow> (Raise (OSError ''fault''), change (torn k (present w)) (w\<lparr>faults := rest\<rparr>))
      | fs \<Rightarrow>
          (case f (present w) of
             Raise e \<Rightarrow> (Raise e, w\<lparr>faults := tl fs\<rparr>)
           | Ok (x, fs') \<Rightarrow> (Ok x, change fs' (w\<lparr>faults := tl fs\<rparr>))))"

text \<open>What a program asks of the present file system without a call that may fail.\<close>

definition io_ask :: "(fs \<Rightarrow> 'a) \<Rightarrow> 'a io" where
  "io_ask f w = (Ok (f (present w)), w)"

abbreviation atomic :: "nat \<Rightarrow> fs \<Rightarrow> fs" where
  "atomic \<equiv> (\<lambda>_ fs. fs)"

definition parent_ok :: "fs \<Rightarrow> path \<Rightarrow> bool" where
  "parent_ok fs p \<longleftrightarrow> butlast p = [] \<or> fs_is_dir fs (butlast p)"

definition io_read :: "path \<Rightarrow> string io" where
  "io_read p = fs_op atomic (\<lambda>fs. rbind (fs_read fs p) (\<lambda>b. Ok (b, fs)))"

definition io_write :: "path \<Rightarrow> string \<Rightarrow> unit io" where
  "io_write p b = fs_op
     (\<lambda>k fs. if parent_ok fs p \<and> \<not> fs_is_dir fs p then fs_write p (take k b) fs else fs)
     (\<lambda>fs. if \<not> parent_ok fs p then Raise (FileNotFoundError ''open'')
        else if fs_is_dir fs p then Raise (OSError ''is a directory'')
        else Ok ((), fs_write p b fs))"

text \<open>One \<^verbatim>\<open>write\<close> to a file opened for appending, created when it does not exist.\<close>

definition file_text :: "fs \<Rightarrow> path \<Rightarrow> string" where
  "file_text fs p = (case map_of fs p of Some (File b) \<Rightarrow> b | _ \<Rightarrow> [])"

definition io_append :: "path \<Rightarrow> string \<Rightarrow> unit io" where
  "io_append p b = fs_op
     (\<lambda>k fs. if parent_ok fs p \<and> \<not> fs_is_dir fs p then fs_write p (file_text fs p @ take k b) fs else fs)
     (\<lambda>fs. if \<not> parent_ok fs p then Raise (FileNotFoundError ''open'')
        else if fs_is_dir fs p then Raise (OSError ''is a directory'')
        else Ok ((), fs_write p (file_text fs p @ b) fs))"

text \<open>\<^verbatim>\<open>mkdir(parents=True, exist_ok=True)\<close>\<close>

definition io_mkdirs :: "path \<Rightarrow> unit io" where
  "io_mkdirs p = fs_op (\<lambda>k fs. fs_mkdirs (take k p) fs)
     (\<lambda>fs. if list_ex (\<lambda>q. fs_exists fs q \<and> \<not> fs_is_dir fs q) (prefixes p)
        then Raise (OSError ''file exists'') else Ok ((), fs_mkdirs p fs))"

definition io_unlink :: "path \<Rightarrow> unit io" where
  "io_unlink p = fs_op atomic
     (\<lambda>fs. if \<not> fs_exists fs p then Raise (FileNotFoundError ''unlink'')
        else if fs_is_dir fs p then Raise (OSError ''is a directory'') else Ok ((), fs_remove p fs))"

definition io_rmdir :: "path \<Rightarrow> unit io" where
  "io_rmdir p = fs_op atomic
     (\<lambda>fs. if \<not> fs_is_dir fs p \<or> \<not> fs_empty_dir fs p then Raise (OSError ''rmdir'') else Ok ((), fs_remove p fs))"

text \<open>\<^verbatim>\<open>shutil.rmtree(p, ignore_errors=True)\<close> may leave some of the tree behind.\<close>

definition io_rmtree :: "path \<Rightarrow> unit io" where
  "io_rmtree p = io_ignore (fs_op (\<lambda>k fs. fs_remove_tree p (take k fs) @ drop k fs)
     (\<lambda>fs. Ok ((), fs_remove_tree p fs)))"

text \<open>
  \<^verbatim>\<open>os.replace\<close> of a directory needs a free or empty destination, of a file one that is no directory.
\<close>

definition io_replace :: "path \<Rightarrow> path \<Rightarrow> unit io" where
  "io_replace a b = fs_op atomic
     (\<lambda>fs. if \<not> fs_exists fs a then Raise (FileNotFoundError ''replace'')
        else if fs_is_dir fs a \<and> fs_exists fs b \<and> \<not> (fs_is_dir fs b \<and> fs_empty_dir fs b)
        then Raise (OSError ''directory not empty'')
        else if \<not> fs_is_dir fs a \<and> fs_is_dir fs b then Raise (OSError ''is a directory'')
        else Ok ((), fs_replace a b fs))"

text \<open>A call of the operating system that changes no file: \<^verbatim>\<open>flock\<close>, \<^verbatim>\<open>fsync\<close>.\<close>

definition io_call :: "unit io" where
  "io_call = fs_op atomic (\<lambda>fs. Ok ((), fs))"

section \<open>Triples\<close>

text \<open>
  \<open>triple P m Q E\<close>: from a world with \<open>P\<close>, \<open>m\<close> returns a value and a world with \<open>Q\<close> or raises in one
  with \<open>E\<close>. The assertions have the form \<open>holds c A B\<close>: every file system so far has \<open>A\<close>, the present
  one \<open>B\<close>, and no fault is to come when \<open>c\<close>; proving \<open>E\<close> as \<open>\<not> c\<close> then shows that a run without
  faults succeeds.
\<close>

definition triple :: "(world \<Rightarrow> bool) \<Rightarrow> 'a io \<Rightarrow> ('a \<Rightarrow> world \<Rightarrow> bool) \<Rightarrow> (world \<Rightarrow> bool) \<Rightarrow> bool" where
  "triple P m Q E \<longleftrightarrow>
     (\<forall>w. P w \<longrightarrow> (case m w of (Ok x, w') \<Rightarrow> Q x w' | (Raise e, w') \<Rightarrow> E w'))"

definition holds :: "bool \<Rightarrow> (fs \<Rightarrow> bool) \<Rightarrow> (fs \<Rightarrow> bool) \<Rightarrow> world \<Rightarrow> bool" where
  "holds c A B w \<longleftrightarrow> (c \<longrightarrow> faults w = []) \<and> list_all A (states w) \<and> B (present w)"

lemma tripleD:
  "triple P m Q E \<Longrightarrow> P w \<Longrightarrow> m w = (Ok x, w') \<Longrightarrow> Q x w'"
  "triple P m Q E \<Longrightarrow> P w \<Longrightarrow> m w = (Raise e, w') \<Longrightarrow> E w'"
  by (auto simp: triple_def split: prod.splits result.splits)

lemma triple_conseq:
  assumes "triple P' m Q' E'" "\<And>w. P w \<Longrightarrow> P' w" "\<And>x w. Q' x w \<Longrightarrow> Q x w" "\<And>w. E' w \<Longrightarrow> E w"
  shows "triple P m Q E"
  using assms unfolding triple_def by (fastforce split: prod.splits result.splits)

lemma triple_bind:
  assumes "triple P m R E" "\<And>x. triple (R x) (f x) Q E"
  shows "triple P (io_bind m f) Q E"
  using assms unfolding triple_def io_bind_def by (fastforce split: prod.splits result.splits)

lemma triple_seq:
  assumes "triple P m (\<lambda>_. R) E" "triple R n Q E"
  shows "triple P (io_seq m n) Q E"
  unfolding io_seq_def by (rule triple_bind [OF assms(1)]) (rule assms(2))

lemma triple_catch:
  assumes "triple P m Q R" "\<And>e. triple R (h e) Q E"
  shows "triple P (io_catch m h) Q E"
  using assms unfolding triple_def io_catch_def by (fastforce split: prod.splits result.splits)

lemma triple_return: "(\<And>w. P w \<Longrightarrow> Q x w) \<Longrightarrow> triple P (io_return x) Q E"
  by (simp add: triple_def io_return_def)

lemma triple_raise: "(\<And>w. P w \<Longrightarrow> E w) \<Longrightarrow> triple P (io_raise e) Q E"
  by (simp add: triple_def io_raise_def)

lemma triple_ask:
  assumes "\<And>w. P w \<Longrightarrow> Q (f (present w)) w"
  shows "triple P (io_ask f) Q E"
  using assms by (simp add: triple_def io_ask_def)

lemma triple_for:
  assumes "\<And>x. x \<in> set xs \<Longrightarrow> triple P (f x) (\<lambda>_. P) E"
  shows "triple P (io_for f xs) (\<lambda>_. P) E"
  using assms by (induction xs) (auto intro: triple_return triple_seq)

lemma triple_if:
  "\<lbrakk>b \<Longrightarrow> triple P m Q E; \<not> b \<Longrightarrow> triple P n Q E\<rbrakk> \<Longrightarrow> triple P (if b then m else n) Q E"
  by simp

lemma triple_finally:
  assumes "triple P m R S" "triple S n (\<lambda>_. E) E" "\<And>x. triple (R x) n (\<lambda>_. Q x) E"
  shows "triple P (io_finally m n) Q E"
  unfolding io_finally_def
proof (rule triple_bind)
  show "triple P (io_catch m (\<lambda>e. io_seq n (io_raise e))) R E"
    by (rule triple_catch [OF assms(1)]) (rule triple_seq [OF assms(2)], rule triple_raise)
  show "triple (R x) (io_seq n (io_return x)) Q E" for x
    by (rule triple_seq [OF assms(3)]) (rule triple_return)
qed

lemma triple_ignore:
  assumes "triple P m (\<lambda>_. Q) Q"
  shows "triple P (io_ignore m) (\<lambda>_. Q) Q"
  unfolding io_ignore_def by (rule triple_catch [OF assms]) (auto intro: triple_if triple_return triple_raise)

text \<open>Loops: the assertion may speak of the elements done so far.\<close>

lemma triple_for_done:
  assumes "\<And>ys x zs. xs = ys @ x # zs \<Longrightarrow> triple (I ys) (f x) (\<lambda>_. I (ys @ [x])) E"
  shows "triple (I []) (io_for f xs) (\<lambda>_. I xs) E"
proof -
  have "triple (I ys) (io_for f zs) (\<lambda>_. I xs) E" if "xs = ys @ zs" for ys zs
    using that
  proof (induction zs arbitrary: ys)
    case Nil
    then show ?case by (auto intro: triple_return)
  next
    case (Cons z zs)
    then have "triple (I (ys @ [z])) (io_for f zs) (\<lambda>_. I xs) E" by simp
    with assms [of ys z zs] Cons.prems show ?case by (auto intro: triple_seq)
  qed
  from this [of "[]" xs] show ?thesis by simp
qed

lemma triple_pure: "(b \<Longrightarrow> triple P m Q E) \<Longrightarrow> triple (\<lambda>w. b \<and> P w) m Q E"
  by (auto simp: triple_def)

lemma triple_bind_pure:
  assumes "triple P m (\<lambda>x w. x = v \<and> R w) E" "triple R (f v) Q E"
  shows "triple P (io_bind m f) Q E"
  by (rule triple_bind [OF assms(1)]) (use assms(2) in \<open>auto simp: triple_def\<close>)

lemma triple_map_pure:
  assumes "\<And>x. x \<in> set xs \<Longrightarrow> triple P (f x) (\<lambda>y w. y = g x \<and> P w) E"
  shows "triple P (io_map f xs) (\<lambda>ys w. ys = map g xs \<and> P w) E"
  using assms
proof (induction xs)
  case Nil
  show ?case by (auto intro: triple_return)
next
  case (Cons x xs)
  show ?case unfolding io_map.simps
  proof (rule triple_bind)
    show "triple P (f x) (\<lambda>y w. y = g x \<and> P w) E" using Cons.prems by simp
    fix y
    show "triple (\<lambda>w. y = g x \<and> P w) (io_bind (io_map f xs) (\<lambda>ys. io_return (y # ys)))
      (\<lambda>ys w. ys = map g (x # xs) \<and> P w) E"
    proof (rule triple_pure, rule triple_bind)
      show "triple P (io_map f xs) (\<lambda>ys w. ys = map g xs \<and> P w) E" using Cons by simp
      show "triple (\<lambda>w. ys = map g xs \<and> P w) (io_return (y # ys)) (\<lambda>ys w. ys = map g (x # xs) \<and> P w) E"
        if "y = g x" for ys using that by (auto intro: triple_return)
    qed
  qed
qed

lemma triple_ask_if:
  assumes "\<And>x. triple P (f x) Q E"
  shows "triple P (io_bind (io_ask g) f) Q E"
  by (rule triple_bind [where R = "\<lambda>_. P"]) (auto intro: triple_ask assms)

lemma holds_change:
  "holds c A B (change fs w) \<longleftrightarrow> (c \<longrightarrow> faults w = []) \<and> A fs \<and> list_all A (states w) \<and> B fs"
  by (auto simp: holds_def change_def states_def)

text \<open>One operation: what holds after its fault, after its success and after its refusal.\<close>

lemma triple_op:
  assumes "\<And>fs k. \<lbrakk>\<not> c; A fs; B fs\<rbrakk> \<Longrightarrow> A (torn k fs) \<and> E (torn k fs)"
    and "\<And>fs x fs'. \<lbrakk>A fs; B fs; f fs = Ok (x, fs')\<rbrakk> \<Longrightarrow> A fs' \<and> Q x fs'"
    and "\<And>fs e. \<lbrakk>A fs; B fs; f fs = Raise e\<rbrakk> \<Longrightarrow> \<not> c \<and> E fs"
  shows "triple (holds c A B) (fs_op torn f) (\<lambda>x. holds c A (Q x)) (\<lambda>w. \<not> c \<and> holds c A E w)"
  unfolding triple_def
proof (intro allI impI)
  fix w assume w: "holds c A B w"
  then have ab: "A (present w)" "B (present w)" "list_all A (states w)" "c \<longrightarrow> faults w = []"
    by (auto simp: holds_def states_def)
  have upd: "holds c' A C (w\<lparr>faults := fl\<rparr>) \<longleftrightarrow> (c' \<longrightarrow> fl = []) \<and> C (present w)" for C fl c'
    using ab by (auto simp: holds_def states_def)
  have upd': "states (w\<lparr>faults := fl\<rparr>) = states w" for fl by (simp add: states_def)
  show "case fs_op torn f w of (Ok x, w') \<Rightarrow> holds c A (Q x) w' | (Raise e, w') \<Rightarrow> \<not> c \<and> holds c A E w'"
    using ab assms(1) [of "present w"] assms(2) [of "present w"] assms(3) [of "present w"]
    by (auto simp: fs_op_def holds_change upd upd' split: list.splits fault.splits result.splits)
qed

text \<open>
  The rules for the operations, in terms of assertions that are stable under them. A computation that
  stops at an operation leaves a file system with \<open>E\<close>.
\<close>

lemma triple_read:
  assumes "\<And>fs. c \<Longrightarrow> A fs \<Longrightarrow> B fs \<Longrightarrow> is_ok (fs_read fs p)" "\<And>fs. B fs \<Longrightarrow> E fs"
  shows "triple (holds c A B) (io_read p) (\<lambda>b. holds c A (\<lambda>fs. B fs \<and> fs_read fs p = Ok b)) (\<lambda>w. \<not> c \<and> holds c A E w)"
  unfolding io_read_def
proof (rule triple_op)
  show "\<not> c \<and> E fs" if "A fs" "B fs" "rbind (fs_read fs p) (\<lambda>b. Ok (b, fs)) = Raise e" for fs e
    using that assms(1) [of fs] assms(2) by (auto simp: rbind_Raise_iff)
qed (use assms(2) in \<open>auto simp: run_ok\<close>)

lemma triple_write:
  assumes "\<And>fs b'. A fs \<Longrightarrow> B fs \<Longrightarrow> parent_ok fs p \<Longrightarrow> \<not> fs_is_dir fs p \<Longrightarrow>
      A (fs_write p b' fs) \<and> E (fs_write p b' fs)"
    and "\<And>fs. A fs \<Longrightarrow> B fs \<Longrightarrow> parent_ok fs p \<Longrightarrow> \<not> fs_is_dir fs p \<Longrightarrow> Q (fs_write p b fs)"
    and "\<And>fs. A fs \<Longrightarrow> B fs \<Longrightarrow> E fs"
    and "\<And>fs. c \<Longrightarrow> A fs \<Longrightarrow> B fs \<Longrightarrow> parent_ok fs p \<and> \<not> fs_is_dir fs p"
  shows "triple (holds c A B) (io_write p b) (\<lambda>_. holds c A Q) (\<lambda>w. \<not> c \<and> holds c A E w)"
  unfolding io_write_def by (rule triple_op) (use assms in \<open>auto split: if_splits\<close>)

lemma triple_mkdirs:
  assumes "\<And>fs k. A fs \<Longrightarrow> B fs \<Longrightarrow> A (fs_mkdirs (take k p) fs) \<and> E (fs_mkdirs (take k p) fs)"
    and "\<And>fs. A fs \<Longrightarrow> B fs \<Longrightarrow> (\<forall>q. prefix q p \<longrightarrow> fs_exists fs q \<longrightarrow> fs_is_dir fs q) \<Longrightarrow> Q (fs_mkdirs p fs)"
    and "\<And>fs. A fs \<Longrightarrow> B fs \<Longrightarrow> E fs"
    and "\<And>fs q. c \<Longrightarrow> A fs \<Longrightarrow> B fs \<Longrightarrow> prefix q p \<Longrightarrow> fs_exists fs q \<Longrightarrow> fs_is_dir fs q"
  shows "triple (holds c A B) (io_mkdirs p) (\<lambda>_. holds c A Q) (\<lambda>w. \<not> c \<and> holds c A E w)"
  unfolding io_mkdirs_def
  by (rule triple_op)
    (use assms(1) [of _ "length p"] assms in \<open>auto simp: list_ex_iff set_prefixes_eq split: if_splits\<close>)

lemma triple_replace:
  assumes "\<And>fs. A fs \<Longrightarrow> B fs \<Longrightarrow> fs_exists fs a \<Longrightarrow>
      \<not> (fs_is_dir fs a \<and> fs_exists fs b \<and> \<not> (fs_is_dir fs b \<and> fs_empty_dir fs b)) \<Longrightarrow>
      A (fs_replace a b fs) \<and> Q (fs_replace a b fs)"
    and "\<And>fs. A fs \<Longrightarrow> B fs \<Longrightarrow> E fs"
    and "\<And>fs. c \<Longrightarrow> A fs \<Longrightarrow> B fs \<Longrightarrow> fs_exists fs a \<and> (fs_is_dir fs a \<longrightarrow> \<not> fs_exists fs b) \<and>
      (\<not> fs_is_dir fs a \<longrightarrow> \<not> fs_is_dir fs b)"
  shows "triple (holds c A B) (io_replace a b) (\<lambda>_. holds c A Q) (\<lambda>w. \<not> c \<and> holds c A E w)"
  unfolding io_replace_def by (rule triple_op) (use assms in \<open>auto split: if_splits\<close>)

lemma triple_call: "triple (holds c A B) io_call (\<lambda>_. holds c A B) (\<lambda>w. \<not> c \<and> holds c A B w)"
  unfolding io_call_def by (rule triple_op) auto

text \<open>An operation whose \<^verbatim>\<open>OSError\<close> is ignored never raises.\<close>

lemma triple_ignore_op:
  assumes "\<And>fs k. A fs \<Longrightarrow> B fs \<Longrightarrow> A (torn k fs) \<and> B (torn k fs)"
    and "\<And>fs fs'. A fs \<Longrightarrow> B fs \<Longrightarrow> f fs = Ok ((), fs') \<Longrightarrow> A fs' \<and> B fs'"
    and "\<And>fs e. f fs = Raise e \<Longrightarrow> is_os_error e"
  shows "triple (holds c A B) (io_ignore (fs_op torn f)) (\<lambda>_. holds c A B) (\<lambda>_. False)"
  unfolding triple_def
proof (intro allI impI)
  fix w assume w: "holds c A B w"
  then have ab: "A (present w)" "B (present w)" "list_all A (states w)" "c \<longrightarrow> faults w = []"
    by (auto simp: holds_def states_def)
  have upd: "holds c' A C (w\<lparr>faults := fl\<rparr>) \<longleftrightarrow> (c' \<longrightarrow> fl = []) \<and> C (present w)" for C fl c'
    using ab by (auto simp: holds_def states_def)
  have upd': "states (w\<lparr>faults := fl\<rparr>) = states w" for fl by (simp add: states_def)
  have os: "is_os_error (OSError s)" for s by (simp add: is_os_error_def)
  show "case io_ignore (fs_op torn f) w of (Ok x, w') \<Rightarrow> holds c A B w' | (Raise e, w') \<Rightarrow> False"
    using ab assms(1) [of "present w"] assms(2) [of "present w"] assms(3) [of "present w"]
    by (auto simp: io_ignore_def io_catch_def io_return_def fs_op_def holds_change upd upd' os
      split: list.splits fault.splits result.splits)
qed

lemma triple_unlink:
  assumes "\<And>fs. A fs \<Longrightarrow> B fs \<Longrightarrow> A (fs_remove p fs) \<and> B (fs_remove p fs)"
  shows "triple (holds c A B) (io_ignore (io_unlink p)) (\<lambda>_. holds c A B) (\<lambda>_. False)"
  unfolding io_unlink_def
  by (rule triple_ignore_op) (use assms in \<open>auto simp: is_os_error_def split: if_splits\<close>)

lemma triple_rmdir:
  assumes "\<And>fs. A fs \<Longrightarrow> B fs \<Longrightarrow> fs_is_dir fs p \<Longrightarrow> fs_empty_dir fs p \<Longrightarrow> A (fs_remove p fs) \<and> B (fs_remove p fs)"
  shows "triple (holds c A B) (io_ignore (io_rmdir p)) (\<lambda>_. holds c A B) (\<lambda>_. False)"
  unfolding io_rmdir_def
  by (rule triple_ignore_op) (use assms in \<open>auto simp: is_os_error_def split: if_splits\<close>)

lemma triple_rmtree:
  assumes "\<And>fs k. A fs \<Longrightarrow> B fs \<Longrightarrow>
      A (fs_remove_tree p (take k fs) @ drop k fs) \<and> B (fs_remove_tree p (take k fs) @ drop k fs)"
    and "\<And>fs. A fs \<Longrightarrow> B fs \<Longrightarrow> A (fs_remove_tree p fs) \<and> B (fs_remove_tree p fs)"
  shows "triple (holds c A B) (io_rmtree p) (\<lambda>_. holds c A B) (\<lambda>_. False)"
  unfolding io_rmtree_def by (rule triple_ignore_op) (use assms in auto)

lemma lookup_remove_some: "\<not> prefix p q \<Longrightarrow> map_of (fs_remove_tree p (take k fs) @ drop k fs) q = map_of fs q"
proof -
  assume q: "\<not> prefix p q"
  have "map_of fs = map_of (take k fs @ drop k fs)" by simp
  then show ?thesis using q by (simp only: map_of_append map_add_def lookup_remove_tree if_False)
qed

text \<open>
  A phase that only reads and checks: its first operation may fail, and so may any of its checks.
\<close>

definition io_of_result :: "'a result \<Rightarrow> 'a io" where
  "io_of_result r = (case r of Ok x \<Rightarrow> io_return x | Raise e \<Rightarrow> io_raise e)"

definition io_check :: "(fs \<Rightarrow> 'a result) \<Rightarrow> 'a io" where
  "io_check f = io_seq io_call (io_bind (io_ask f) io_of_result)"

section \<open>Runs that return\<close>

text \<open>
  \<open>yields P m Q\<close>: a run of \<open>m\<close> that returns, from a file system with \<open>P\<close>, ends in one with \<open>Q\<close>, whatever
  operations were refused or failed and were ignored on the way.
\<close>

definition yields :: "(fs \<Rightarrow> bool) \<Rightarrow> 'a io \<Rightarrow> ('a \<Rightarrow> fs \<Rightarrow> bool) \<Rightarrow> bool" where
  "yields P m Q \<longleftrightarrow> (\<forall>w x w'. P (present w) \<longrightarrow> m w = (Ok x, w') \<longrightarrow> Q x (present w'))"

lemma yieldsD: "yields P m Q \<Longrightarrow> P (present w) \<Longrightarrow> m w = (Ok x, w') \<Longrightarrow> Q x (present w')"
  by (simp add: yields_def)

lemma yields_conseq: "yields P' m Q' \<Longrightarrow> (\<And>fs. P fs \<Longrightarrow> P' fs) \<Longrightarrow> (\<And>x fs. Q' x fs \<Longrightarrow> Q x fs) \<Longrightarrow> yields P m Q"
  unfolding yields_def by blast

lemma yields_bind: "yields P m R \<Longrightarrow> (\<And>x. yields (R x) (f x) Q) \<Longrightarrow> yields P (io_bind m f) Q"
  unfolding yields_def io_bind_def by (fastforce split: prod.splits result.splits)

lemma yields_seq: "yields P m (\<lambda>_. R) \<Longrightarrow> yields R n Q \<Longrightarrow> yields P (io_seq m n) Q"
  unfolding io_seq_def by (rule yields_bind)

lemma yields_return: "(\<And>fs. P fs \<Longrightarrow> Q x fs) \<Longrightarrow> yields P (io_return x) Q"
  by (simp add: yields_def io_return_def)

lemma yields_raise: "yields P (io_raise e) Q"
  by (simp add: yields_def io_raise_def)

lemma yields_result: "(\<And>fs x. P fs \<Longrightarrow> r = Ok x \<Longrightarrow> Q x fs) \<Longrightarrow> yields P (io_of_result r) Q"
  by (cases r) (auto simp: io_of_result_def yields_return yields_raise)

lemma yields_ask: "(\<And>fs. P fs \<Longrightarrow> Q (f fs) fs) \<Longrightarrow> yields P (io_ask f) Q"
  by (simp add: yields_def io_ask_def)

lemma yields_op:
  assumes "\<And>fs x fs'. P fs \<Longrightarrow> f fs = Ok (x, fs') \<Longrightarrow> Q x fs'"
  shows "yields P (fs_op torn f) Q"
  unfolding yields_def
proof (intro allI impI)
  fix w x w' assume "P (present w)" "fs_op torn f w = (Ok x, w')"
  then show "Q x (present w')"
    using assms [of "present w"]
    by (auto simp: fs_op_def change_def split: list.splits fault.splits result.splits)
qed

lemma yields_check: "(\<And>fs x. P fs \<Longrightarrow> f fs = Ok x \<Longrightarrow> Q x fs) \<Longrightarrow> yields P (io_check f) Q"
  unfolding io_check_def io_call_def
  by (rule yields_seq [OF yields_op [where Q = "\<lambda>_. P"]], simp,
    rule yields_bind [OF yields_ask [where Q = "\<lambda>r fs. P fs \<and> r = f fs"]], simp)
    (rule yields_result, auto)

lemma yields_read: "(\<And>fs b. P fs \<Longrightarrow> map_of fs p = Some (File b) \<Longrightarrow> Q b fs) \<Longrightarrow> yields P (io_read p) Q"
  unfolding io_read_def by (rule yields_op) (auto simp: run_ok)

lemma yields_write: "(\<And>fs. P fs \<Longrightarrow> Q () (fs_write p b fs)) \<Longrightarrow> yields P (io_write p b) Q"
  unfolding io_write_def by (rule yields_op) (auto split: if_splits)

lemma yields_mkdirs: "(\<And>fs. P fs \<Longrightarrow> Q () (fs_mkdirs p fs)) \<Longrightarrow> yields P (io_mkdirs p) Q"
  unfolding io_mkdirs_def by (rule yields_op) (auto split: if_splits)

lemma yields_rmtree:
  assumes "\<And>fs fs'. P fs \<Longrightarrow> (\<And>q. \<not> prefix p q \<Longrightarrow> map_of fs' q = map_of fs q) \<Longrightarrow> Q () fs'"
  shows "yields P (io_rmtree p) Q"
  unfolding yields_def
proof (intro allI impI)
  fix w x w' assume p: "P (present w)" and run: "io_rmtree p w = (Ok x, w')"
  have "map_of (present w') q = map_of (present w) q" if "\<not> prefix p q" for q
    using run that lookup_remove_some [OF that]
    by (auto simp: io_rmtree_def io_ignore_def io_catch_def fs_op_def change_def io_return_def io_raise_def
      is_os_error_def split: list.splits fault.splits result.splits)
  then show "Q x (present w')" using assms [OF p, of "present w'"] by simp
qed

text \<open>A map over a list: the assertion may speak of the elements done so far and of their results.\<close>

lemma yields_map:
  assumes "\<And>ys x zs. xs = ys @ x # zs \<Longrightarrow> yields (I ys) (f x) (\<lambda>y fs. R x y \<and> I (ys @ [x]) fs)"
  shows "yields (I []) (io_map f xs) (\<lambda>rs fs. list_all2 R xs rs \<and> I xs fs)"
proof -
  have "yields (I ys) (io_map f zs) (\<lambda>rs fs. list_all2 R zs rs \<and> I xs fs)" if "xs = ys @ zs" for ys zs
    using that
  proof (induction zs arbitrary: ys)
    case Nil
    then show ?case by (auto intro: yields_return)
  next
    case (Cons z zs)
    then have "yields (I (ys @ [z])) (io_map f zs) (\<lambda>rs fs. list_all2 R zs rs \<and> I xs fs)" by simp
    moreover have "yields (I ys) (f z) (\<lambda>y fs. R z y \<and> I (ys @ [z]) fs)" using assms Cons.prems by blast
    ultimately show ?case
      unfolding io_map.simps yields_def io_bind_def io_return_def
      by (fastforce split: prod.splits result.splits)
  qed
  from this [of "[]" xs] show ?thesis by simp
qed

end
