(* ===== verification/Sha256.thy ===== *)
theory Sha256
  imports Py_Text "HOL-Library.Word"
begin

text \<open>
  \<^verbatim>\<open>hashlib.sha256(data).hexdigest()\<close>, bit for bit on 32-bit words, over byte strings. The program
  binds every artifact by this digest: configurations, media sets, releases, evidence messages.
  What the proofs use of it is its shape: 64 characters, all ASCII.
\<close>

unbundle bit_operations_syntax

text \<open>The first 32 bits of the fractional parts of the square roots of the first eight primes, and of the cube roots of the first 64.\<close>

definition sha_init :: "32 word list" where
  "sha_init = [
   1779033703, 3144134277, 1013904242, 2773480762,
   1359893119, 2600822924, 528734635, 1541459225]"

definition sha_const :: "32 word list" where
  "sha_const = [
   1116352408, 1899447441, 3049323471, 3921009573,
   961987163, 1508970993, 2453635748, 2870763221,
   3624381080, 310598401, 607225278, 1426881987,
   1925078388, 2162078206, 2614888103, 3248222580,
   3835390401, 4022224774, 264347078, 604807628,
   770255983, 1249150122, 1555081692, 1996064986,
   2554220882, 2821834349, 2952996808, 3210313671,
   3336571891, 3584528711, 113926993, 338241895,
   666307205, 773529912, 1294757372, 1396182291,
   1695183700, 1986661051, 2177026350, 2456956037,
   2730485921, 2820302411, 3259730800, 3345764771,
   3516065817, 3600352804, 4094571909, 275423344,
   430227734, 506948616, 659060556, 883997877,
   958139571, 1322822218, 1537002063, 1747873779,
   1955562222, 2024104815, 2227730452, 2361852424,
   2428436474, 2756734187, 3204031479, 3329325298]"

definition rotr32 :: "nat \<Rightarrow> 32 word \<Rightarrow> 32 word" where
  "rotr32 n x = drop_bit n x OR push_bit (32 - n) x"

definition sha_ch :: "32 word \<Rightarrow> 32 word \<Rightarrow> 32 word \<Rightarrow> 32 word" where
  "sha_ch x y z = (x AND y) XOR (NOT x AND z)"

definition sha_maj :: "32 word \<Rightarrow> 32 word \<Rightarrow> 32 word \<Rightarrow> 32 word" where
  "sha_maj x y z = (x AND y) XOR (x AND z) XOR (y AND z)"

definition big_sigma0 :: "32 word \<Rightarrow> 32 word" where
  "big_sigma0 x = rotr32 2 x XOR rotr32 13 x XOR rotr32 22 x"

definition big_sigma1 :: "32 word \<Rightarrow> 32 word" where
  "big_sigma1 x = rotr32 6 x XOR rotr32 11 x XOR rotr32 25 x"

definition small_sigma0 :: "32 word \<Rightarrow> 32 word" where
  "small_sigma0 x = rotr32 7 x XOR rotr32 18 x XOR drop_bit 3 x"

definition small_sigma1 :: "32 word \<Rightarrow> 32 word" where
  "small_sigma1 x = rotr32 17 x XOR rotr32 19 x XOR drop_bit 10 x"

text \<open>Padding: a one bit, zeros up to 56 modulo 64, and the length in bits as eight bytes.\<close>

primrec bytes_be :: "nat \<Rightarrow> nat \<Rightarrow> string" where
  "bytes_be 0 n = []"
| "bytes_be (Suc k) n = bytes_be k (n div 256) @ [char_of (n mod 256)]"

definition sha_pad :: "string \<Rightarrow> string" where
  "sha_pad m =
     m @ [CHR 0x80] @ replicate ((119 - length m mod 64) mod 64) (CHR 0x00) @
     bytes_be 8 (8 * length m)"

definition word_of_bytes :: "string \<Rightarrow> 32 word" where
  "word_of_bytes bs = foldl (\<lambda>w b. 256 * w + of_nat (code b)) 0 bs"

fun words_of :: "string \<Rightarrow> 32 word list" where
  "words_of (a # b # c # d # rest) = word_of_bytes [a, b, c, d] # words_of rest"
| "words_of _ = []"

text \<open>The message schedule, newest word first, and one round of the compression.\<close>

primrec extend_schedule :: "nat \<Rightarrow> 32 word list \<Rightarrow> 32 word list" where
  "extend_schedule 0 ws = ws"
| "extend_schedule (Suc k) ws =
     extend_schedule k
       ((small_sigma1 (ws ! 1) + ws ! 6 + small_sigma0 (ws ! 14) + ws ! 15) # ws)"

fun sha_round :: "32 word list \<Rightarrow> 32 word \<times> 32 word \<Rightarrow> 32 word list" where
  "sha_round [a, b, c, d, e, f, g, h] (k, w) =
     (let t1 = h + big_sigma1 e + sha_ch e f g + k + w; t2 = big_sigma0 a + sha_maj a b c
      in [t1 + t2, a, b, c, d + t1, e, f, g])"
| "sha_round st _ = st"

definition sha_block :: "32 word list \<Rightarrow> 32 word list \<Rightarrow> 32 word list" where
  "sha_block st ws =
     map2 (+) st (foldl sha_round st (zip sha_const (rev (extend_schedule 48 (rev ws)))))"

primrec sha_blocks :: "nat \<Rightarrow> 32 word list \<Rightarrow> 32 word list \<Rightarrow> 32 word list" where
  "sha_blocks 0 st ws = st"
| "sha_blocks (Suc n) st ws = sha_blocks n (sha_block st (take 16 ws)) (drop 16 ws)"

definition hex_digit :: "nat \<Rightarrow> char" where
  "hex_digit d = (if d < 10 then char_of (48 + d) else char_of (87 + d))"

primrec hex_be :: "nat \<Rightarrow> nat \<Rightarrow> string" where
  "hex_be 0 n = []"
| "hex_be (Suc k) n = hex_be k (n div 16) @ [hex_digit (n mod 16)]"

definition sha256_hex :: "string \<Rightarrow> string" where
  "sha256_hex m =
     (let p = sha_pad m in
      concat (map (\<lambda>w. hex_be 8 (unat w)) (sha_blocks (length p div 64) sha_init (words_of p))))"

section \<open>The shape of a digest\<close>

lemma length_bytes_be [simp]: "length (bytes_be k n) = k"
  by (induction k arbitrary: n) auto

lemma length_hex_be [simp]: "length (hex_be k n) = k"
  by (induction k arbitrary: n) auto

text \<open>The padded message is a whole number of 64-byte blocks.\<close>

lemma sha_pad_blocks: "length (sha_pad m) mod 64 = 0"
proof -
  have "(n + 1 + (119 - n mod 64) mod 64 + 8) mod 64 = 0" for n :: nat
  proof -
    have "n mod 64 < 64" by simp
    moreover have "(n + 1 + (119 - n mod 64) mod 64 + 8) mod 64 =
      (n mod 64 + 1 + (119 - n mod 64) + 8) mod 64"
      by (metis (no_types, lifting) add.assoc mod_add_eq mod_add_left_eq mod_mod_trivial)
    ultimately show ?thesis by simp
  qed
  from this [of "length m"] show ?thesis by (simp add: sha_pad_def ac_simps)
qed

lemma length_sha_round: "length st = 8 \<Longrightarrow> length (sha_round st kw) = 8"
  by (induction st kw rule: sha_round.induct) (auto simp: Let_def)

lemma length_sha_block: "length st = 8 \<Longrightarrow> length (sha_block st ws) = 8"
proof -
  have "length (foldl sha_round st kws) = 8" if "length st = 8" for st kws
    using that by (induction kws arbitrary: st) (auto simp: length_sha_round)
  then show "length st = 8 \<Longrightarrow> length (sha_block st ws) = 8" by (simp add: sha_block_def)
qed

lemma length_sha_blocks: "length st = 8 \<Longrightarrow> length (sha_blocks n st ws) = 8"
  by (induction n arbitrary: st ws) (auto simp: length_sha_block)

text \<open>A digest is 64 characters long, so it is never empty.\<close>

lemma length_sha256 [simp]: "length (sha256_hex m) = 64"
proof -
  have "length (concat (map (\<lambda>w. hex_be 8 (unat w)) ws)) = 8 * length ws" for ws :: "32 word list"
    by (induction ws) auto
  moreover have "length sha_init = 8" by (simp add: sha_init_def)
  ultimately show ?thesis by (simp add: sha256_hex_def Let_def length_sha_blocks)
qed

lemma sha256_nonempty [simp]: "sha256_hex m \<noteq> []"
  by (metis length_sha256 list.size(3) zero_neq_numeral)

lemma hex_be_ascii: "is_ascii (hex_be k n)"
proof (induction k arbitrary: n)
  case (Suc k)
  have "n mod 16 < 16" by simp
  then have "87 + n mod 16 < 128" "48 + n mod 16 < 128" by linarith+
  then have "code (hex_digit (n mod 16)) < 128"
    by (simp add: hex_digit_def)
  with Suc show ?case by simp
qed simp

lemma sha256_ascii [simp]: "is_ascii (sha256_hex m)"
proof -
  have "is_ascii (concat (map (\<lambda>w. hex_be 8 (unat w)) ws))" for ws :: "32 word list"
    by (induction ws) (auto simp: hex_be_ascii)
  then show ?thesis by (simp add: sha256_hex_def Let_def)
qed

lemma hex_be_digits: "\<forall>c \<in> set (hex_be k n). is_digit c \<or> (97 \<le> code c \<and> code c \<le> 102)"
proof (induction k arbitrary: n)
  case (Suc k)
  have "n mod 16 < 16" by simp
  then have "is_digit (hex_digit (n mod 16)) \<or> (97 \<le> code (hex_digit (n mod 16)) \<and> code (hex_digit (n mod 16)) \<le> 102)"
    by (auto simp: hex_digit_def is_digit_def)
  with Suc show ?case by auto
qed simp

lemma sha256_digits: "\<forall>c \<in> set (sha256_hex m). is_digit c \<or> (97 \<le> code c \<and> code c \<le> 102)"
  using hex_be_digits by (fastforce simp: sha256_hex_def Let_def)

end
