(* ===== verification/Release_Resolve.thy ===== *)
theory Release_Resolve
  imports Py_Files Sha256
begin

text \<open>
  The read path of golden releases (\<^verbatim>\<open>resolve_current_release\<close> and \<^verbatim>\<open>load_current_golden_rows\<close> of
  \<^verbatim>\<open>src/evaluation/golden/builder.py\<close>) as a function of the file system. Values of the pointer and
  the manifest stay JSON values, compared with Python's equality. The lemmas give what an accepted
  release guarantees, and that the result depends on the files it reads only.
\<close>

section \<open>The pointer and its artifacts\<close>

definition candidate_artifacts :: "string list" where
  "candidate_artifacts =
    [''golden_1039.jsonl'', ''components@R.json'', ''assignment@R.json'', ''anti_leak_audit.json'',
     ''multi_hop_judgment.jsonl'', ''golden_manifest.json'']"

definition approved_artifacts :: "string list" where
  "approved_artifacts =
    [''golden_1039.jsonl'', ''components@R.json'', ''assignment@R.json'', ''anti_leak_audit.json'',
     ''multi_hop_judgment.jsonl'', ''multi_hop_audit.jsonl'', ''golden_manifest.json'']"

record release =
  r_release_id :: json
  r_release_dir :: path
  r_pointer_path :: path
  r_release_stage :: json
  r_phase2_accepted :: json
  r_candidate_release_id :: json
  r_gold_sha256 :: json
  r_manifest_sha256 :: json
  r_row_count :: json
  r_published_at :: json
  r_artifacts :: "(string \<times> path) list"
  r_manifest :: pyobj
  r_pointer_data :: pyobj

text \<open>\<^verbatim>\<open>name not in artifacts\<close>, then \<^verbatim>\<open>artifacts[name]\<close>, on whatever value the pointer holds there.\<close>

definition artifact_entry :: "json \<Rightarrow> string \<Rightarrow> json result" where
  "artifact_entry artifacts name =
     (case artifacts of
        JObj fs \<Rightarrow> (case map_of fs name of None \<Rightarrow> gate_error ''missing artifact entry'' | Some v \<Rightarrow> Ok v)
      | JStr s \<Rightarrow> if contains s name then Raise (TypeError ''string indices'') else gate_error ''missing artifact entry''
      | JArr xs \<Rightarrow> if JStr name \<in> set xs then Raise (TypeError ''list indices'') else gate_error ''missing artifact entry''
      | _ \<Rightarrow> Raise (TypeError ''not iterable''))"

definition check_artifact :: "fs \<Rightarrow> path \<Rightarrow> json \<Rightarrow> string \<Rightarrow> (string \<times> path) result" where
  "check_artifact fs rel_dir artifacts name =
     rbind (artifact_entry artifacts name) (\<lambda>entry.
     rbind (obj_fields entry) (\<lambda>art_info.
       if \<not> truthy (jget art_info ''sha256'') then gate_error ''missing sha256 checksum''
       else rbind (str_of (dict_get art_info ''path'' (JStr name))) (\<lambda>rel_path.
         let art_file = path_join rel_dir rel_path in
         if \<not> fs_exists fs art_file then gate_error ''artifact missing on disk''
         else rbind (fs_read fs art_file) (\<lambda>bytes.
           if py_eq (JStr (sha256_hex bytes)) (jget art_info ''sha256'') then Ok (name, art_file)
           else gate_error ''checksum mismatch''))))"

definition artifact_sha :: "json \<Rightarrow> string \<Rightarrow> json result" where
  "artifact_sha artifacts name =
     rbind (artifact_entry artifacts name) (\<lambda>entry. rbind (obj_fields entry) (\<lambda>art_info. jitem art_info ''sha256''))"

definition read_pointer :: "fs \<Rightarrow> path \<Rightarrow> pyobj result" where
  "read_pointer fs current_file =
     (case rbind (fs_read_text fs current_file) loads of
        Raise _ \<Rightarrow> gate_error ''corrupt CURRENT''
      | Ok v \<Rightarrow> rbind (obj_fields v) (\<lambda>current_data.
          if list_all (\<lambda>k. map_of current_data k \<noteq> None)
            [''format_version'', ''release_id'', ''release_dir'', ''gold_sha256'', ''manifest_sha256'', ''artifacts'']
          then Ok current_data else gate_error ''missing required fields''))"

definition read_manifest :: "fs \<Rightarrow> path \<Rightarrow> pyobj result" where
  "read_manifest fs p =
     rbind (fs_read fs p) (\<lambda>bytes.
       case (case utf8_decode bytes of None \<Rightarrow> Raise JSONDecodeError | Some t \<Rightarrow> loads t) of
         Raise _ \<Rightarrow> gate_error ''corrupt manifest''
       | Ok v \<Rightarrow> obj_fields v)"

definition check_manifest :: "pyobj \<Rightarrow> json \<Rightarrow> json \<Rightarrow> json \<Rightarrow> json \<Rightarrow> json \<Rightarrow> unit result" where
  "check_manifest manifest gold_sha stage accepted candidate artifacts =
     rbind (ensure (py_eq (jget manifest ''sha256'') gold_sha) (ReleaseGateError ''manifest sha256'')) (\<lambda>_.
     rbind (ensure (py_eq (dict_get manifest ''release_stage'' (JStr ''candidate'')) stage)
       (ReleaseGateError ''stage mismatch'')) (\<lambda>_.
     rbind (ensure (py_eq (dict_get manifest ''phase2_accepted'' (JBool False)) accepted)
       (ReleaseGateError ''accepted mismatch'')) (\<lambda>_.
     rbind (ensure (py_eq (jget manifest ''multi_hop_judgment_ref'') (JStr ''multi_hop_judgment.jsonl''))
       (ReleaseGateError ''judgment ref'')) (\<lambda>_.
     rbind (artifact_sha artifacts ''multi_hop_judgment.jsonl'') (\<lambda>jsha.
     rbind (ensure (py_eq (jget manifest ''multi_hop_judgment_sha256'') jsha)
       (ReleaseGateError ''judgment sha256'')) (\<lambda>_.
       if py_eq stage (JStr ''approved'') then
         rbind (ensure (py_eq (jget manifest ''multi_hop_audit_ref'') (JStr ''multi_hop_audit.jsonl''))
           (ReleaseGateError ''audit ref'')) (\<lambda>_.
         rbind (artifact_sha artifacts ''multi_hop_audit.jsonl'') (\<lambda>asha.
         rbind (ensure (py_eq (jget manifest ''multi_hop_audit_sha256'') asha)
           (ReleaseGateError ''audit sha256'')) (\<lambda>_.
           ensure (\<not> (truthy candidate \<and> \<not> py_eq (jget manifest ''candidate_release_id'') candidate))
             (ReleaseGateError ''candidate_release_id''))))
       else Ok ()))))))"

definition release_of :: "path \<Rightarrow> pyobj \<Rightarrow> path \<Rightarrow> (string \<times> path) list \<Rightarrow> pyobj \<Rightarrow> release" where
  "release_of golden_dir current_data rel_dir paths manifest =
     \<lparr>r_release_id = jget current_data ''release_id'', r_release_dir = rel_dir,
      r_pointer_path = golden_dir @ [''CURRENT''],
      r_release_stage = dict_get current_data ''release_stage'' (JStr ''candidate''),
      r_phase2_accepted = dict_get current_data ''phase2_accepted'' (JBool False),
      r_candidate_release_id = jget current_data ''candidate_release_id'',
      r_gold_sha256 = jget current_data ''gold_sha256'',
      r_manifest_sha256 = jget current_data ''manifest_sha256'',
      r_row_count = dict_get current_data ''row_count'' (JInt 1039),
      r_published_at = jget current_data ''published_at'', r_artifacts = paths,
      r_manifest = manifest, r_pointer_data = current_data\<rparr>"

definition resolve_current_release :: "fs \<Rightarrow> path \<Rightarrow> bool \<Rightarrow> release result" where
  "resolve_current_release fs golden_dir require_approved =
     (let current_file = golden_dir @ [''CURRENT''] in
      if \<not> fs_exists fs current_file then Raise (FileNotFoundError ''CURRENT'')
      else rbind (read_pointer fs current_file) (\<lambda>current_data.
        let stage = dict_get current_data ''release_stage'' (JStr ''candidate'');
            accepted = dict_get current_data ''phase2_accepted'' (JBool False);
            candidate = jget current_data ''candidate_release_id'';
            artifacts = jget current_data ''artifacts'' in
        rbind (ensure (\<not> (require_approved \<and> (\<not> py_eq stage (JStr ''approved'') \<or> \<not> truthy accepted)))
          (ReleaseGateError ''approved release required'')) (\<lambda>_.
        rbind (str_of (jget current_data ''release_dir'')) (\<lambda>rel_dir_val.
        let rel_dir = path_join golden_dir rel_dir_val in
        rbind (ensure (fs_is_dir fs rel_dir) (ReleaseGateError ''release directory'')) (\<lambda>_.
        rbind (mapM (check_artifact fs rel_dir artifacts)
          (if py_eq stage (JStr ''approved'') then approved_artifacts else candidate_artifacts)) (\<lambda>paths.
        rbind (artifact_sha artifacts ''golden_1039.jsonl'') (\<lambda>gsha.
        rbind (ensure (py_eq (jget current_data ''gold_sha256'') gsha) (ReleaseGateError ''gold_sha256'')) (\<lambda>_.
        rbind (artifact_sha artifacts ''golden_manifest.json'') (\<lambda>msha.
        rbind (ensure (py_eq (jget current_data ''manifest_sha256'') msha) (ReleaseGateError ''manifest_sha256'')) (\<lambda>_.
        rbind (read_manifest fs (the (map_of paths ''golden_manifest.json''))) (\<lambda>manifest.
        rbind (check_manifest manifest (jget current_data ''gold_sha256'') stage accepted candidate
          artifacts) (\<lambda>_.
          Ok (release_of golden_dir current_data rel_dir paths manifest)))))))))))))"

definition load_current_golden_rows :: "fs \<Rightarrow> path \<Rightarrow> bool \<Rightarrow> json list result" where
  "load_current_golden_rows fs golden_dir require_approved =
     rbind (resolve_current_release fs golden_dir require_approved) (\<lambda>release.
     rbind (fs_read_text fs (the (map_of (r_artifacts release) ''golden_1039.jsonl''))) (\<lambda>text.
       mapM loads (filter (\<lambda>line. strip line \<noteq> []) (splitlines text))))"

section \<open>What an accepted release guarantees\<close>

lemma artifact_entry_Ok [run_ok]:
  "artifact_entry artifacts name = Ok v \<longleftrightarrow> (\<exists>es. artifacts = JObj es \<and> map_of es name = Some v)"
  by (cases artifacts) (auto simp: artifact_entry_def split: option.splits)

lemma check_artifact_Ok [run_ok]:
  "check_artifact fs rel_dir artifacts name = Ok x \<longleftrightarrow>
    (\<exists>es info rel b. artifacts = JObj es \<and> map_of es name = Some (JObj info) \<and>
       dict_get info ''path'' (JStr name) = JStr rel \<and> map_of fs (path_join rel_dir rel) = Some (File b) \<and>
       map_of info ''sha256'' = Some (JStr (sha256_hex b)) \<and> x = (name, path_join rel_dir rel))"
proof -
  show ?thesis (is "?l \<longleftrightarrow> ?r")
  proof
    assume ?l
    then obtain es info rel b where
      e: "artifacts = JObj es" "map_of es name = Some (JObj info)"
      and rel: "dict_get info ''path'' (JStr name) = JStr rel"
      and b: "map_of fs (path_join rel_dir rel) = Some (File b)"
      and sha: "py_eq (JStr (sha256_hex b)) (jget info ''sha256'')" "x = (name, path_join rel_dir rel)"
      unfolding check_artifact_def Let_def rbind_Ok_iff artifact_entry_Ok obj_fields_Ok
      by (auto simp del: py_eq_JStr simp: rbind_Ok_iff str_of_Ok fs_read_Ok split: if_splits)
    from sha(1) have "map_of info ''sha256'' = Some (JStr (sha256_hex b))"
      by (simp add: dict_get_def split: option.splits)
    with e rel b sha(2) show ?r by blast
  next
    assume ?r
    then show ?l
      by (auto simp: check_artifact_def artifact_entry_def obj_fields_def dict_get_def fs_exists_def
        fs_read_def sha256_nonempty str_of_def)
  qed
qed

text \<open>
  An accepted release: what the pointer names is what is on disk, and pointer, artifacts and manifest
  agree.
\<close>

definition verified_release :: "fs \<Rightarrow> path \<Rightarrow> release \<Rightarrow> bool" where
  "verified_release fs golden_dir r \<longleftrightarrow>
     fs_is_dir fs (r_release_dir r) \<and>
     map fst (r_artifacts r) =
       (if r_release_stage r = JStr ''approved'' then approved_artifacts else candidate_artifacts) \<and>
     (\<forall>(name, p) \<in> set (r_artifacts r). \<exists>b. map_of fs p = Some (File b) \<and>
        artifact_sha (jget (r_pointer_data r) ''artifacts'') name = Ok (JStr (sha256_hex b))) \<and>
     artifact_sha (jget (r_pointer_data r) ''artifacts'') ''golden_1039.jsonl'' = Ok (r_gold_sha256 r) \<and>
     artifact_sha (jget (r_pointer_data r) ''artifacts'') ''golden_manifest.json'' = Ok (r_manifest_sha256 r) \<and>
     jget (r_manifest r) ''sha256'' = r_gold_sha256 r \<and>
     py_eq (dict_get (r_manifest r) ''release_stage'' (JStr ''candidate'')) (r_release_stage r) \<and>
     py_eq (dict_get (r_manifest r) ''phase2_accepted'' (JBool False)) (r_phase2_accepted r) \<and>
     artifact_sha (jget (r_pointer_data r) ''artifacts'') ''multi_hop_judgment.jsonl'' =
       Ok (jget (r_manifest r) ''multi_hop_judgment_sha256'')"

lemma resolve_Ok_iff:
  "resolve_current_release fs golden_dir require_approved = Ok r \<longleftrightarrow>
    fs_exists fs (golden_dir @ [''CURRENT'']) \<and>
    (\<exists>cd. read_pointer fs (golden_dir @ [''CURRENT'']) = Ok cd \<and>
      \<not> (require_approved \<and> (\<not> py_eq (dict_get cd ''release_stage'' (JStr ''candidate'')) (JStr ''approved'') \<or>
          \<not> truthy (dict_get cd ''phase2_accepted'' (JBool False)))) \<and>
      (\<exists>rel. jget cd ''release_dir'' = JStr rel \<and> fs_is_dir fs (path_join golden_dir rel) \<and>
      (\<exists>paths. mapM (check_artifact fs (path_join golden_dir rel) (jget cd ''artifacts''))
         (if py_eq (dict_get cd ''release_stage'' (JStr ''candidate'')) (JStr ''approved'')
          then approved_artifacts else candidate_artifacts) = Ok paths \<and>
      (\<exists>gsha. artifact_sha (jget cd ''artifacts'') ''golden_1039.jsonl'' = Ok gsha \<and>
         py_eq (jget cd ''gold_sha256'') gsha \<and>
      (\<exists>msha. artifact_sha (jget cd ''artifacts'') ''golden_manifest.json'' = Ok msha \<and>
         py_eq (jget cd ''manifest_sha256'') msha \<and>
      (\<exists>m. read_manifest fs (the (map_of paths ''golden_manifest.json'')) = Ok m \<and>
         check_manifest m (jget cd ''gold_sha256'')
           (dict_get cd ''release_stage'' (JStr ''candidate'')) (dict_get cd ''phase2_accepted'' (JBool False))
           (jget cd ''candidate_release_id'') (jget cd ''artifacts'') = Ok () \<and>
         r = release_of golden_dir cd (path_join golden_dir rel) paths m))))))"
proof (cases "fs_exists fs (golden_dir @ [''CURRENT''])")
  case True
  then show ?thesis
    unfolding resolve_current_release_def Let_def
    by (simp only: not_not if_False simp_thms rbind_Ok_iff ensure_Ok_iff str_of_Ok result.inject
        ex_simps unit_eq)
      (intro iffI; elim exE conjE; intro exI conjI; (assumption | erule sym | simp))
qed (simp add: resolve_current_release_def Let_def)

lemma check_artifacts_names: "mapM (check_artifact fs rel_dir artifacts) names = Ok paths \<Longrightarrow> map fst paths = names"
proof (induction names arbitrary: paths)
  case (Cons n names)
  then obtain x xs where "check_artifact fs rel_dir artifacts n = Ok x"
    "mapM (check_artifact fs rel_dir artifacts) names = Ok xs" "paths = x # xs"
    by (auto simp: rbind_Ok_iff)
  with Cons.IH [of xs] show ?case by (auto simp: check_artifact_Ok)
qed simp

text \<open>The result depends on the pointer, the release directory and the artifacts only.\<close>

lemma resolve_frame:
  assumes "resolve_current_release fs golden_dir require_approved = Ok r"
    and "\<And>p. p \<in> {golden_dir @ [''CURRENT''], r_release_dir r} \<union> snd ` set (r_artifacts r) \<Longrightarrow>
      map_of fs' p = map_of fs p"
  shows "resolve_current_release fs' golden_dir require_approved = Ok r"
proof -
  from assms(1) obtain cd rel paths gsha msha m where run:
    "fs_exists fs (golden_dir @ [''CURRENT''])" "read_pointer fs (golden_dir @ [''CURRENT'']) = Ok cd"
    "\<not> (require_approved \<and> (\<not> py_eq (dict_get cd ''release_stage'' (JStr ''candidate'')) (JStr ''approved'') \<or>
          \<not> truthy (dict_get cd ''phase2_accepted'' (JBool False))))"
    "jget cd ''release_dir'' = JStr rel" "fs_is_dir fs (path_join golden_dir rel)"
    "mapM (check_artifact fs (path_join golden_dir rel) (jget cd ''artifacts''))
         (if py_eq (dict_get cd ''release_stage'' (JStr ''candidate'')) (JStr ''approved'')
          then approved_artifacts else candidate_artifacts) = Ok paths"
    "artifact_sha (jget cd ''artifacts'') ''golden_1039.jsonl'' = Ok gsha" "py_eq (jget cd ''gold_sha256'') gsha"
    "artifact_sha (jget cd ''artifacts'') ''golden_manifest.json'' = Ok msha" "py_eq (jget cd ''manifest_sha256'') msha"
    "read_manifest fs (the (map_of paths ''golden_manifest.json'')) = Ok m"
    "check_manifest m (jget cd ''gold_sha256'')
           (dict_get cd ''release_stage'' (JStr ''candidate'')) (dict_get cd ''phase2_accepted'' (JBool False))
           (jget cd ''candidate_release_id'') (jget cd ''artifacts'') = Ok ()"
    "r = release_of golden_dir cd (path_join golden_dir rel) paths m"
    unfolding resolve_Ok_iff by blast
  have r: "r_release_dir r = path_join golden_dir rel" "r_artifacts r = paths"
    by (simp_all add: run(13) release_of_def)
  have same: "map_of fs' (golden_dir @ [''CURRENT'']) = map_of fs (golden_dir @ [''CURRENT''])"
    "map_of fs' (path_join golden_dir rel) = map_of fs (path_join golden_dir rel)"
    by (rule assms(2), simp add: r)+
  have same3: "map_of fs' p = map_of fs p" if "(n, p) \<in> set paths" for n p
    by (rule assms(2)) (use that in \<open>simp add: r image_iff, metis snd_conv\<close>)
  let ?names = "if py_eq (dict_get cd ''release_stage'' (JStr ''candidate'')) (JStr ''approved'')
          then approved_artifacts else candidate_artifacts"
  have "list_all2 (\<lambda>n x. check_artifact fs (path_join golden_dir rel) (jget cd ''artifacts'') n = Ok x \<and> x \<in> set paths) ?names paths"
    using run(6) by (auto simp: mapM_Ok_iff list_all2_conv_all_nth)
  then have "list_all2 (\<lambda>n x. check_artifact fs' (path_join golden_dir rel) (jget cd ''artifacts'') n = Ok x) ?names paths"
    by (rule list_all2_mono) (auto simp: check_artifact_Ok same3)
  then have "mapM (check_artifact fs' (path_join golden_dir rel) (jget cd ''artifacts'')) ?names = Ok paths"
    by (simp only: mapM_Ok_iff)
  moreover have "read_manifest fs' (the (map_of paths ''golden_manifest.json'')) = Ok m"
  proof -
    have "map fst paths = ?names" by (rule check_artifacts_names [OF run(6)])
    then have "map_of paths ''golden_manifest.json'' \<noteq> None"
      by (simp add: map_of_eq_None_iff flip: set_map) (simp add: approved_artifacts_def candidate_artifacts_def)
    then obtain p where p: "map_of paths ''golden_manifest.json'' = Some p" by blast
    then have "fs_read fs' p = fs_read fs p" using same3 [OF map_of_SomeD [OF p]] by (simp only: fs_read_def)
    then show ?thesis using run(11) by (simp only: p option.sel read_manifest_def)
  qed
  moreover have "fs_exists fs' (golden_dir @ [''CURRENT''])" "read_pointer fs' (golden_dir @ [''CURRENT'']) = Ok cd"
    "fs_is_dir fs' (path_join golden_dir rel)"
    using run(1,2,5) same(1,2) by (simp_all add: fs_exists_def read_pointer_def fs_read_text_def fs_read_def fs_is_dir_def)
  ultimately show ?thesis
    unfolding resolve_Ok_iff using run by (intro conjI exI; (assumption | simp only:))
qed

lemma check_artifact_sha:
  assumes "check_artifact fs d artifacts n = Ok x"
  obtains b where "x = (n, snd x)" "map_of fs (snd x) = Some (File b)"
    "artifact_sha artifacts n = Ok (JStr (sha256_hex b))"
  using assms by (auto simp: check_artifact_Ok artifact_sha_def artifact_entry_def obj_fields_def dict_item_def)

lemma check_manifest_Ok:
  assumes "check_manifest m gold stage accepted candidate artifacts = Ok ()"
  obtains jsha where "py_eq (jget m ''sha256'') gold"
    "py_eq (dict_get m ''release_stage'' (JStr ''candidate'')) stage"
    "py_eq (dict_get m ''phase2_accepted'' (JBool False)) accepted"
    "artifact_sha artifacts ''multi_hop_judgment.jsonl'' = Ok jsha"
    "py_eq (jget m ''multi_hop_judgment_sha256'') jsha"
  using assms unfolding check_manifest_def rbind_Ok_iff ensure_Ok_iff by blast

lemma resolve_verified:
  assumes "resolve_current_release fs golden_dir require_approved = Ok r"
  shows "verified_release fs golden_dir r \<and>
    (require_approved \<longrightarrow> r_release_stage r = JStr ''approved'' \<and> truthy (r_phase2_accepted r))"
proof -
  from assms obtain cd rel paths gsha msha m where run:
    "\<not> (require_approved \<and> (\<not> py_eq (dict_get cd ''release_stage'' (JStr ''candidate'')) (JStr ''approved'') \<or>
          \<not> truthy (dict_get cd ''phase2_accepted'' (JBool False))))"
    "fs_is_dir fs (path_join golden_dir rel)"
    "mapM (check_artifact fs (path_join golden_dir rel) (jget cd ''artifacts''))
         (if py_eq (dict_get cd ''release_stage'' (JStr ''candidate'')) (JStr ''approved'')
          then approved_artifacts else candidate_artifacts) = Ok paths"
    "artifact_sha (jget cd ''artifacts'') ''golden_1039.jsonl'' = Ok gsha" "py_eq (jget cd ''gold_sha256'') gsha"
    "artifact_sha (jget cd ''artifacts'') ''golden_manifest.json'' = Ok msha" "py_eq (jget cd ''manifest_sha256'') msha"
    "check_manifest m (jget cd ''gold_sha256'')
           (dict_get cd ''release_stage'' (JStr ''candidate'')) (dict_get cd ''phase2_accepted'' (JBool False))
           (jget cd ''candidate_release_id'') (jget cd ''artifacts'') = Ok ()"
    "r = release_of golden_dir cd (path_join golden_dir rel) paths m"
    unfolding resolve_Ok_iff by blast
  let ?arts = "jget cd ''artifacts''"
  let ?names = "if dict_get cd ''release_stage'' (JStr ''candidate'') = JStr ''approved''
          then approved_artifacts else candidate_artifacts"
  have names: "map fst paths = ?names" using check_artifacts_names [OF run(3)] by simp
  have sha: "\<exists>b. map_of fs p = Some (File b) \<and> artifact_sha ?arts n = Ok (JStr (sha256_hex b))"
    if "(n, p) \<in> set paths" for n p
  proof -
    from run(3) that obtain n' where "check_artifact fs (path_join golden_dir rel) ?arts n' = Ok (n, p)"
      by (auto simp: mapM_Ok_iff dest: list_all2_setD2)
    then show ?thesis by (rule check_artifact_sha) auto
  qed
  have str: "\<exists>s. artifact_sha ?arts n = Ok (JStr s)" if "n \<in> set ?names" for n
  proof -
    from that have "n \<in> fst ` set paths" unfolding names [symmetric] set_map .
    then obtain p where "(n, p) \<in> set paths" by (auto simp: image_iff)
    then show ?thesis using sha by blast
  qed
  have in_names: "''golden_1039.jsonl'' \<in> set ?names" "''golden_manifest.json'' \<in> set ?names"
    "''multi_hop_judgment.jsonl'' \<in> set ?names"
    by (simp_all add: approved_artifacts_def candidate_artifacts_def)
  obtain g h j where str': "artifact_sha ?arts ''golden_1039.jsonl'' = Ok (JStr g)"
    "artifact_sha ?arts ''golden_manifest.json'' = Ok (JStr h)"
    "artifact_sha ?arts ''multi_hop_judgment.jsonl'' = Ok (JStr j)"
    using str [OF in_names(1)] str [OF in_names(2)] str [OF in_names(3)] by blast
  have eq: "jget cd ''gold_sha256'' = JStr g" "jget cd ''manifest_sha256'' = JStr h"
    using run(4-7) by (auto simp only: str' result.inject py_eq_JStr)
  obtain jsha where m: "py_eq (jget m ''sha256'') (JStr g)"
    "py_eq (dict_get m ''release_stage'' (JStr ''candidate'')) (dict_get cd ''release_stage'' (JStr ''candidate''))"
    "py_eq (dict_get m ''phase2_accepted'' (JBool False)) (dict_get cd ''phase2_accepted'' (JBool False))"
    "artifact_sha ?arts ''multi_hop_judgment.jsonl'' = Ok jsha"
    "py_eq (jget m ''multi_hop_judgment_sha256'') jsha"
    by (rule check_manifest_Ok [OF run(8) [unfolded eq(1)]])
  have "jget m ''multi_hop_judgment_sha256'' = JStr j"
    using m(4,5) by (auto simp only: str' result.inject py_eq_JStr)
  moreover have "jget m ''sha256'' = JStr g" using m(1) by simp
  ultimately show ?thesis
    using run(1,2) names sha str' eq m(2,3) unfolding verified_release_def run(9) release_of_def
    by (simp only: release.simps py_eq_JStr) auto
qed

end
