(* ===== verification/Release_Publish.thy ===== *)
theory Release_Publish
  imports Release_Resolve
begin

text \<open>
  The publication of a release (\<^verbatim>\<open>atomic_publish_versioned_release\<close> and \<^verbatim>\<open>atomic_publish_artifacts\<close> of
  \<^verbatim>\<open>src/evaluation/golden/builder.py\<close>) as an effect on the file system, every operation of which may
  fail or stop half-way. The theorems are the ones its docstring promises: at every moment a reader
  finds the old release unchanged or the complete new one; a failed publication leaves the old release;
  a publication without faults succeeds, and what it published resolves.
\<close>

section \<open>The call and its paths\<close>

text \<open>
  The arguments, with the values the body takes from the clock (\<open>p_stamp\<close>, \<open>p_iso\<close>) and from
  \<^verbatim>\<open>uuid4\<close> (\<open>p_token\<close>).
\<close>

record publication =
  p_staging :: path
  p_output :: path
  p_names :: "string list"
  p_gold_sha256 :: string
  p_manifest_sha256 :: string
  p_row_count :: int
  p_stage :: string
  p_accepted :: bool
  p_candidate :: json
  p_stamp :: string
  p_iso :: string
  p_token :: string

definition releases_dir :: "publication \<Rightarrow> path" where
  "releases_dir a = p_output a @ [''releases'']"

definition current_file :: "publication \<Rightarrow> path" where
  "current_file a = p_output a @ [''CURRENT'']"

definition lock_file :: "publication \<Rightarrow> path" where
  "lock_file a = butlast (p_output a) @ [''.'' @ last (p_output a) @ ''.release.lock'']"

definition release_id :: "publication \<Rightarrow> fs \<Rightarrow> string" where
  "release_id a fs =
     (let rid = ''r_'' @ p_stamp a @ ''_'' @ take 8 (p_manifest_sha256 a) in
      if fs_exists fs (releases_dir a @ [rid]) then rid @ ''_'' @ take 6 (p_token a) else rid)"

definition target_dir :: "publication \<Rightarrow> string \<Rightarrow> path" where
  "target_dir a rid = releases_dir a @ [rid]"

definition tmp_dir :: "publication \<Rightarrow> string \<Rightarrow> path" where
  "tmp_dir a rid = releases_dir a @ [''.tmp_publish_stage_'' @ rid @ ''_'' @ p_token a]"

definition tmp_current :: "publication \<Rightarrow> path" where
  "tmp_current a = p_output a @ [''.tmp_CURRENT_'' @ p_token a]"

text \<open>\<^verbatim>\<open>output_dir.glob(f".tmp_*_{token}*")\<close>\<close>

definition tmp_match :: "publication \<Rightarrow> path \<Rightarrow> bool" where
  "tmp_match a p \<longleftrightarrow> p \<noteq> [] \<and> butlast p = p_output a \<and> prefix ''.tmp_'' (last p) \<and>
     contains (drop 5 (last p)) (CHR ''_'' # p_token a)"

definition current_payload :: "publication \<Rightarrow> string \<Rightarrow> (string, string) dict \<Rightarrow> json" where
  "current_payload a rid hashes = JObj
     [(''format_version'', JStr ''1.0''),
      (''release_id'', JStr rid),
      (''release_dir'', JStr (''releases/'' @ rid)),
      (''published_at'', JStr (p_iso a)),
      (''release_stage'', JStr (p_stage a)),
      (''phase2_accepted'', JBool (p_accepted a)),
      (''candidate_release_id'', p_candidate a),
      (''row_count'', JInt (p_row_count a)),
      (''gold_sha256'', JStr (p_gold_sha256 a)),
      (''manifest_sha256'', JStr (p_manifest_sha256 a)),
      (''artifacts'', JObj (dict_of (map (\<lambda>name. (name, JObj
         [(''path'', JStr name), (''sha256'', JStr (dict_get hashes name []))])) (sort (p_names a)))))]"

definition payload_bytes :: "publication \<Rightarrow> string \<Rightarrow> (string, string) dict \<Rightarrow> string" where
  "payload_bytes a rid hashes = utf8_encode (dumps js_pretty (current_payload a rid hashes)) @ [CHR 0x0A]"

section \<open>The body\<close>

text \<open>Steps 1 and 2: hash the staged artifacts, copy them, move the copy to its final place.\<close>

definition stage_release :: "publication \<Rightarrow> string \<Rightarrow> (string, string) dict io" where
  "stage_release a rid =
     io_bind (io_map (\<lambda>name. io_bind (io_read (path_join (p_staging a) name))
                (\<lambda>bytes. io_return (name, sha256_hex bytes))) (p_names a)) (\<lambda>hashes.
     io_seq (io_mkdirs (tmp_dir a rid))
     (io_seq (io_for (\<lambda>name. io_bind (io_read (path_join (p_staging a) name))
                (io_write (path_join (tmp_dir a rid) name))) (p_names a))
     (io_seq (io_replace (tmp_dir a rid) (target_dir a rid))
     (io_return (dict_of hashes)))))"

text \<open>Steps 4 and 5: write the pointer beside \<^verbatim>\<open>CURRENT\<close>, flush it, move it into place.\<close>

definition swap_pointer :: "publication \<Rightarrow> string \<Rightarrow> (string, string) dict \<Rightarrow> unit io" where
  "swap_pointer a rid hashes =
     io_seq (io_write (tmp_current a) (payload_bytes a rid hashes))
     (io_seq io_call (io_replace (tmp_current a) (current_file a)))"

definition is_active :: "publication \<Rightarrow> string \<Rightarrow> bool io" where
  "is_active a rid =
     io_bind (io_ask (\<lambda>fs. fs_exists fs (current_file a))) (\<lambda>ex.
       if \<not> ex then io_return False
       else io_catch
         (io_bind (io_read (current_file a)) (\<lambda>bytes.
            case utf8_decode bytes of
              None \<Rightarrow> io_raise (ValueError ''utf-8'')
            | Some text \<Rightarrow>
                (case loads (universal_newlines text) of
                   Raise e \<Rightarrow> io_raise e
                 | Ok (JObj c_data) \<Rightarrow> io_return (jget c_data ''release_id'' = JStr rid)
                 | Ok _ \<Rightarrow> io_raise (AttributeError ''get''))))
         (\<lambda>e. if is_os_error e \<or> e = JSONDecodeError then io_return False else io_raise e))"

text \<open>
  The handler of the body. \<open>swapping\<close> tells the two points where an operation may have failed:
  before or after the variables \<^verbatim>\<open>target_dir_created\<close> and \<^verbatim>\<open>tmp_current\<close> were set.
\<close>

definition cleanup :: "publication \<Rightarrow> string \<Rightarrow> bool \<Rightarrow> unit io" where
  "cleanup a rid swapping =
     io_seq (io_bind (io_ask (\<lambda>fs. swapping \<and> fs_exists fs (tmp_current a)))
       (\<lambda>b. if b then io_ignore (io_unlink (tmp_current a)) else io_return ()))
     (io_seq (io_bind (io_ask (\<lambda>fs. fs_exists fs (tmp_dir a rid)))
       (\<lambda>b. if b then io_rmtree (tmp_dir a rid) else io_return ()))
     (io_seq (io_bind (io_ask (\<lambda>fs. swapping \<and> fs_exists fs (target_dir a rid)))
       (\<lambda>b. if b then io_bind (is_active a rid) (\<lambda>active.
                if active then io_return () else io_rmtree (target_dir a rid))
             else io_return ()))
     (io_seq (io_bind (io_ask (\<lambda>fs. fs_exists fs (releases_dir a) \<and> fs_empty_dir fs (releases_dir a)))
       (\<lambda>b. if b then io_ignore (io_rmdir (releases_dir a)) else io_return ()))
     (io_bind (io_ask (\<lambda>fs. filter (tmp_match a) (map fst fs)))
       (io_for (\<lambda>p. io_ignore (io_unlink p)))))))"

definition release_lock :: "publication \<Rightarrow> unit io" where
  "release_lock a = io_seq (io_ignore io_call) (io_ignore (io_unlink (lock_file a)))"

definition publish_body :: "publication \<Rightarrow> string \<Rightarrow> unit io" where
  "publish_body a rid =
     io_bind (io_catch (stage_release a rid) (\<lambda>e. io_seq (cleanup a rid False) (io_raise e))) (\<lambda>hashes.
       io_catch (swap_pointer a rid hashes) (\<lambda>e. io_seq (cleanup a rid True) (io_raise e)))"

definition atomic_publish_versioned_release :: "publication \<Rightarrow> (string \<times> path) io" where
  "atomic_publish_versioned_release a =
     io_seq (io_mkdirs (p_output a))
     (io_seq (io_mkdirs (releases_dir a))
     (io_bind (io_ask (release_id a)) (\<lambda>rid.
     io_seq (io_write (lock_file a) [])
     (io_seq io_call
     (io_seq (io_finally (publish_body a rid) (release_lock a))
     (io_return (rid, target_dir a rid)))))))"

text \<open>\<^verbatim>\<open>atomic_publish_artifacts\<close>: the two checksums default to those of the staged files.\<close>

definition atomic_publish_artifacts ::
  "publication \<Rightarrow> string option \<Rightarrow> string option \<Rightarrow> (string \<times> path) io" where
  "atomic_publish_artifacts a gold_sha256 manifest_sha256 =
     io_bind (case gold_sha256 of Some s \<Rightarrow> io_return s
              | None \<Rightarrow> io_bind (io_read (p_staging a @ [''golden_1039.jsonl''])) (\<lambda>b. io_return (sha256_hex b))) (\<lambda>gold.
     io_bind (case manifest_sha256 of Some s \<Rightarrow> io_return s
              | None \<Rightarrow> io_bind (io_read (p_staging a @ [''golden_manifest.json''])) (\<lambda>b. io_return (sha256_hex b))) (\<lambda>manifest.
       atomic_publish_versioned_release (a\<lparr>p_gold_sha256 := gold, p_manifest_sha256 := manifest\<rparr>)))"

section \<open>What belongs to a publication\<close>

text \<open>
  The paths a publication creates or removes itself; a fresh file system holds none of them. The
  release id is free because the body looks for a taken one and adds six digits of its token.
\<close>

definition own :: "publication \<Rightarrow> string \<Rightarrow> path \<Rightarrow> bool" where
  "own a rid p \<longleftrightarrow> prefix (tmp_dir a rid) p \<or> prefix (target_dir a rid) p \<or> prefix (tmp_current a) p \<or>
     tmp_match a p \<or> p = lock_file a"

definition fresh :: "publication \<Rightarrow> fs \<Rightarrow> bool" where
  "fresh a fs \<longleftrightarrow> list_all (\<lambda>(p, _). \<not> own a (release_id a fs) p) fs"

definition simple_name :: "string \<Rightarrow> bool" where
  "simple_name n \<longleftrightarrow> path_parts n = [n] \<and> \<not> prefix ''/'' n"

text \<open>The artifacts have plain names and are staged outside the published tree.\<close>

definition well_staged :: "publication \<Rightarrow> string \<Rightarrow> bool" where
  "well_staged a rid \<longleftrightarrow> p_output a \<noteq> [] \<and>
     list_all (\<lambda>n. simple_name n \<and> \<not> own a rid (p_staging a @ [n]) \<and>
       \<not> prefix (p_staging a @ [n]) (releases_dir a) \<and> \<not> prefix (current_file a) (p_staging a @ [n])) (p_names a)"

definition staged :: "publication \<Rightarrow> fs \<Rightarrow> string \<Rightarrow> string" where
  "staged a fs n = (case map_of fs (p_staging a @ [n]) of Some (File b) \<Rightarrow> b | _ \<Rightarrow> [])"

definition staged_hashes :: "publication \<Rightarrow> fs \<Rightarrow> (string, string) dict" where
  "staged_hashes a fs = dict_of (map (\<lambda>n. (n, sha256_hex (staged a fs n))) (p_names a))"

text \<open>The old release: everything but the publication's own paths and the directories above is as before.\<close>

definition unchanged :: "publication \<Rightarrow> string \<Rightarrow> fs \<Rightarrow> fs \<Rightarrow> bool" where
  "unchanged a rid fs0 fs \<longleftrightarrow>
     (\<forall>p. \<not> own a rid p \<longrightarrow> \<not> prefix p (releases_dir a) \<longrightarrow> map_of fs p = map_of fs0 p)"

text \<open>The new release: the pointer names the complete copy of the staged artifacts.\<close>

definition swapped :: "publication \<Rightarrow> string \<Rightarrow> fs \<Rightarrow> fs \<Rightarrow> bool" where
  "swapped a rid fs0 fs \<longleftrightarrow>
     (\<forall>p. \<not> own a rid p \<longrightarrow> \<not> prefix p (releases_dir a) \<longrightarrow> \<not> prefix (current_file a) p \<longrightarrow>
        map_of fs p = map_of fs0 p) \<and>
     map_of fs (current_file a) = Some (File (payload_bytes a rid (staged_hashes a fs0))) \<and>
     fs_is_dir fs (target_dir a rid) \<and>
     (\<forall>n \<in> set (p_names a). map_of fs (target_dir a rid @ [n]) = Some (File (staged a fs0 n)))"

text \<open>What a publication needs to find in order to succeed.\<close>

definition ready :: "publication \<Rightarrow> fs \<Rightarrow> bool" where
  "ready a fs \<longleftrightarrow>
     list_all (\<lambda>n. \<exists>b. map_of fs (p_staging a @ [n]) = Some (File b)) (p_names a) \<and>
     list_all (\<lambda>q. fs_exists fs q \<longrightarrow> fs_is_dir fs q) (prefixes (releases_dir a)) \<and>
     \<not> fs_is_dir fs (current_file a)"

lemma release_id_prefix: "prefix ''r_'' (release_id a fs)"
  by (simp add: release_id_def Let_def)

lemma release_id_head: "release_id a fs = CHR ''r'' # tl (release_id a fs)"
  by (simp add: release_id_def Let_def)

lemma own_paths:
  assumes "rid = CHR ''r'' # s"
  shows "\<not> prefix (tmp_dir a rid) (target_dir a rid)" "\<not> prefix (target_dir a rid) (tmp_dir a rid)"
    "\<not> prefix (tmp_current a) (current_file a)" "\<not> prefix (current_file a) (tmp_current a)"
    "prefix (current_file a) p \<Longrightarrow> \<not> prefix (tmp_dir a rid) p \<and> \<not> prefix (target_dir a rid) p \<and> \<not> prefix (tmp_current a) p"
    "prefix (tmp_dir a rid) p \<Longrightarrow> \<not> prefix (target_dir a rid) p"
    "prefix (tmp_current a) p \<Longrightarrow> \<not> prefix (tmp_dir a rid) p \<and> \<not> prefix (target_dir a rid) p"
    "prefix p (releases_dir a) \<Longrightarrow>
      \<not> prefix (tmp_dir a rid) p \<and> \<not> prefix (target_dir a rid) p \<and> \<not> prefix (tmp_current a) p \<and> \<not> prefix (current_file a) p"
  using assms
  by (auto simp: tmp_dir_def target_dir_def releases_dir_def tmp_current_def current_file_def prefix_def
    append_eq_append_conv2 append_eq_Cons_conv)

lemma lock_paths:
  assumes "p_output a \<noteq> []"
  shows "\<not> prefix (lock_file a) (releases_dir a)" "\<not> prefix (current_file a) (lock_file a)"
    "\<not> prefix (tmp_dir a rid) (lock_file a)" "\<not> prefix (target_dir a rid) (lock_file a)" "\<not> prefix (tmp_current a) (lock_file a)"
    "lock_file a \<noteq> current_file a"
proof -
  obtain xs x where out: "p_output a = xs @ [x]" using assms by (metis rev_exhaust)
  have "''.'' @ x @ ''.release.lock'' \<noteq> x"
  proof
    assume "''.'' @ x @ ''.release.lock'' = x"
    then have "length (''.'' @ x @ ''.release.lock'') = length x" by (rule arg_cong)
    then show False by simp
  qed
  then show "\<not> prefix (lock_file a) (releases_dir a)" "\<not> prefix (current_file a) (lock_file a)"
    "\<not> prefix (tmp_dir a rid) (lock_file a)" "\<not> prefix (target_dir a rid) (lock_file a)" "\<not> prefix (tmp_current a) (lock_file a)"
    "lock_file a \<noteq> current_file a"
    by (auto simp: out lock_file_def releases_dir_def current_file_def tmp_dir_def target_dir_def tmp_current_def prefix_def
      append_eq_append_conv2 append_eq_Cons_conv)
qed

lemma match_paths:
  "tmp_match a p \<Longrightarrow> \<not> prefix p (releases_dir a) \<and> \<not> prefix (current_file a) p"
proof -
  assume "tmp_match a p"
  then obtain t where p: "p = p_output a @ [''.tmp_'' @ t]"
    by (auto simp: tmp_match_def prefix_def) (metis append_butlast_last_id)
  then show ?thesis by (auto simp: releases_dir_def current_file_def prefix_def)
qed


section \<open>The steps\<close>

text \<open>What every file system of a run is: the old release, or the new one.\<close>

abbreviation old_or_new :: "publication \<Rightarrow> string \<Rightarrow> fs \<Rightarrow> fs \<Rightarrow> bool" where
  "old_or_new a rid fs0 fs \<equiv> unchanged a rid fs0 fs \<or> swapped a rid fs0 fs"

definition staging_state :: "publication \<Rightarrow> string \<Rightarrow> fs \<Rightarrow> string list \<Rightarrow> fs \<Rightarrow> bool" where
  "staging_state a rid fs0 done_names fs \<longleftrightarrow>
     unchanged a rid fs0 fs \<and> fs_is_dir fs (p_output a) \<and>
     (\<forall>p. prefix (target_dir a rid) p \<or> p = tmp_current a \<longrightarrow> map_of fs p = None) \<and>
     fs_is_dir fs (tmp_dir a rid) \<and> (\<forall>p. strict_prefix (tmp_dir a rid) p \<longrightarrow> \<not> fs_is_dir fs p) \<and>
     (\<forall>n \<in> set done_names. map_of fs (tmp_dir a rid @ [n]) = Some (File (staged a fs0 n)))"

definition clear_state :: "publication \<Rightarrow> string \<Rightarrow> fs \<Rightarrow> fs \<Rightarrow> bool" where
  "clear_state a rid fs0 fs \<longleftrightarrow>
     unchanged a rid fs0 fs \<and> fs_is_dir fs (p_output a) \<and>
     (\<forall>q. prefix q (releases_dir a) \<longrightarrow> fs_exists fs q \<longrightarrow> fs_is_dir fs q) \<and>
     (\<forall>p. prefix (tmp_dir a rid) p \<or> prefix (target_dir a rid) p \<or> p = tmp_current a \<longrightarrow> map_of fs p = None)"

definition copied_state :: "publication \<Rightarrow> string \<Rightarrow> fs \<Rightarrow> fs \<Rightarrow> bool" where
  "copied_state a rid fs0 fs \<longleftrightarrow>
     unchanged a rid fs0 fs \<and> fs_is_dir fs (p_output a) \<and> fs_is_dir fs (target_dir a rid) \<and>
     map_of fs (tmp_current a) = None \<and>
     (\<forall>n \<in> set (p_names a). map_of fs (target_dir a rid @ [n]) = Some (File (staged a fs0 n)))"

lemma join_simple: "simple_name n \<Longrightarrow> path_join p n = p @ [n]"
  by (simp add: simple_name_def path_join_def)

lemma unchanged_staging:
  "well_staged a rid \<Longrightarrow> n \<in> set (p_names a) \<Longrightarrow> unchanged a rid fs0 fs \<Longrightarrow>
    map_of fs (p_staging a @ [n]) = map_of fs0 (p_staging a @ [n])"
  by (simp add: well_staged_def list_all_iff unchanged_def)

lemma unchanged_write: "own a rid p \<Longrightarrow> unchanged a rid fs0 fs \<Longrightarrow> unchanged a rid fs0 (fs_write p b fs)"
  by (auto simp: unchanged_def)

lemma own_tmp: "own a rid (tmp_dir a rid @ s)" "own a rid (target_dir a rid @ s)" "own a rid (tmp_current a)"
  "own a rid (lock_file a)" "own a rid (tmp_dir a rid)" "own a rid (target_dir a rid)"
  by (auto simp: own_def)

lemma read_staged:
  assumes "well_staged a rid" "n \<in> set (p_names a)" "\<And>fs. B fs \<Longrightarrow> unchanged a rid fs0 fs"
    "c \<longrightarrow> ready a fs0" "\<And>fs. B fs \<Longrightarrow> E fs"
  shows "triple (holds c A B) (io_read (p_staging a @ [n]))
    (\<lambda>b w. b = staged a fs0 n \<and> holds c A B w) (\<lambda>w. \<not> c \<and> holds c A E w)"
proof (rule triple_conseq [OF triple_read])
  show "is_ok (fs_read fs (p_staging a @ [n]))" if "c" "A fs" "B fs" for fs
    using assms(4) that unchanged_staging [OF assms(1,2) assms(3) [OF that(3)]] assms(2)
    by (auto simp: ready_def list_all_iff is_ok_iff fs_read_Ok)
  show "b = staged a fs0 n \<and> holds c A B w"
    if "holds c A (\<lambda>fs. B fs \<and> fs_read fs (p_staging a @ [n]) = Ok b) w" for b w
  proof -
    from that have "B (present w)" "map_of (present w) (p_staging a @ [n]) = Some (File b)"
      by (simp_all add: holds_def fs_read_Ok)
    then have "map_of fs0 (p_staging a @ [n]) = Some (File b)"
      using unchanged_staging [OF assms(1,2) assms(3)] by metis
    with that show ?thesis by (simp add: holds_def staged_def)
  qed
qed (use assms(5) in auto)

lemma tmp_prefix: "prefix q (tmp_dir a rid) \<longleftrightarrow> q = tmp_dir a rid \<or> prefix q (releases_dir a)"
  by (simp add: tmp_dir_def)

lemma unchanged_mkdirs_tmp:
  "unchanged a rid fs0 fs \<Longrightarrow> unchanged a rid fs0 (fs_mkdirs (take k (tmp_dir a rid)) fs)"
proof -
  assume u: "unchanged a rid fs0 fs"
  have "prefix q (take k (tmp_dir a rid)) \<Longrightarrow> own a rid q \<or> prefix q (releases_dir a)" for q
    using take_is_prefix [of k "tmp_dir a rid"] tmp_prefix own_tmp(5) by (metis prefix_order.trans)
  then show ?thesis using u by (auto simp: unchanged_def lookup_mkdirs)
qed

lemma stage_release_triple:
  assumes rid: "rid = CHR ''r'' # s" and ws: "well_staged a rid" and c: "c \<longrightarrow> ready a fs0"
  shows "triple (holds c (old_or_new a rid fs0) (clear_state a rid fs0)) (stage_release a rid)
    (\<lambda>hashes w. hashes = staged_hashes a fs0 \<and> holds c (old_or_new a rid fs0) (copied_state a rid fs0) w)
    (\<lambda>w. \<not> c \<and> holds c (old_or_new a rid fs0) (unchanged a rid fs0) w)"
proof -
  let ?A = "old_or_new a rid fs0" and ?E = "\<lambda>w. \<not> c \<and> holds c (old_or_new a rid fs0) (unchanged a rid fs0) w"
  have simple: "simple_name n" if "n \<in> set (p_names a)" for n
    using ws that by (simp add: well_staged_def list_all_iff)
  have clear: "clear_state a rid fs0 fs \<Longrightarrow> unchanged a rid fs0 fs" for fs by (simp add: clear_state_def)
  have st: "staging_state a rid fs0 ds fs \<Longrightarrow> unchanged a rid fs0 fs" for ds fs by (simp add: staging_state_def)
  have hash: "triple (holds c ?A (clear_state a rid fs0))
      (io_bind (io_read (path_join (p_staging a) n)) (\<lambda>bytes. io_return (n, sha256_hex bytes)))
      (\<lambda>y w. y = (n, sha256_hex (staged a fs0 n)) \<and> holds c ?A (clear_state a rid fs0) w) ?E"
    if n: "n \<in> set (p_names a)" for n
    unfolding join_simple [OF simple [OF n]]
    by (rule triple_bind [OF read_staged [OF ws n clear c clear]]) (auto intro: triple_return)
  have mk: "triple (holds c ?A (clear_state a rid fs0)) (io_mkdirs (tmp_dir a rid))
      (\<lambda>_. holds c ?A (staging_state a rid fs0 [])) ?E"
  proof (rule triple_mkdirs)
    show "?A (fs_mkdirs (take k (tmp_dir a rid)) fs) \<and> unchanged a rid fs0 (fs_mkdirs (take k (tmp_dir a rid)) fs)"
      if "clear_state a rid fs0 fs" for fs k
      using unchanged_mkdirs_tmp [OF clear [OF that]] by simp
    show "staging_state a rid fs0 [] (fs_mkdirs (tmp_dir a rid) fs)" if "clear_state a rid fs0 fs" for fs
    proof -
      let ?fs = "fs_mkdirs (tmp_dir a rid) fs"
      have u: "unchanged a rid fs0 ?fs"
        using unchanged_mkdirs_tmp [OF clear [OF that], of "length (tmp_dir a rid)"] by simp
      have same: "map_of ?fs p = map_of fs p" if "\<not> prefix p (tmp_dir a rid)" for p
        using that by (simp add: lookup_mkdirs)
      have tgt: "\<not> prefix p (tmp_dir a rid)" if "prefix (target_dir a rid) p \<or> p = tmp_current a" for p
      proof
        assume "prefix p (tmp_dir a rid)"
        then consider "p = tmp_dir a rid" | "prefix p (releases_dir a)" by (auto simp: tmp_prefix)
        then show False
        proof cases
          case 1
          have "\<not> prefix (tmp_current a) (tmp_dir a rid)" using own_paths(7) [OF rid, of a "tmp_dir a rid"] by auto
          with 1 that own_paths(2) [OF rid] show False by auto
        next
          case 2
          with that own_paths(8) [OF rid 2] show False by auto
        qed
      qed
      have cl: "map_of fs p = None" if "prefix (tmp_dir a rid) p \<or> prefix (target_dir a rid) p \<or> p = tmp_current a" for p
        using that \<open>clear_state a rid fs0 fs\<close> by (auto simp: clear_state_def)
      have out: "fs_is_dir ?fs (p_output a)"
        using that by (simp add: clear_state_def fs_is_dir_def lookup_mkdirs)
      have tmp: "fs_is_dir ?fs (tmp_dir a rid)"
        using cl [of "tmp_dir a rid"] by (simp add: fs_is_dir_def lookup_mkdirs) (simp add: tmp_dir_def)
      have sub: "\<not> fs_is_dir ?fs p" if "strict_prefix (tmp_dir a rid) p" for p
      proof -
        have "prefix (tmp_dir a rid) p" "\<not> prefix p (tmp_dir a rid)"
          using that by (auto simp: strict_prefix_def dest: prefix_order.antisym)
        then show ?thesis using cl [of p] same [of p] by (simp add: fs_is_dir_def)
      qed
      show ?thesis unfolding staging_state_def using u out tmp sub same tgt cl by simp
    qed
    show "fs_is_dir fs q" if "clear_state a rid fs0 fs" "prefix q (tmp_dir a rid)" "fs_exists fs q" for fs q
      using that by (auto simp: tmp_prefix clear_state_def fs_exists_def)
  qed (use clear in blast)
  have copy: "triple (holds c ?A (staging_state a rid fs0 ds))
      (io_bind (io_read (path_join (p_staging a) n)) (io_write (path_join (tmp_dir a rid) n)))
      (\<lambda>_. holds c ?A (staging_state a rid fs0 (ds @ [n]))) ?E"
    if n: "n \<in> set (p_names a)" for n ds
    unfolding join_simple [OF simple [OF n]]
  proof (rule triple_bind_pure [OF read_staged [where B = "staging_state a rid fs0 ds" and
        E = "unchanged a rid fs0", OF ws n st c st]])
    show "triple (holds c ?A (staging_state a rid fs0 ds)) (io_write (tmp_dir a rid @ [n]) (staged a fs0 n))
      (\<lambda>_. holds c ?A (staging_state a rid fs0 (ds @ [n]))) ?E"
    proof (rule triple_write)
      show "?A (fs_write (tmp_dir a rid @ [n]) b' fs) \<and> unchanged a rid fs0 (fs_write (tmp_dir a rid @ [n]) b' fs)"
        if "staging_state a rid fs0 ds fs" for fs b'
        using unchanged_write [OF own_tmp(1) st [OF that]] by simp
      show "staging_state a rid fs0 (ds @ [n]) (fs_write (tmp_dir a rid @ [n]) (staged a fs0 n) fs)"
        if "staging_state a rid fs0 ds fs" for fs
      proof -
        have "\<not> prefix (target_dir a rid) (tmp_dir a rid @ [n])" "tmp_current a \<noteq> tmp_dir a rid @ [n]"
          "p_output a \<noteq> tmp_dir a rid @ [n]"
          using own_paths(6) [OF rid, of a "tmp_dir a rid @ [n]"] by (auto simp: tmp_current_def tmp_dir_def releases_dir_def)
        then show ?thesis
          using that unchanged_write [OF own_tmp(1) st [OF that]]
          unfolding staging_state_def fs_is_dir_def lookup_write by (auto simp: strict_prefix_def)
      qed
      show "parent_ok fs (tmp_dir a rid @ [n]) \<and> \<not> fs_is_dir fs (tmp_dir a rid @ [n])"
        if "staging_state a rid fs0 ds fs" for fs
        using that by (simp add: staging_state_def parent_ok_def strict_prefix_def)
    qed (use st in blast)
  qed
  have mv: "triple (holds c ?A (staging_state a rid fs0 (p_names a))) (io_replace (tmp_dir a rid) (target_dir a rid))
      (\<lambda>_. holds c ?A (copied_state a rid fs0)) ?E"
  proof (rule triple_replace)
    have look: "map_of (fs_replace (tmp_dir a rid) (target_dir a rid) fs) q =
      (if prefix (target_dir a rid) q then map_of fs (tmp_dir a rid @ drop (length (target_dir a rid)) q)
       else if prefix (tmp_dir a rid) q then None else map_of fs q)" for fs q
      by (rule lookup_replace [OF own_paths(1,2) [OF rid]])
    show "?A (fs_replace (tmp_dir a rid) (target_dir a rid) fs) \<and>
      copied_state a rid fs0 (fs_replace (tmp_dir a rid) (target_dir a rid) fs)"
      if s: "staging_state a rid fs0 (p_names a) fs" for fs
    proof -
      let ?fs = "fs_replace (tmp_dir a rid) (target_dir a rid) fs"
      have u: "unchanged a rid fs0 ?fs"
        using st [OF s] by (auto simp: unchanged_def look own_def)
      have "\<not> prefix (target_dir a rid) (p_output a)" "\<not> prefix (tmp_dir a rid) (p_output a)"
        "\<not> prefix (target_dir a rid) (tmp_current a)" "\<not> prefix (tmp_dir a rid) (tmp_current a)"
        using own_paths(7,8) [OF rid] by (auto simp: releases_dir_def)
      then show ?thesis
        using s u by (auto simp: copied_state_def staging_state_def fs_is_dir_def look)
    qed
    show "fs_exists fs (tmp_dir a rid) \<and> (fs_is_dir fs (tmp_dir a rid) \<longrightarrow> \<not> fs_exists fs (target_dir a rid)) \<and>
      (\<not> fs_is_dir fs (tmp_dir a rid) \<longrightarrow> \<not> fs_is_dir fs (target_dir a rid))"
      if "staging_state a rid fs0 (p_names a) fs" for fs
      using that by (simp add: staging_state_def fs_exists_def fs_is_dir_def)
  qed (use st in blast)
  show ?thesis
    unfolding stage_release_def
  proof (rule triple_bind_pure [OF triple_map_pure [OF hash]], assumption, rule triple_seq [OF mk], rule triple_seq)
    show "triple (holds c ?A (staging_state a rid fs0 []))
      (io_for (\<lambda>name. io_bind (io_read (path_join (p_staging a) name)) (io_write (path_join (tmp_dir a rid) name))) (p_names a))
      (\<lambda>_. holds c ?A (staging_state a rid fs0 (p_names a))) ?E"
      by (rule triple_for_done) (use copy in simp)
    show "triple (holds c ?A (staging_state a rid fs0 (p_names a)))
      (io_seq (io_replace (tmp_dir a rid) (target_dir a rid))
        (io_return (dict_of (map (\<lambda>n. (n, sha256_hex (staged a fs0 n))) (p_names a)))))
      (\<lambda>hashes w. hashes = staged_hashes a fs0 \<and> holds c ?A (copied_state a rid fs0) w) ?E"
      by (rule triple_seq [OF mv]) (auto intro: triple_return simp: staged_hashes_def)
  qed
qed


lemma swap_pointer_triple:
  assumes rid: "rid = CHR ''r'' # s" and c: "c \<longrightarrow> ready a fs0" and out: "p_output a \<noteq> []"
  shows "triple (holds c (old_or_new a rid fs0) (copied_state a rid fs0)) (swap_pointer a rid (staged_hashes a fs0))
    (\<lambda>_. holds c (old_or_new a rid fs0) (swapped a rid fs0))
    (\<lambda>w. \<not> c \<and> holds c (old_or_new a rid fs0) (unchanged a rid fs0) w)"
proof -
  let ?A = "old_or_new a rid fs0" and ?E = "\<lambda>w. \<not> c \<and> holds c (old_or_new a rid fs0) (unchanged a rid fs0) w"
  let ?b = "payload_bytes a rid (staged_hashes a fs0)"
  let ?B = "\<lambda>fs. unchanged a rid fs0 fs \<and> fs_is_dir fs (target_dir a rid) \<and>
     map_of fs (tmp_current a) = Some (File ?b) \<and>
     (\<forall>n \<in> set (p_names a). map_of fs (target_dir a rid @ [n]) = Some (File (staged a fs0 n)))"
  have cur: "\<not> own a rid (current_file a)" "\<not> prefix (current_file a) (releases_dir a)"
    using own_paths(5) [OF rid, of a "current_file a"] match_paths [of a "current_file a"] out
    by (auto simp: own_def lock_paths(6) [symmetric] current_file_def releases_dir_def) (metis current_file_def lock_paths(6))
  have wr: "triple (holds c ?A (copied_state a rid fs0)) (io_write (tmp_current a) ?b) (\<lambda>_. holds c ?A ?B) ?E"
  proof (rule triple_write)
    show "?A (fs_write (tmp_current a) b' fs) \<and> unchanged a rid fs0 (fs_write (tmp_current a) b' fs)"
      if "copied_state a rid fs0 fs" for fs b'
      using that unchanged_write [OF own_tmp(3)] by (simp add: copied_state_def)
    show "?B (fs_write (tmp_current a) ?b fs)" if "copied_state a rid fs0 fs" for fs
    proof -
      have "tmp_current a \<noteq> target_dir a rid" "target_dir a rid @ [n] \<noteq> tmp_current a" for n
        by (auto simp: tmp_current_def target_dir_def releases_dir_def)
      then show ?thesis using that unchanged_write [OF own_tmp(3)] by (auto simp: copied_state_def fs_is_dir_def)
    qed
    show "parent_ok fs (tmp_current a) \<and> \<not> fs_is_dir fs (tmp_current a)" if "copied_state a rid fs0 fs" for fs
      using that by (simp add: copied_state_def parent_ok_def fs_is_dir_def) (simp add: tmp_current_def)
  qed (auto simp: copied_state_def)
  have mv: "triple (holds c ?A ?B) (io_replace (tmp_current a) (current_file a)) (\<lambda>_. holds c ?A (swapped a rid fs0)) ?E"
  proof (rule triple_replace)
    have look: "map_of (fs_replace (tmp_current a) (current_file a) fs) q =
      (if prefix (current_file a) q then map_of fs (tmp_current a @ drop (length (current_file a)) q)
       else if prefix (tmp_current a) q then None else map_of fs q)" for fs q
      by (rule lookup_replace [OF own_paths(3,4) [OF rid]])
    show "?A (fs_replace (tmp_current a) (current_file a) fs) \<and> swapped a rid fs0 (fs_replace (tmp_current a) (current_file a) fs)"
      if B: "?B fs" for fs
    proof -
      have "\<not> prefix (current_file a) (target_dir a rid @ s)" "\<not> prefix (tmp_current a) (target_dir a rid @ s)" for s
        using own_paths(5) [OF rid, of a "target_dir a rid @ s"] own_paths(7) [OF rid, of a "target_dir a rid @ s"] by auto
      from this [of "[]"] this [of "[n]" for n] have "swapped a rid fs0 (fs_replace (tmp_current a) (current_file a) fs)"
        using B by (auto simp: swapped_def look fs_is_dir_def unchanged_def own_def)
      then show ?thesis by simp
    qed
    show "fs_exists fs (tmp_current a) \<and> (fs_is_dir fs (tmp_current a) \<longrightarrow> \<not> fs_exists fs (current_file a)) \<and>
      (\<not> fs_is_dir fs (tmp_current a) \<longrightarrow> \<not> fs_is_dir fs (current_file a))" if "c" "?B fs" for fs
      using that c cur by (auto simp: fs_exists_def fs_is_dir_def ready_def unchanged_def)
  qed auto
  show ?thesis unfolding swap_pointer_def
  proof (rule triple_seq [OF wr], rule triple_seq [OF _ mv])
    show "triple (holds c ?A ?B) io_call (\<lambda>_. holds c ?A ?B) ?E"
      by (rule triple_conseq [OF triple_call [where B = ?B]]) (auto simp: holds_def)
  qed
qed

lemma unchanged_remove: "own a rid p \<or> prefix p (releases_dir a) \<Longrightarrow> unchanged a rid fs0 fs \<Longrightarrow> unchanged a rid fs0 (fs_remove p fs)"
  by (auto simp: unchanged_def)

lemma unchanged_rmtree:
  assumes "p = tmp_dir a rid \<or> p = target_dir a rid" "unchanged a rid fs0 fs"
  shows "unchanged a rid fs0 (fs_remove_tree p fs)" "unchanged a rid fs0 (fs_remove_tree p (take k fs) @ drop k fs)"
  using assms by (auto simp: unchanged_def own_def lookup_remove_some simp del: map_of_append)

lemma cleanup_triple:
  "triple (holds False (old_or_new a rid fs0) (unchanged a rid fs0)) (cleanup a rid swapping)
    (\<lambda>_. holds False (old_or_new a rid fs0) (unchanged a rid fs0)) (holds False (old_or_new a rid fs0) (unchanged a rid fs0))"
proof -
  let ?P = "holds False (old_or_new a rid fs0) (unchanged a rid fs0)"
  have unlink: "triple ?P (io_ignore (io_unlink p)) (\<lambda>_. ?P) ?P" if "own a rid p" for p
    by (rule triple_conseq [OF triple_unlink]) (use that unchanged_remove in auto)
  have rmtree: "triple ?P (io_rmtree p) (\<lambda>_. ?P) ?P" if "p = tmp_dir a rid \<or> p = target_dir a rid" for p
    by (rule triple_conseq [OF triple_rmtree]) (use that unchanged_rmtree in auto)
  have rmdir: "triple ?P (io_ignore (io_rmdir (releases_dir a))) (\<lambda>_. ?P) ?P"
    by (rule triple_conseq [OF triple_rmdir]) (use unchanged_remove in auto)
  have ret: "triple ?P (io_return ()) (\<lambda>_. ?P) ?P"
    by (auto intro: triple_return)
  have guard: "triple ?P (io_bind (io_ask g) (\<lambda>b. if b then m else io_return ())) (\<lambda>_. ?P) ?P"
    if "triple ?P m (\<lambda>_. ?P) ?P" for g m
    by (rule triple_ask_if) (use that ret in \<open>auto intro: triple_if\<close>)
  have read: "triple ?P (io_read p) (\<lambda>_. ?P) ?P" for p
    by (rule triple_conseq [OF triple_read [where c = False and A = "old_or_new a rid fs0" and
          B = "unchanged a rid fs0" and E = "unchanged a rid fs0"]])
      (auto simp: holds_def)
  have pass: "triple ?P (io_return x) (\<lambda>_. ?P) ?P" "triple ?P (io_raise e) (\<lambda>_. ?P) ?P" for x :: bool and e
    by (auto intro: triple_return triple_raise)
  have active: "triple ?P (is_active a rid) (\<lambda>_. ?P) ?P"
    unfolding is_active_def
  proof (intro triple_ask_if triple_if pass triple_catch [where R = ?P] triple_bind [OF read])
    show "triple ?P (case utf8_decode bytes of
              None \<Rightarrow> io_raise (ValueError ''utf-8'')
            | Some text \<Rightarrow>
                (case loads (universal_newlines text) of
                   Raise e \<Rightarrow> io_raise e
                 | Ok (JObj c_data) \<Rightarrow> io_return (jget c_data ''release_id'' = JStr rid)
                 | Ok _ \<Rightarrow> io_raise (AttributeError ''get''))) (\<lambda>_. ?P) ?P" for bytes
      by (simp add: pass split: option.split result.split json.split)
  qed
  have inactive: "triple ?P (io_bind (is_active a rid) (\<lambda>active. if active then io_return () else io_rmtree (target_dir a rid)))
      (\<lambda>_. ?P) ?P"
    by (rule triple_bind [OF active]) (use ret rmtree in \<open>auto intro: triple_if\<close>)
  show ?thesis
    unfolding cleanup_def
  proof (intro triple_seq [where R = ?P] guard)
    show "triple ?P (io_bind (io_ask (\<lambda>fs. filter (tmp_match a) (map fst fs)))
        (io_for (\<lambda>p. io_ignore (io_unlink p)))) (\<lambda>_. ?P) ?P"
    proof (rule triple_bind)
      show "triple ?P (io_ask (\<lambda>fs. filter (tmp_match a) (map fst fs)))
        (\<lambda>ps w. (\<forall>p \<in> set ps. tmp_match a p) \<and> ?P w) ?P" by (rule triple_ask) auto
      show "triple (\<lambda>w. (\<forall>p \<in> set ps. tmp_match a p) \<and> ?P w) (io_for (\<lambda>p. io_ignore (io_unlink p)) ps) (\<lambda>_. ?P) ?P" for ps
        by (rule triple_pure, rule triple_for, rule unlink) (auto simp: own_def)
    qed
  qed (use unlink [OF own_tmp(3)] rmtree inactive rmdir in auto)
qed

section \<open>The publication\<close>

text \<open>Before the lock: only the directories above the release have appeared.\<close>

definition same_below :: "publication \<Rightarrow> fs \<Rightarrow> fs \<Rightarrow> bool" where
  "same_below a fs0 fs \<longleftrightarrow> (\<forall>p. \<not> prefix p (releases_dir a) \<longrightarrow> map_of fs p = map_of fs0 p)"

abbreviation dirs_above :: "publication \<Rightarrow> fs \<Rightarrow> bool" where
  "dirs_above a fs \<equiv> (\<forall>q. prefix q (releases_dir a) \<longrightarrow> fs_exists fs q \<longrightarrow> fs_is_dir fs q)"

lemma same_below_mkdirs:
  "prefix p (releases_dir a) \<Longrightarrow> same_below a fs0 fs \<Longrightarrow> same_below a fs0 (fs_mkdirs p fs)"
  unfolding same_below_def lookup_mkdirs by (auto dest: prefix_order.trans)

lemma dirs_above_mkdirs: "dirs_above a fs \<Longrightarrow> dirs_above a (fs_mkdirs p fs)"
  by (auto simp: fs_exists_def fs_is_dir_def lookup_mkdirs)

lemma same_below_unchanged: "same_below a fs0 fs \<Longrightarrow> unchanged a rid fs0 fs"
  by (simp add: same_below_def unchanged_def)

lemma same_below_release_id: "same_below a fs0 fs \<Longrightarrow> release_id a fs = release_id a fs0"
  by (simp add: same_below_def release_id_def fs_exists_def)

lemma fresh_own: "fresh a fs0 \<Longrightarrow> own a (release_id a fs0) p \<Longrightarrow> map_of fs0 p = None"
  by (force simp: fresh_def list_all_iff map_of_eq_None_iff)

lemma same_below_clear:
  assumes "same_below a fs0 fs" "dirs_above a fs" "fs_is_dir fs (p_output a)" "fresh a fs0" "p_output a \<noteq> []"
  shows "clear_state a (release_id a fs0) fs0 (fs_write (lock_file a) b fs)"
proof -
  let ?rid = "release_id a fs0"
  have rid: "?rid = CHR ''r'' # tl ?rid" by (rule release_id_head)
  have none: "map_of fs p = None"
    if p: "prefix (tmp_dir a ?rid) p \<or> prefix (target_dir a ?rid) p \<or> p = tmp_current a" for p
  proof -
    have "\<not> prefix p (releases_dir a)" using p own_paths(8) [OF rid, of p a] by auto
    moreover have "own a ?rid p" using p by (auto simp: own_def)
    ultimately show ?thesis using assms(1) fresh_own [OF assms(4)] by (simp add: same_below_def)
  qed
  have lock: "\<not> (prefix (tmp_dir a ?rid) (lock_file a) \<or> prefix (target_dir a ?rid) (lock_file a) \<or> lock_file a = tmp_current a)"
    using lock_paths(3-5) [OF assms(5)] by auto
  have "q \<noteq> lock_file a" if "prefix q (releases_dir a)" for q
    using that lock_paths(1) [OF assms(5)] by auto
  moreover from this have "p_output a \<noteq> lock_file a" by (simp add: releases_dir_def)
  ultimately show ?thesis
    using none lock assms(2,3) unchanged_write [OF own_tmp(4) same_below_unchanged [OF assms(1)]]
    by (auto simp: clear_state_def fs_exists_def fs_is_dir_def)
qed

lemma release_lock_triple:
  assumes "\<And>fs. A fs \<Longrightarrow> B fs \<Longrightarrow> A (fs_remove (lock_file a) fs) \<and> B (fs_remove (lock_file a) fs)"
  shows "triple (holds c A B) (release_lock a) (\<lambda>_. holds c A B) E"
  unfolding release_lock_def
proof (rule triple_seq [where R = "holds c A B"])
  show "triple (holds c A B) (io_ignore io_call) (\<lambda>_. holds c A B) E"
    unfolding io_call_def by (rule triple_conseq [OF triple_ignore_op [where A = A and B = B and c = c]]) auto
  show "triple (holds c A B) (io_ignore (io_unlink (lock_file a))) (\<lambda>_. holds c A B) E"
    by (rule triple_conseq [OF triple_unlink [where A = A and B = B and c = c]]) (use assms in auto)
qed

lemma swapped_remove_lock:
  assumes "swapped a rid fs0 fs" "p_output a \<noteq> []"
  shows "swapped a rid fs0 (fs_remove (lock_file a) fs)"
proof -
  have "target_dir a rid \<noteq> lock_file a" "target_dir a rid @ [n] \<noteq> lock_file a" for n
    using lock_paths(4) [OF assms(2), of rid] by (auto dest: prefixI [OF sym])
  then show ?thesis using assms lock_paths(6) [OF assms(2)]
    by (auto simp: swapped_def own_def fs_is_dir_def)
qed

lemma publish_body_triple:
  assumes rid: "rid = CHR ''r'' # s" and ws: "well_staged a rid" and c: "c \<longrightarrow> ready a fs0"
  shows "triple (holds c (old_or_new a rid fs0) (clear_state a rid fs0)) (publish_body a rid)
    (\<lambda>_. holds c (old_or_new a rid fs0) (swapped a rid fs0))
    (\<lambda>w. \<not> c \<and> holds c (old_or_new a rid fs0) (unchanged a rid fs0) w)"
proof -
  let ?A = "old_or_new a rid fs0" and ?E = "\<lambda>w. \<not> c \<and> holds c (old_or_new a rid fs0) (unchanged a rid fs0) w"
  have out: "p_output a \<noteq> []" using ws by (simp add: well_staged_def)
  have handler: "triple ?E (io_seq (cleanup a rid b) (io_raise e)) Q ?E" for b e and Q :: "'b \<Rightarrow> world \<Rightarrow> bool"
  proof (rule triple_pure)
    assume "\<not> c"
    then have "triple (holds c ?A (unchanged a rid fs0)) (cleanup a rid b) (\<lambda>_. ?E) ?E"
      by (intro triple_conseq [OF cleanup_triple [of a rid fs0 b]]) (auto simp: holds_def)
    then show "triple (holds c ?A (unchanged a rid fs0)) (io_seq (cleanup a rid b) (io_raise e)) Q ?E"
      by (rule triple_seq) (rule triple_raise)
  qed
  show ?thesis unfolding publish_body_def
  proof (rule triple_bind_pure [OF triple_catch [OF stage_release_triple [OF rid ws c] handler]])
    show "triple (holds c ?A (copied_state a rid fs0))
      (io_catch (swap_pointer a rid (staged_hashes a fs0)) (\<lambda>e. io_seq (cleanup a rid True) (io_raise e)))
      (\<lambda>_. holds c ?A (swapped a rid fs0)) ?E"
      by (rule triple_catch [OF swap_pointer_triple [OF rid c out] handler])
  qed
qed

lemma publish_triple:
  fixes a fs0
  defines "rid \<equiv> release_id a fs0"
  assumes fresh: "fresh a fs0" and ws: "well_staged a rid" and c: "c \<longrightarrow> ready a fs0"
  shows "triple (holds c (old_or_new a rid fs0) (\<lambda>fs. fs = fs0)) (atomic_publish_versioned_release a)
    (\<lambda>x w. x = (rid, target_dir a rid) \<and> holds c (old_or_new a rid fs0) (swapped a rid fs0) w)
    (\<lambda>w. \<not> c \<and> holds c (old_or_new a rid fs0) (unchanged a rid fs0) w)"
proof -
  let ?A = "old_or_new a rid fs0" and ?E = "\<lambda>w. \<not> c \<and> holds c (old_or_new a rid fs0) (unchanged a rid fs0) w"
  let ?B1 = "\<lambda>fs. same_below a fs0 fs \<and> (c \<longrightarrow> dirs_above a fs)"
  let ?B2 = "\<lambda>fs. same_below a fs0 fs \<and> dirs_above a fs \<and> (\<forall>q. prefix q (releases_dir a) \<longrightarrow> q \<noteq> [] \<longrightarrow> fs_is_dir fs q)"
  have rid: "rid = CHR ''r'' # tl rid" unfolding rid_def by (rule release_id_head)
  have out: "p_output a \<noteq> []" using ws by (simp add: well_staged_def)
  have out_above: "prefix (take k (p_output a)) (releases_dir a)" "prefix (take k (releases_dir a)) (releases_dir a)" for k
  proof -
    show "prefix (take k (p_output a)) (releases_dir a)"
      unfolding releases_dir_def by (rule prefix_prefix [OF take_is_prefix])
    show "prefix (take k (releases_dir a)) (releases_dir a)" by (rule take_is_prefix)
  qed
  have start: "?B1 fs0" using c by (auto simp: same_below_def ready_def list_all_iff set_prefixes_eq)
  have mk1: "triple (holds c ?A (\<lambda>fs. fs = fs0)) (io_mkdirs (p_output a)) (\<lambda>_. holds c ?A ?B1) ?E"
  proof (rule triple_mkdirs)
    have b1: "?B1 (fs_mkdirs (take k (p_output a)) fs0)" for k
      using same_below_mkdirs [OF out_above(1)] dirs_above_mkdirs start by blast
    show "?A (fs_mkdirs (take k (p_output a)) fs) \<and> unchanged a rid fs0 (fs_mkdirs (take k (p_output a)) fs)"
      if "fs = fs0" for fs k
      using b1 [of k] same_below_unchanged that by blast
    show "?B1 (fs_mkdirs (p_output a) fs)" if "fs = fs0" for fs using b1 [of "length (p_output a)"] that by simp
    show "fs_is_dir fs q" if "c" "fs = fs0" "prefix q (p_output a)" "fs_exists fs q" for fs q
      using start that by (simp add: releases_dir_def)
  qed (simp add: unchanged_def)
  have mk2: "triple (holds c ?A ?B1) (io_mkdirs (releases_dir a)) (\<lambda>_. holds c ?A ?B2) ?E"
  proof (rule triple_mkdirs)
    show "?A (fs_mkdirs (take k (releases_dir a)) fs) \<and> unchanged a rid fs0 (fs_mkdirs (take k (releases_dir a)) fs)"
      if "?B1 fs" for fs k
      using same_below_mkdirs [OF out_above(2)] same_below_unchanged that by blast
    show "?B2 (fs_mkdirs (releases_dir a) fs)"
      if "?B1 fs" "\<forall>q. prefix q (releases_dir a) \<longrightarrow> fs_exists fs q \<longrightarrow> fs_is_dir fs q" for fs
    proof (intro conjI dirs_above_mkdirs [OF that(2)] same_below_mkdirs allI impI)
      show "fs_is_dir (fs_mkdirs (releases_dir a) fs) q" if "prefix q (releases_dir a)" "q \<noteq> []" for q
        using that \<open>\<forall>q. prefix q (releases_dir a) \<longrightarrow> fs_exists fs q \<longrightarrow> fs_is_dir fs q\<close>
        by (auto simp: fs_is_dir_def fs_exists_def lookup_mkdirs)
    qed (use that in auto)
    show "unchanged a rid fs0 fs" if "?B1 fs" for fs using that same_below_unchanged by blast
  qed blast
  have ask: "triple (holds c ?A ?B2) (io_ask (release_id a)) (\<lambda>x w. x = rid \<and> holds c ?A ?B2 w) ?E"
    by (rule triple_ask) (auto simp: holds_def rid_def same_below_release_id)
  have lock: "triple (holds c ?A ?B2) (io_write (lock_file a) []) (\<lambda>_. holds c ?A (clear_state a rid fs0)) ?E"
  proof (rule triple_write)
    have none: "map_of fs (lock_file a) = None" if "?B2 fs" for fs
      using that fresh_own [OF fresh, of "lock_file a"] lock_paths(1) [OF out] own_tmp(4) [of a rid]
      by (simp add: same_below_def rid_def)
    show "?A (fs_write (lock_file a) b' fs) \<and> unchanged a rid fs0 (fs_write (lock_file a) b' fs)" if "?B2 fs" for fs b'
      using that unchanged_write [OF own_tmp(4)] same_below_unchanged by blast
    show "clear_state a rid fs0 (fs_write (lock_file a) [] fs)" if "?B2 fs" for fs
      unfolding rid_def by (rule same_below_clear) (use that fresh out in \<open>auto simp: releases_dir_def\<close>)
    show "parent_ok fs (lock_file a) \<and> \<not> fs_is_dir fs (lock_file a)" if "?B2 fs" for fs
      using that none [OF that] prefixeq_butlast [of "p_output a"]
      by (auto simp: parent_ok_def fs_is_dir_def lock_file_def releases_dir_def)
    show "unchanged a rid fs0 fs" if "?B2 fs" for fs using that same_below_unchanged by blast
  qed
  have call: "triple (holds c ?A (clear_state a rid fs0)) io_call (\<lambda>_. holds c ?A (clear_state a rid fs0)) ?E"
    by (rule triple_conseq [OF triple_call [where B = "clear_state a rid fs0"]]) (auto simp: holds_def clear_state_def)
  have body: "triple (holds c ?A (clear_state a rid fs0)) (io_finally (publish_body a rid) (release_lock a))
      (\<lambda>_. holds c ?A (swapped a rid fs0)) ?E"
  proof (rule triple_finally [OF publish_body_triple [OF rid ws c]])
    have keep: "?A (fs_remove (lock_file a) fs)" if "?A fs" for fs
      using that swapped_remove_lock [OF _ out] unchanged_remove [of a rid "lock_file a"] own_tmp(4) by blast
    show "triple ?E (release_lock a) (\<lambda>_. ?E) ?E"
    proof (rule triple_pure)
      assume "\<not> c"
      then show "triple (holds c ?A (unchanged a rid fs0)) (release_lock a) (\<lambda>_. ?E) ?E"
        by (intro triple_conseq [OF release_lock_triple [where A = ?A and B = "unchanged a rid fs0" and c = c]])
          (use keep unchanged_remove [of a rid "lock_file a"] own_tmp(4) in auto)
    qed
    show "triple (holds c ?A (swapped a rid fs0)) (release_lock a) (\<lambda>_. holds c ?A (swapped a rid fs0)) ?E"
      by (rule release_lock_triple) (use keep swapped_remove_lock [OF _ out] in blast)
  qed
  show ?thesis unfolding atomic_publish_versioned_release_def
    by (rule triple_seq [OF mk1], rule triple_seq [OF mk2], rule triple_bind_pure [OF ask], rule triple_seq [OF lock],
      rule triple_seq [OF call], rule triple_seq [OF body], rule triple_return) simp
qed

section \<open>What was published resolves\<close>

definition manifest_agrees :: "publication \<Rightarrow> fs \<Rightarrow> pyobj \<Rightarrow> bool" where
  "manifest_agrees a fs m \<longleftrightarrow>
     jget m ''sha256'' = JStr (p_gold_sha256 a) \<and>
     dict_get m ''release_stage'' (JStr ''candidate'') = JStr (p_stage a) \<and>
     dict_get m ''phase2_accepted'' (JBool False) = JBool (p_accepted a) \<and>
     jget m ''multi_hop_judgment_ref'' = JStr ''multi_hop_judgment.jsonl'' \<and>
     jget m ''multi_hop_judgment_sha256'' = JStr (sha256_hex (staged a fs ''multi_hop_judgment.jsonl'')) \<and>
     (p_stage a = ''approved'' \<longrightarrow>
        jget m ''multi_hop_audit_ref'' = JStr ''multi_hop_audit.jsonl'' \<and>
        jget m ''multi_hop_audit_sha256'' = JStr (sha256_hex (staged a fs ''multi_hop_audit.jsonl'')) \<and>
        (truthy (p_candidate a) \<longrightarrow> jget m ''candidate_release_id'' = p_candidate a))"

text \<open>
  The arguments describe what is staged, as those of the two callers do: the artifacts of the stage,
  their checksums, and a manifest that names them.
\<close>

definition consistent :: "publication \<Rightarrow> fs \<Rightarrow> bool" where
  "consistent a fs \<longleftrightarrow>
     p_names a = (if p_stage a = ''approved'' then approved_artifacts else candidate_artifacts) \<and>
     p_gold_sha256 a = sha256_hex (staged a fs ''golden_1039.jsonl'') \<and>
     p_manifest_sha256 a = sha256_hex (staged a fs ''golden_manifest.json'') \<and>
     (p_candidate a = JNull \<or> is_str (p_candidate a)) \<and>
     simple_name (release_id a fs) \<and>
     (\<exists>t m. utf8_decode (staged a fs ''golden_manifest.json'') = Some t \<and> loads t = Ok (JObj m) \<and>
        manifest_agrees a fs m)"

lemma payload_plain:
  assumes "p_candidate a = JNull \<or> is_str (p_candidate a)"
  shows "js_plain (current_payload a rid hashes)"
proof -
  let ?arts = "dict_of (map (\<lambda>name. (name, JObj [(''path'', JStr name), (''sha256'', JStr (dict_get hashes name []))]))
    (sort (p_names a)))"
  have "js_plain v" if "(k, v) \<in> set ?arts" for k v
  proof -
    have "map_of ?arts k = Some v" by (rule map_of_is_SomeI [OF wf_dict_of that])
    then have "(k, v) \<in> set (map (\<lambda>name. (name, JObj [(''path'', JStr name), (''sha256'', JStr (dict_get hashes name []))]))
      (sort (p_names a)))" unfolding map_of_dict_of by (auto dest: map_of_SomeD)
    then show ?thesis by auto
  qed
  then have "list_all (\<lambda>(k, v). js_plain v) ?arts" by (auto simp: list_all_iff)
  then show ?thesis using assms wf_dict_of by (auto simp: current_payload_def is_str_iff)
qed

lemma payload_text:
  assumes "p_candidate a = JNull \<or> is_str (p_candidate a)"
  shows "rbind (Ok (payload_bytes a rid hashes)) (\<lambda>b. case utf8_decode b of
       None \<Rightarrow> Raise (ValueError ''invalid utf-8'') | Some t \<Rightarrow> Ok (universal_newlines t)) =
     Ok (dumps js_pretty (current_payload a rid hashes) @ [CHR 0x0A])"
proof -
  let ?d = "dumps js_pretty (current_payload a rid hashes)"
  note dumps_text [OF js_text_pretty payload_plain [OF assms], of rid hashes]
  moreover from this have "is_ascii (?d @ [CHR 0x0A])" by simp
  moreover from this have "utf8_decode (?d @ [CHR 0x0A]) = Some (?d @ [CHR 0x0A])"
    by (metis utf8_decode_encode utf8_encode_ascii)
  ultimately show ?thesis by (simp add: payload_bytes_def utf8_encode_ascii)
qed


lemma pointer_read:
  assumes cur: "map_of fs (current_file a) = Some (File (payload_bytes a rid hashes))"
    and cand: "p_candidate a = JNull \<or> is_str (p_candidate a)"
  obtains cd es where "read_pointer fs (current_file a) = Ok cd"
    "jget cd ''release_id'' = JStr rid" "jget cd ''release_dir'' = JStr (''releases/'' @ rid)"
    "dict_get cd ''release_stage'' (JStr ''candidate'') = JStr (p_stage a)"
    "dict_get cd ''phase2_accepted'' (JBool False) = JBool (p_accepted a)"
    "jget cd ''candidate_release_id'' = p_candidate a"
    "jget cd ''gold_sha256'' = JStr (p_gold_sha256 a)" "jget cd ''manifest_sha256'' = JStr (p_manifest_sha256 a)"
    "jget cd ''artifacts'' = JObj es"
    "\<And>n. n \<in> set (p_names a) \<Longrightarrow> map_of es n =
       Some (JObj [(''path'', JStr n), (''sha256'', JStr (dict_get hashes n []))])"
proof -
  let ?art = "\<lambda>n. JObj [(''path'', JStr n), (''sha256'', JStr (dict_get hashes n []))]"
  let ?arts = "dict_of (map (\<lambda>name. (name, ?art name)) (sort (p_names a)))"
  let ?v = "current_payload a rid hashes"
  obtain fields where fields: "?v = JObj fields" by (simp add: current_payload_def)
  have plain: "js_plain ?v" by (rule payload_plain [OF cand])
  obtain cd where cd: "js_ordered js_pretty ?v = JObj cd"
    "\<And>k. map_of cd k = map_option (js_ordered js_pretty) (map_of fields k)"
    using js_ordered_fields [of fields js_pretty] plain fields by auto
  obtain es where es: "js_ordered js_pretty (JObj ?arts) = JObj es"
    "\<And>k. map_of es k = map_option (js_ordered js_pretty) (map_of ?arts k)"
    using js_ordered_fields [of ?arts js_pretty, OF wf_dict_of] by blast
  have art: "js_ordered js_pretty (?art n) = ?art n" for n
    by (simp add: key_order_def js_pretty_def)
  have "loads (dumps js_pretty ?v @ [CHR 0x0A]) = Ok (JObj cd)"
    using loads_dumps [OF js_separators_styles(3) plain, of "[CHR 0x0A]"] cd(1) by (simp add: is_ws_def)
  then have ptext: "rbind (fs_read_text fs (current_file a)) loads = Ok (JObj cd)"
    using payload_text [OF cand, of rid hashes] cur by (simp add: fs_read_text_def fs_read_def)
  have cand': "js_ordered js_pretty (p_candidate a) = p_candidate a" using cand by (auto simp: is_str_iff)
  have get: "map_of cd k = map_option (js_ordered js_pretty) (map_of fields k)" for k by (rule cd(2))
  have f: "fields = (case ?v of JObj fs \<Rightarrow> fs | _ \<Rightarrow> [])" by (simp add: fields)
  have "read_pointer fs (current_file a) = Ok cd"
    unfolding read_pointer_def ptext by (simp add: obj_fields_def get f current_payload_def)
  moreover have "map_of es n = Some (?art n)" if "n \<in> set (p_names a)" for n
  proof -
    have "map_of ?arts n = Some (?art n)"
      using that by (simp add: map_of_dict_of rev_map map_of_map_restrict restrict_map_def)
    then show ?thesis by (simp only: es(2) option.map art)
  qed
  moreover have "map_of fields ''artifacts'' = Some (JObj ?arts)" by (simp add: f current_payload_def)
  then have "map_of cd ''artifacts'' = Some (JObj es)" by (simp only: get option.map es(1))
  moreover have "map_of cd ''release_id'' = Some (JStr rid)" "map_of cd ''release_dir'' = Some (JStr (''releases/'' @ rid))"
    "map_of cd ''release_stage'' = Some (JStr (p_stage a))" "map_of cd ''phase2_accepted'' = Some (JBool (p_accepted a))"
    "map_of cd ''candidate_release_id'' = Some (p_candidate a)" "map_of cd ''gold_sha256'' = Some (JStr (p_gold_sha256 a))"
    "map_of cd ''manifest_sha256'' = Some (JStr (p_manifest_sha256 a))"
    by (simp_all add: get f current_payload_def cand')
  ultimately show ?thesis by (intro that [of cd es]) (simp_all only: dict_get_Some)
qed

lemma path_join_target:
  assumes "simple_name rid"
  shows "path_join (p_output a) (''releases/'' @ rid) = target_dir a rid"
proof -
  have "split_on (CHR ''/'') (''releases/'' @ s) = ''releases'' # split_on (CHR ''/'') s" for s
    by simp
  then have "path_parts (''releases/'' @ s) = ''releases'' # path_parts s" for s
    by (simp only: path_parts_def filter.simps) simp
  with assms show ?thesis by (simp add: path_join_def simple_name_def target_dir_def releases_dir_def)
qed


lemma swapped_resolves:
  assumes sw: "swapped a rid fs0 fs" and co: "consistent a fs0" and rid: "rid = release_id a fs0"
    and ap: "require_approved \<longrightarrow> p_stage a = ''approved'' \<and> p_accepted a"
  shows "\<exists>r. resolve_current_release fs (p_output a) require_approved = Ok r \<and>
    r_release_id r = JStr rid \<and> r_release_dir r = target_dir a rid \<and>
    r_artifacts r = map (\<lambda>n. (n, target_dir a rid @ [n])) (p_names a)"
proof -
  let ?h = "staged_hashes a fs0"
  let ?sha = "\<lambda>n. sha256_hex (staged a fs0 n)"
  have names: "p_names a = (if p_stage a = ''approved'' then approved_artifacts else candidate_artifacts)"
    and cand: "p_candidate a = JNull \<or> is_str (p_candidate a)" and simple_rid: "simple_name rid"
    using co rid by (simp_all add: consistent_def)
  obtain t m where m: "utf8_decode (staged a fs0 ''golden_manifest.json'') = Some t" "loads t = Ok (JObj m)"
    "manifest_agrees a fs0 m" using co by (auto simp: consistent_def)
  have cur: "map_of fs (current_file a) = Some (File (payload_bytes a rid ?h))"
    and dir: "fs_is_dir fs (target_dir a rid)"
    and files: "\<And>n. n \<in> set (p_names a) \<Longrightarrow> map_of fs (target_dir a rid @ [n]) = Some (File (staged a fs0 n))"
    using sw by (simp_all add: swapped_def)
  obtain cd es where p: "read_pointer fs (current_file a) = Ok cd"
    "jget cd ''release_id'' = JStr rid" "jget cd ''release_dir'' = JStr (''releases/'' @ rid)"
    "dict_get cd ''release_stage'' (JStr ''candidate'') = JStr (p_stage a)"
    "dict_get cd ''phase2_accepted'' (JBool False) = JBool (p_accepted a)"
    "jget cd ''candidate_release_id'' = p_candidate a"
    "jget cd ''gold_sha256'' = JStr (p_gold_sha256 a)" "jget cd ''manifest_sha256'' = JStr (p_manifest_sha256 a)"
    "jget cd ''artifacts'' = JObj es"
    "\<And>n. n \<in> set (p_names a) \<Longrightarrow> map_of es n =
       Some (JObj [(''path'', JStr n), (''sha256'', JStr (dict_get ?h n []))])"
    by (rule pointer_read [OF cur cand]) blast
  have sha: "dict_get ?h n [] = ?sha n" if "n \<in> set (p_names a)" for n
    using that by (simp add: staged_hashes_def dict_get_def map_of_dict_of rev_map map_of_map_restrict restrict_map_def)
  have simple: "path_join d n = d @ [n]" if "n \<in> set (p_names a)" for d n
  proof -
    have "simple_name n" using that unfolding names
      by (auto simp: approved_artifacts_def candidate_artifacts_def simple_name_def path_parts_def split: if_splits)
    then show ?thesis by (rule join_simple)
  qed
  have entry: "artifact_sha (JObj es) n = Ok (JStr (?sha n))" if "n \<in> set (p_names a)" for n
    using p(10) [OF that] by (simp add: artifact_sha_def artifact_entry_def obj_fields_def dict_item_def sha [OF that])
  have chk: "check_artifact fs (target_dir a rid) (JObj es) n = Ok (n, target_dir a rid @ [n])"
    if "n \<in> set (p_names a)" for n
    unfolding check_artifact_Ok using p(10) [OF that] files [OF that] simple [OF that] sha [OF that]
    by (auto simp: dict_get_def)
  let ?paths = "map (\<lambda>n. (n, target_dir a rid @ [n])) (p_names a)"
  have paths: "mapM (check_artifact fs (target_dir a rid) (JObj es)) (p_names a) = Ok ?paths"
    by (rule mapM_Ok_map) (rule chk)
  have in_names: "''golden_1039.jsonl'' \<in> set (p_names a)" "''golden_manifest.json'' \<in> set (p_names a)"
    "''multi_hop_judgment.jsonl'' \<in> set (p_names a)" "p_stage a = ''approved'' \<Longrightarrow> ''multi_hop_audit.jsonl'' \<in> set (p_names a)"
    by (simp_all add: names approved_artifacts_def candidate_artifacts_def)
  have man: "read_manifest fs (the (map_of ?paths ''golden_manifest.json'')) = Ok m"
    using in_names(2) files m
    by (simp add: map_of_map_restrict restrict_map_def read_manifest_def fs_read_def obj_fields_def)
  have chkm: "check_manifest m (JStr (p_gold_sha256 a)) (JStr (p_stage a)) (JBool (p_accepted a)) (p_candidate a) (JObj es) = Ok ()"
    using m(3) entry [OF in_names(3)] entry [OF in_names(4)]
    by (auto simp: check_manifest_def manifest_agrees_def)
  have "resolve_current_release fs (p_output a) require_approved =
      Ok (release_of (p_output a) cd (target_dir a rid) ?paths m)"
  proof -
    have "fs_exists fs (p_output a @ [''CURRENT''])" using cur by (simp add: fs_exists_def current_file_def)
    moreover note p(1) [unfolded current_file_def]
    moreover have "(if py_eq (JStr (p_stage a)) (JStr ''approved'') then approved_artifacts else candidate_artifacts) = p_names a"
      by (simp add: names)
    moreover have "p_gold_sha256 a = ?sha ''golden_1039.jsonl''" "p_manifest_sha256 a = ?sha ''golden_manifest.json''"
      using co by (simp_all add: consistent_def)
    ultimately show ?thesis
      using ap unfolding resolve_Ok_iff
      by (simp only: p(3-9) path_join_target [OF simple_rid] dir paths entry [OF in_names(1)] entry [OF in_names(2)]
          man result.inject json.inject ex_simps simp_thms chkm py_eq_refl truthy.simps)
        (simp add: p(5-8) chkm man [simplified] chkm [unfolded \<open>p_gold_sha256 a = ?sha ''golden_1039.jsonl''\<close>])
  qed
  then show ?thesis by (simp add: release_of_def p(2))
qed

end
