(* ===== verification/Release_Safety.thy ===== *)
theory Release_Safety
  imports Release_Publish
begin

text \<open>
  What readers of \<^verbatim>\<open>data/golden\<close> can rely on while releases are published: the theorems on
  \<^verbatim>\<open>atomic_publish_versioned_release\<close> against \<^verbatim>\<open>resolve_current_release\<close> (both of
  \<^verbatim>\<open>src/evaluation/golden/builder.py\<close>), for every sequence of injected faults and every intermediate
  state of the file system, with a concrete staging directory published twice as the witness.
\<close>

section \<open>The promises of the publication\<close>

text \<open>A release below the releases directory, as every publication leaves it.\<close>

definition below_releases :: "publication \<Rightarrow> release \<Rightarrow> bool" where
  "below_releases a r \<longleftrightarrow> strict_prefix (releases_dir a) (r_release_dir r) \<and>
     list_all (\<lambda>(n, p). strict_prefix (releases_dir a) p) (r_artifacts r)"

lemma strict_prefix_not_above: "strict_prefix xs p \<Longrightarrow> \<not> prefix p xs"
  by (auto simp: strict_prefix_def dest: prefix_order.antisym)

lemma start_holds: "unchanged a rid fs0 fs0"
  by (simp add: unchanged_def)

lemma publish_run:
  assumes "fresh a fs0" "well_staged a (release_id a fs0)"
    "atomic_publish_versioned_release a (start fs0 fl) = (res, w)"
  shows "\<forall>fs \<in> set (states w). old_or_new a (release_id a fs0) fs0 fs"
    "res = Raise e \<Longrightarrow> unchanged a (release_id a fs0) fs0 (present w)"
    "res = Ok x \<Longrightarrow> x = (release_id a fs0, target_dir a (release_id a fs0)) \<and>
      swapped a (release_id a fs0) fs0 (present w)"
proof -
  let ?rid = "release_id a fs0"
  have pre: "holds False (old_or_new a ?rid fs0) (\<lambda>fs. fs = fs0) (start fs0 fl)"
    by (simp add: holds_def start_def states_def start_holds)
  note t = publish_triple [OF assms(1,2), of False, simplified simp_thms, OF TrueI]
  show "\<forall>fs \<in> set (states w). old_or_new a ?rid fs0 fs"
    using tripleD [OF t pre] assms(3) by (cases res) (auto simp: holds_def list_all_iff)
  show "res = Raise e \<Longrightarrow> unchanged a ?rid fs0 (present w)"
    using tripleD(2) [OF t pre] assms(3) by (auto simp: holds_def)
  show "res = Ok x \<Longrightarrow> x = (?rid, target_dir a ?rid) \<and> swapped a ?rid fs0 (present w)"
    using tripleD(1) [OF t pre] assms(3) by (auto simp: holds_def)
qed

lemma unchanged_resolves:
  assumes "unchanged a (release_id a fs0) fs0 fs" "fresh a fs0" "p_output a \<noteq> []"
    and old: "resolve_current_release fs0 (p_output a) ra = Ok old" and below: "below_releases a old"
  shows "resolve_current_release fs (p_output a) ra = Ok old"
proof (rule resolve_frame [OF old])
  let ?rid = "release_id a fs0"
  fix p assume p: "p \<in> {p_output a @ [''CURRENT''], r_release_dir old} \<union> snd ` set (r_artifacts old)"
  have ver: "verified_release fs0 (p_output a) old" using resolve_verified [OF old] by blast
  have ex: "map_of fs0 p \<noteq> None"
    using p ver old by (auto simp: verified_release_def fs_is_dir_def resolve_Ok_iff fs_exists_def)
  then have "\<not> own a ?rid p" using fresh_own [OF assms(2), of p] by auto
  moreover have "\<not> prefix p (releases_dir a)"
  proof -
    from p below consider "p = p_output a @ [''CURRENT'']" | "strict_prefix (releases_dir a) p"
      by (auto simp: below_releases_def list_all_iff)
    then show ?thesis by cases (auto simp: releases_dir_def dest: strict_prefix_not_above)
  qed
  ultimately show "map_of fs p = map_of fs0 p" using assms(1) by (simp add: unchanged_def)
qed

text \<open>
  C1: While atomic_publish_versioned_release runs over a consistent staging directory, whatever
  operation fails and at whatever step, every file system a reader may observe resolves either
  to the release that was current before or to the complete new release, never to a mixture and
  never to an error.
\<close>

theorem publish_readers_see_old_or_new:
  assumes "fresh a fs0" "well_staged a (release_id a fs0)" "consistent a fs0"
    and "resolve_current_release fs0 (p_output a) False = Ok old" "below_releases a old"
    and "atomic_publish_versioned_release a (start fs0 fl) = (res, w)" "fs \<in> set (states w)"
  shows "resolve_current_release fs (p_output a) False = Ok old \<or>
    (\<exists>new. resolve_current_release fs (p_output a) False = Ok new \<and>
       r_release_id new = JStr (release_id a fs0) \<and> r_release_dir new = target_dir a (release_id a fs0))"
proof -
  have out: "p_output a \<noteq> []" using assms(2) by (simp add: well_staged_def)
  from publish_run(1) [OF assms(1,2,6)] assms(7)
  consider "unchanged a (release_id a fs0) fs0 fs" | "swapped a (release_id a fs0) fs0 fs" by blast
  then show ?thesis
  proof cases
    case 1
    then show ?thesis using unchanged_resolves [OF 1 assms(1) out assms(4,5)] by blast
  next
    case 2
    then show ?thesis using swapped_resolves [OF 2 assms(3) refl, of False] by blast
  qed
qed



lemma publish_total:
  assumes "fresh a fs0" "well_staged a (release_id a fs0)" "ready a fs0"
  shows "\<exists>w. atomic_publish_versioned_release a (start fs0 []) =
    (Ok (release_id a fs0, target_dir a (release_id a fs0)), w)"
proof -
  let ?rid = "release_id a fs0"
  have pre: "holds True (old_or_new a ?rid fs0) (\<lambda>fs. fs = fs0) (start fs0 [])"
    by (simp add: holds_def start_def states_def start_holds)
  obtain res w where run: "atomic_publish_versioned_release a (start fs0 []) = (res, w)" by fastforce
  have t: "triple (holds True (old_or_new a ?rid fs0) (\<lambda>fs. fs = fs0)) (atomic_publish_versioned_release a)
    (\<lambda>x w. x = (?rid, target_dir a ?rid) \<and> holds True (old_or_new a ?rid fs0) (swapped a ?rid fs0) w)
    (\<lambda>w. \<not> True \<and> holds True (old_or_new a ?rid fs0) (unchanged a ?rid fs0) w)"
    by (rule publish_triple [OF assms(1,2)]) (use assms(3) in simp)
  show ?thesis
  proof (cases res)
    case (Ok x)
    then show ?thesis using tripleD(1) [OF t pre, of x w] run by simp
  next
    case (Raise e)
    then show ?thesis using tripleD(2) [OF t pre, of e w] run by simp
  qed
qed

text \<open>
  C4: When no operation fails, the staged artifacts exist and the path to the releases directory
  is free of files, the publication returns the release id and directory it computed.
\<close>

theorem publish_succeeds_without_faults:
  assumes "fresh a fs0" "well_staged a (release_id a fs0)" "ready a fs0"
  shows "\<exists>w. atomic_publish_versioned_release a (start fs0 []) =
    (Ok (release_id a fs0, target_dir a (release_id a fs0)), w)"
  by (rule publish_total [OF assms])

text \<open>
  C5: Whatever happens during a publication, every file and directory that was below the
  releases directory before keeps its content in every observable file system: published
  releases are immutable.
\<close>

theorem publish_leaves_other_releases:
  assumes "fresh a fs0" "well_staged a (release_id a fs0)"
    and "atomic_publish_versioned_release a (start fs0 fl) = (res, w)" "fs \<in> set (states w)"
    and "strict_prefix (releases_dir a) p" "map_of fs0 p \<noteq> None"
  shows "map_of fs p = map_of fs0 p"
proof -
  let ?rid = "release_id a fs0"
  have "\<not> own a ?rid p" using fresh_own [OF assms(1), of p] assms(6) by auto
  moreover have "\<not> prefix p (releases_dir a)" by (rule strict_prefix_not_above [OF assms(5)])
  moreover have "\<not> prefix (current_file a) p"
    using assms(5) by (auto simp: strict_prefix_def prefix_def releases_dir_def current_file_def)
  ultimately show ?thesis
    using publish_run(1) [OF assms(1-3)] assms(4) by (auto simp: unchanged_def swapped_def)
qed


text \<open>
  C6: A release that resolve_current_release accepts is verified: its directory exists, its
  artifacts are the list required for its stage, every artifact exists with the SHA-256 the
  pointer records, and the pointer, the artifacts and the manifest agree on checksums, stage and
  acceptance.
\<close>

theorem resolve_current_release_sound:
  assumes "resolve_current_release fs golden_dir require_approved = Ok r"
  shows "verified_release fs golden_dir r"
  using resolve_verified [OF assms] by blast

text \<open>
  C7: With require_approved, resolve_current_release only accepts a release whose stage is
  approved, whose phase2_accepted is truthy, and which carries the seven approved artifacts.
\<close>

theorem resolve_requires_approved:
  assumes "resolve_current_release fs golden_dir True = Ok r"
  shows "r_release_stage r = JStr ''approved'' \<and> truthy (r_phase2_accepted r) \<and>
    map fst (r_artifacts r) = approved_artifacts"
  using resolve_verified [OF assms] by (simp add: verified_release_def)


section \<open>An instance\<close>

text \<open>Six staged artifacts with a manifest that agrees with them, published twice.\<close>

definition sample_manifest :: pyobj where
  "sample_manifest =
    [(''sha256'', JStr (sha256_hex ''G'')), (''release_stage'', JStr ''candidate''), (''phase2_accepted'', JBool False),
     (''multi_hop_judgment_ref'', JStr ''multi_hop_judgment.jsonl''),
     (''multi_hop_judgment_sha256'', JStr (sha256_hex ''J''))]"

definition sample_staging :: fs where
  "sample_staging =
    [([''s''], Dir), ([''s'', ''golden_1039.jsonl''], File ''G''), ([''s'', ''components@R.json''], File ''C''),
     ([''s'', ''assignment@R.json''], File ''A''), ([''s'', ''anti_leak_audit.json''], File ''L''),
     ([''s'', ''multi_hop_judgment.jsonl''], File ''J''),
     ([''s'', ''golden_manifest.json''], File (dumps js_compact (JObj sample_manifest)))]"

definition sample_publication :: "string \<Rightarrow> publication" where
  "sample_publication stamp =
    \<lparr>p_staging = [''s''], p_output = [''g''], p_names = candidate_artifacts, p_gold_sha256 = sha256_hex ''G'',
     p_manifest_sha256 = sha256_hex (dumps js_compact (JObj sample_manifest)), p_row_count = 1, p_stage = ''candidate'',
     p_accepted = False, p_candidate = JNull, p_stamp = stamp, p_iso = stamp, p_token = ''0a1b2c3d''\<rparr>"

definition sample_id :: "string \<Rightarrow> string" where
  "sample_id stamp = ''r_'' @ stamp @ ''_'' @ take 8 (sha256_hex (dumps js_compact (JObj sample_manifest)))"

definition sample_published :: fs where
  "sample_published =
    sample_staging @ [([''g''], Dir), ([''g'', ''releases''], Dir), ([''g'', ''releases'', sample_id ''1''], Dir)] @
    map (\<lambda>n. ([''g'', ''releases'', sample_id ''1'', n], File (staged (sample_publication ''1'') sample_staging n)))
      candidate_artifacts @
    [([''g'', ''CURRENT''], File (payload_bytes (sample_publication ''1'') (sample_id ''1'')
       (staged_hashes (sample_publication ''1'') sample_staging)))]"

lemma sample_release_id:
  "release_id (sample_publication ''1'') sample_staging = sample_id ''1''"
  "release_id (sample_publication ''2'') sample_published = sample_id ''2''"
  by (simp_all add: release_id_def sample_publication_def sample_id_def releases_dir_def fs_exists_def
      sample_staging_def sample_published_def candidate_artifacts_def)

lemma sample_simple: "simple_name (sample_id stamp)" if "CHR ''/'' \<notin> set stamp"
proof -
  have "CHR ''/'' \<notin> set (sha256_hex m)" for m
    using sha256_digits [of m] by (auto simp: is_digit_def)
  then have "CHR ''/'' \<notin> set (sample_id stamp)"
    using that by (auto simp: sample_id_def dest: in_set_takeD)
  moreover have "split_on c s = [s]" if "c \<notin> set s" for c s
    using that by (induction s) auto
  ultimately show ?thesis
    by (simp add: simple_name_def path_parts_def) (simp add: sample_id_def)
qed

lemma sample_fresh: "fresh (sample_publication ''1'') sample_staging" "fresh (sample_publication ''2'') sample_published"
  unfolding fresh_def sample_release_id
  by (simp_all add: own_def sample_staging_def sample_published_def sample_publication_def candidate_artifacts_def
      tmp_dir_def target_dir_def releases_dir_def tmp_current_def tmp_match_def lock_file_def sample_id_def prefix_def)

lemma sample_staged:
  "well_staged (sample_publication stamp) (sample_id stamp)"
  by (simp add: well_staged_def own_def sample_publication_def candidate_artifacts_def simple_name_def path_parts_def
      tmp_dir_def target_dir_def releases_dir_def tmp_current_def tmp_match_def lock_file_def current_file_def prefix_def)

lemma sample_ready: "ready (sample_publication ''1'') sample_staging" "ready (sample_publication ''2'') sample_published"
  by (simp_all add: ready_def sample_publication_def candidate_artifacts_def sample_staging_def sample_published_def
      releases_dir_def current_file_def fs_exists_def fs_is_dir_def)


lemma sample_staged_bytes:
  "staged (sample_publication stamp) sample_staging n = staged (sample_publication stamp) sample_published n"
  "staged (sample_publication stamp) sample_staging ''golden_1039.jsonl'' = ''G''"
  "staged (sample_publication stamp) sample_staging ''multi_hop_judgment.jsonl'' = ''J''"
  "staged (sample_publication stamp) sample_staging ''golden_manifest.json'' = dumps js_compact (JObj sample_manifest)"
  by (simp_all add: staged_def sample_publication_def sample_staging_def sample_published_def map_add_def
      candidate_artifacts_def)

lemma compact_text:
  assumes plain: "js_plain v"
  shows "utf8_decode (dumps js_compact v) = Some (dumps js_compact v) \<and> loads (dumps js_compact v) = Ok v"
proof -
  have text_style: "js_text js_compact" by (auto simp: js_text_def js_compact_def js_canonical_def)
  have "utf8_decode (dumps js_compact v) = Some (dumps js_compact v)"
    using dumps_text(1) [OF text_style plain] by (metis utf8_decode_encode utf8_encode_ascii)
  moreover have "js_ordered js_compact v = v" by (rule js_ordered_unsorted) (simp add: js_compact_def)
  ultimately show ?thesis using loads_dumps [OF js_separators_styles(2) plain, of "[]"] by simp
qed

lemma sample_manifest_text:
  "utf8_decode (dumps js_compact (JObj sample_manifest)) = Some (dumps js_compact (JObj sample_manifest))"
  "loads (dumps js_compact (JObj sample_manifest)) = Ok (JObj sample_manifest)"
proof -
  have "js_plain (JObj sample_manifest)" by (simp add: sample_manifest_def)
  from compact_text [OF this] show
    "utf8_decode (dumps js_compact (JObj sample_manifest)) = Some (dumps js_compact (JObj sample_manifest))"
    "loads (dumps js_compact (JObj sample_manifest)) = Ok (JObj sample_manifest)" by blast+
qed

lemma sample_consistent:
  "consistent (sample_publication ''1'') sample_staging" "consistent (sample_publication ''2'') sample_published"
proof -
  have "\<exists>t m. utf8_decode (dumps js_compact (JObj sample_manifest)) = Some t \<and> loads t = Ok (JObj m) \<and>
      manifest_agrees (sample_publication stamp) fs m"
    if "staged (sample_publication stamp) fs ''multi_hop_judgment.jsonl'' = ''J''" for stamp fs
  proof (intro exI conjI)
    show "utf8_decode (dumps js_compact (JObj sample_manifest)) = Some (dumps js_compact (JObj sample_manifest))"
      "loads (dumps js_compact (JObj sample_manifest)) = Ok (JObj sample_manifest)" by (rule sample_manifest_text)+
    show "manifest_agrees (sample_publication stamp) fs sample_manifest"
      using that by (simp add: manifest_agrees_def sample_publication_def sample_manifest_def dict_get_def)
  qed
  then show "consistent (sample_publication ''1'') sample_staging" "consistent (sample_publication ''2'') sample_published"
    using sample_simple [of "''1''"] sample_simple [of "''2''"]
    by (simp_all add: consistent_def sample_release_id sample_staged_bytes flip: sample_staged_bytes(1))
      (simp_all add: sample_publication_def)
qed

lemma sample_swapped: "swapped (sample_publication ''1'') (sample_id ''1'') sample_staging sample_published"
proof -
  let ?a = "sample_publication ''1''"
  show ?thesis
    unfolding swapped_def
  proof (intro conjI allI impI ballI)
    fix p assume p: "\<not> own ?a (sample_id ''1'') p" "\<not> prefix p (releases_dir ?a)" "\<not> prefix (current_file ?a) p"
    have new: "\<forall>(q, _) \<in> set (drop 7 sample_published). own ?a (sample_id ''1'') q \<or> prefix q (releases_dir ?a) \<or>
        prefix (current_file ?a) q"
      by (simp add: sample_published_def sample_staging_def candidate_artifacts_def own_def target_dir_def releases_dir_def
        current_file_def sample_publication_def)
    have none: "map_of (drop 7 sample_published) p = None"
      using p new by (auto simp: map_of_eq_None_iff)
    have "sample_published = sample_staging @ drop 7 sample_published"
      by (simp add: sample_published_def sample_staging_def)
    then have "map_of sample_published p = (map_of (drop 7 sample_published) ++ map_of sample_staging) p"
      by (metis map_of_append)
    then show "map_of sample_published p = map_of sample_staging p"
      using none by (simp add: map_add_def split: option.splits)
  next
    show "map_of sample_published (current_file ?a) =
      Some (File (payload_bytes ?a (sample_id ''1'') (staged_hashes ?a sample_staging)))"
      by (simp add: sample_published_def sample_staging_def candidate_artifacts_def current_file_def sample_publication_def)
    show "fs_is_dir sample_published (target_dir ?a (sample_id ''1''))"
      by (simp add: fs_is_dir_def sample_published_def sample_staging_def target_dir_def releases_dir_def sample_publication_def)
    fix n assume "n \<in> set (p_names ?a)"
    then show "map_of sample_published (target_dir ?a (sample_id ''1'') @ [n]) = Some (File (staged ?a sample_staging n))"
      by (auto simp: sample_published_def sample_staging_def target_dir_def releases_dir_def sample_publication_def
        candidate_artifacts_def)
  qed
qed

lemma sample_old:
  obtains old where "resolve_current_release sample_published [''g''] False = Ok old"
    "below_releases (sample_publication ''2'') old" "r_release_id old = JStr (sample_id ''1'')"
proof -
  obtain old where old: "resolve_current_release sample_published [''g''] False = Ok old"
    "r_release_id old = JStr (sample_id ''1'')" "r_release_dir old = target_dir (sample_publication ''1'') (sample_id ''1'')"
    "r_artifacts old = map (\<lambda>n. (n, target_dir (sample_publication ''1'') (sample_id ''1'') @ [n])) candidate_artifacts"
    using swapped_resolves [OF sample_swapped sample_consistent(1), of False] sample_release_id(1)
    by (auto simp: sample_publication_def)
  then have "below_releases (sample_publication ''2'') old"
    by (auto simp: below_releases_def list_all_iff target_dir_def releases_dir_def sample_publication_def strict_prefix_def)
  with old that show ?thesis by blast
qed

theorem publish_readers_see_old_or_new_witness:
  "\<exists>old. resolve_current_release sample_published [''g''] False = Ok old \<and>
    (let fs = hd (states (snd (atomic_publish_versioned_release (sample_publication ''2'')
       (start sample_published [NoFault, NoFault, NoFault, Fault 3])))) in
     resolve_current_release fs [''g''] False = Ok old \<or>
     (\<exists>new. resolve_current_release fs [''g''] False = Ok new \<and> r_release_id new = JStr (sample_id ''2'')))"
proof -
  let ?a = "sample_publication ''2''"
  have g: "p_output ?a = [''g'']" by (simp add: sample_publication_def)
  obtain old where old: "resolve_current_release sample_published [''g''] False = Ok old" "below_releases ?a old"
    by (rule sample_old)
  obtain res w where run: "atomic_publish_versioned_release ?a
    (start sample_published [NoFault, NoFault, NoFault, Fault 3]) = (res, w)" by fastforce
  have "hd (states w) \<in> set (states w)" by (simp add: states_def)
  from publish_readers_see_old_or_new [OF sample_fresh(2) _ sample_consistent(2) _ old(2) run this]
  have "resolve_current_release (hd (states w)) [''g''] False = Ok old \<or>
     (\<exists>new. resolve_current_release (hd (states w)) [''g''] False = Ok new \<and> r_release_id new = JStr (sample_id ''2''))"
    using sample_staged [of "''2''"] old(1) unfolding sample_release_id g by blast
  with old(1) run show ?thesis by (simp add: Let_def)
qed


lemma sample_run:
  obtains w where "atomic_publish_versioned_release (sample_publication ''1'') (start sample_staging []) =
    (Ok (sample_id ''1'', target_dir (sample_publication ''1'') (sample_id ''1'')), w)"
proof -
  have "well_staged (sample_publication ''1'') (release_id (sample_publication ''1'') sample_staging)"
    unfolding sample_release_id by (rule sample_staged)
  from publish_total [OF sample_fresh(1) this sample_ready(1)] that show ?thesis
    unfolding sample_release_id by blast
qed


theorem publish_succeeds_without_faults_witness:
  "\<exists>w. atomic_publish_versioned_release (sample_publication ''2'') (start sample_published []) =
    (Ok (sample_id ''2'', target_dir (sample_publication ''2'') (sample_id ''2'')), w)"
proof -
  have "well_staged (sample_publication ''2'') (release_id (sample_publication ''2'') sample_published)"
    unfolding sample_release_id by (rule sample_staged)
  from publish_succeeds_without_faults [OF sample_fresh(2) this sample_ready(2)] show ?thesis
    unfolding sample_release_id .
qed

theorem publish_leaves_other_releases_witness:
  "map_of (present (snd (atomic_publish_versioned_release (sample_publication ''2'') (start sample_published [])))) [''g'', ''releases'', sample_id ''1''] =
    Some Dir"
proof -
  let ?a = "sample_publication ''2''"
  obtain res w where run: "atomic_publish_versioned_release ?a (start sample_published []) = (res, w)" by fastforce
  have ws: "well_staged ?a (release_id ?a sample_published)" unfolding sample_release_id by (rule sample_staged)
  have dir: "map_of sample_published [''g'', ''releases'', sample_id ''1''] = Some Dir"
    by (simp add: sample_published_def sample_staging_def)
  have "present w \<in> set (states w)" "strict_prefix (releases_dir ?a) [''g'', ''releases'', sample_id ''1'']"
    by (simp_all add: states_def releases_dir_def sample_publication_def)
  from publish_leaves_other_releases [OF sample_fresh(2) ws run this] dir run show ?thesis by simp
qed

theorem resolve_current_release_sound_witness:
  "\<exists>r. resolve_current_release sample_published [''g''] False = Ok r \<and> verified_release sample_published [''g''] r"
proof -
  obtain old where "resolve_current_release sample_published [''g''] False = Ok old" by (rule sample_old)
  with resolve_current_release_sound [OF this] show ?thesis by blast
qed

text \<open>An approved staging directory: the seventh artifact, and a manifest that names it.\<close>

definition approved_manifest :: pyobj where
  "approved_manifest =
    [(''sha256'', JStr (sha256_hex ''G'')), (''release_stage'', JStr ''approved''), (''phase2_accepted'', JBool True),
     (''multi_hop_judgment_ref'', JStr ''multi_hop_judgment.jsonl''),
     (''multi_hop_judgment_sha256'', JStr (sha256_hex ''J'')),
     (''multi_hop_audit_ref'', JStr ''multi_hop_audit.jsonl''),
     (''multi_hop_audit_sha256'', JStr (sha256_hex ''U'')), (''candidate_release_id'', JStr ''r_0'')]"

definition approved_staging :: fs where
  "approved_staging =
    [([''s''], Dir), ([''s'', ''golden_1039.jsonl''], File ''G''), ([''s'', ''components@R.json''], File ''C''),
     ([''s'', ''assignment@R.json''], File ''A''), ([''s'', ''anti_leak_audit.json''], File ''L''),
     ([''s'', ''multi_hop_judgment.jsonl''], File ''J''), ([''s'', ''multi_hop_audit.jsonl''], File ''U''),
     ([''s'', ''golden_manifest.json''], File (dumps js_compact (JObj approved_manifest)))]"

definition approved_publication :: publication where
  "approved_publication =
    \<lparr>p_staging = [''s''], p_output = [''g''], p_names = approved_artifacts, p_gold_sha256 = sha256_hex ''G'',
     p_manifest_sha256 = sha256_hex (dumps js_compact (JObj approved_manifest)), p_row_count = 1, p_stage = ''approved'',
     p_accepted = True, p_candidate = JStr ''r_0'', p_stamp = ''3'', p_iso = ''3'', p_token = ''0a1b2c3d''\<rparr>"

definition approved_id :: string where
  "approved_id = ''r_3_'' @ take 8 (sha256_hex (dumps js_compact (JObj approved_manifest)))"

lemma approved_release_id: "release_id approved_publication approved_staging = approved_id"
  by (simp add: release_id_def approved_publication_def approved_id_def releases_dir_def fs_exists_def
      approved_staging_def approved_artifacts_def)

lemma approved_simple: "simple_name approved_id"
proof -
  have "CHR ''/'' \<notin> set (sha256_hex m)" for m
    using sha256_digits [of m] by (auto simp: is_digit_def)
  then have "CHR ''/'' \<notin> set approved_id" by (auto simp: approved_id_def dest: in_set_takeD)
  moreover have "split_on c s = [s]" if "c \<notin> set s" for c s
    using that by (induction s) auto
  ultimately show ?thesis
    by (simp add: simple_name_def path_parts_def) (simp add: approved_id_def)
qed

lemma approved_fresh: "fresh approved_publication approved_staging"
  unfolding fresh_def approved_release_id
  by (simp add: own_def approved_staging_def approved_publication_def approved_artifacts_def
      tmp_dir_def target_dir_def releases_dir_def tmp_current_def tmp_match_def lock_file_def approved_id_def prefix_def)

lemma approved_staged: "well_staged approved_publication (release_id approved_publication approved_staging)"
  unfolding approved_release_id
  by (simp add: well_staged_def own_def approved_publication_def approved_artifacts_def simple_name_def path_parts_def
      tmp_dir_def target_dir_def releases_dir_def tmp_current_def tmp_match_def lock_file_def current_file_def prefix_def)

lemma approved_ready: "ready approved_publication approved_staging"
  by (simp add: ready_def approved_publication_def approved_artifacts_def approved_staging_def
      releases_dir_def current_file_def fs_exists_def fs_is_dir_def)

lemma approved_bytes:
  "staged approved_publication approved_staging ''golden_1039.jsonl'' = ''G''"
  "staged approved_publication approved_staging ''multi_hop_judgment.jsonl'' = ''J''"
  "staged approved_publication approved_staging ''multi_hop_audit.jsonl'' = ''U''"
  "staged approved_publication approved_staging ''golden_manifest.json'' = dumps js_compact (JObj approved_manifest)"
  by (simp_all add: staged_def approved_publication_def approved_staging_def)

lemma approved_manifest_text:
  "utf8_decode (dumps js_compact (JObj approved_manifest)) = Some (dumps js_compact (JObj approved_manifest))"
  "loads (dumps js_compact (JObj approved_manifest)) = Ok (JObj approved_manifest)"
proof -
  have "js_plain (JObj approved_manifest)" by (simp add: approved_manifest_def)
  from compact_text [OF this] show
    "utf8_decode (dumps js_compact (JObj approved_manifest)) = Some (dumps js_compact (JObj approved_manifest))"
    "loads (dumps js_compact (JObj approved_manifest)) = Ok (JObj approved_manifest)" by blast+
qed

lemma approved_consistent: "consistent approved_publication approved_staging"
proof -
  have agrees: "manifest_agrees approved_publication approved_staging approved_manifest"
    by (simp add: manifest_agrees_def approved_bytes) (simp add: approved_publication_def approved_manifest_def dict_get_def)
  have "\<exists>t m. utf8_decode (dumps js_compact (JObj approved_manifest)) = Some t \<and> loads t = Ok (JObj m) \<and>
      manifest_agrees approved_publication approved_staging m"
    by (intro exI conjI) (rule approved_manifest_text agrees)+
  then show ?thesis using approved_simple
    by (simp add: consistent_def approved_release_id approved_bytes) (simp add: approved_publication_def)
qed

theorem resolve_requires_approved_witness:
  "\<exists>w r. atomic_publish_versioned_release approved_publication (start approved_staging []) =
      (Ok (approved_id, target_dir approved_publication approved_id), w) \<and>
    resolve_current_release (present w) [''g''] True = Ok r \<and> r_release_stage r = JStr ''approved''"
proof -
  obtain w where run: "atomic_publish_versioned_release approved_publication (start approved_staging []) =
      (Ok (approved_id, target_dir approved_publication approved_id), w)"
    using publish_total [OF approved_fresh approved_staged approved_ready] unfolding approved_release_id by blast
  have stage: "p_stage approved_publication = ''approved'' \<and> p_accepted approved_publication"
    "p_output approved_publication = [''g'']"
    by (simp_all add: approved_publication_def)
  have swap: "swapped approved_publication approved_id approved_staging (present w)"
    using publish_run(3) [OF approved_fresh approved_staged run refl] unfolding approved_release_id by blast
  obtain r where "resolve_current_release (present w) [''g''] True = Ok r"
    using swapped_resolves [OF swap approved_consistent approved_release_id [symmetric], of True] stage by auto
  with resolve_requires_approved [OF this] run show ?thesis by blast
qed

end
