(* ===== verification/Union_Find.thy ===== *)
theory Union_Find
  imports Py_Prelude
begin

text \<open>
  The two disjoint-set classes of the program: \<^verbatim>\<open>_UnionFind\<close> of
  \<^verbatim>\<open>src/artifacts/visual/pipeline.py\<close> (near-duplicate clusters) and \<^verbatim>\<open>UnionFind\<close> of
  \<^verbatim>\<open>src/evaluation/golden/builder.py\<close> (split components). Both keep one dictionary
  \<^verbatim>\<open>self.parent\<close>, both compress paths in \<^verbatim>\<open>find\<close>, both hang the larger root below the smaller.
  The locale \<open>union_find\<close> is the contract their clients rely on; it is interpreted on both classes.
\<close>

section \<open>The two classes\<close>

type_synonym 'a parents = "'a \<rightharpoonup> 'a"

definition visual_init :: "'a list \<Rightarrow> 'a parents" where
  "visual_init values = (\<lambda>v. if v \<in> set values then Some v else None)"

text \<open>
  \<^verbatim>\<open>find\<close> recurses along the parents and writes the root into every node it passed.
  \<^term>\<open>None\<close> stands for a call that does not return; the value read back after the write is the
  value written.
\<close>

partial_function (option) visual_find :: "'a parents \<Rightarrow> 'a \<Rightarrow> ('a \<times> 'a parents) result option"
where
  "visual_find p v =
     (case p v of
        None \<Rightarrow> Some (Raise (KeyError ''parent''))
      | Some parent \<Rightarrow>
          if parent \<noteq> v then
            Option.bind (visual_find p parent) (\<lambda>r. Some
              (rbind r (\<lambda>(root, p'). Ok (root, p'(v \<mapsto> root)))))
          else Some (Ok (parent, p)))"

definition visual_union ::
  "'a::linorder parents \<Rightarrow> 'a \<Rightarrow> 'a \<Rightarrow> 'a parents result option" where
  "visual_union p left right =
     Option.bind (visual_find p left) (\<lambda>r1. case r1 of
       Raise e \<Rightarrow> Some (Raise e)
     | Ok (left_root, p1) \<Rightarrow>
         Option.bind (visual_find p1 right) (\<lambda>r2. Some (rbind r2 (\<lambda>(right_root, p2).
           if left_root \<noteq> right_root
           then Ok (p2(max left_root right_root \<mapsto> min left_root right_root))
           else Ok p2))))"

definition g8_init :: "'a list \<Rightarrow> 'a parents" where
  "g8_init elements = (\<lambda>e. if e \<in> set elements then Some e else None)"

partial_function (option) g8_find :: "'a parents \<Rightarrow> 'a \<Rightarrow> ('a \<times> 'a parents) result option"
where
  "g8_find p x =
     (case p x of
        None \<Rightarrow> Some (Raise (KeyError ''parent''))
      | Some px \<Rightarrow>
          if px \<noteq> x then
            Option.bind (g8_find p px) (\<lambda>r. Some
              (rbind r (\<lambda>(root, p'). Ok (root, p'(x \<mapsto> root)))))
          else Some (Ok (px, p)))"

definition g8_union ::
  "'a::linorder parents \<Rightarrow> 'a \<Rightarrow> 'a \<Rightarrow> 'a parents result option" where
  "g8_union p x y =
     Option.bind (g8_find p x) (\<lambda>r1. case r1 of
       Raise e \<Rightarrow> Some (Raise e)
     | Ok (rx, p1) \<Rightarrow>
         Option.bind (g8_find p1 y) (\<lambda>r2. Some (rbind r2 (\<lambda>(ry, p2).
           if rx \<noteq> ry
           then (if rx < ry then Ok (p2(ry \<mapsto> rx)) else Ok (p2(rx \<mapsto> ry)))
           else Ok p2))))"

text \<open>The unions of a list of edges, in order.\<close>

primrec union_all ::
  "('s \<Rightarrow> 'a \<Rightarrow> 'a \<Rightarrow> 's result option) \<Rightarrow> 's \<Rightarrow> ('a \<times> 'a) list \<Rightarrow> 's result option" where
  "union_all un s [] = Some (Ok s)"
| "union_all un s (e # es) =
     Option.bind (un s (fst e) (snd e)) (\<lambda>r. case r of
       Raise err \<Rightarrow> Some (Raise err) | Ok s' \<Rightarrow> union_all un s' es)"

lemma union_all_append:
  "union_all un s (es @ fs) =
     Option.bind (union_all un s es) (\<lambda>r. case r of
       Raise err \<Rightarrow> Some (Raise err) | Ok s' \<Rightarrow> union_all un s' fs)"
proof (induction es arbitrary: s)
  case Nil
  then show ?case by simp
next
  case (Cons e es)
  then show ?case by (auto split: result.splits bind_splits)
qed

text \<open>
  The loop by which both clients read their classes off the structure:
  \<^verbatim>\<open>for x in xs: members[uf.find(x)].append(x)\<close>.
\<close>

primrec classes_of ::
  "('s \<Rightarrow> 'a \<Rightarrow> ('a \<times> 's) result option) \<Rightarrow> 's \<Rightarrow> ('a, 'a list) dict \<Rightarrow> 'a list \<Rightarrow>
    ('a, 'a list) dict result option" where
  "classes_of fnd s d [] = Some (Ok d)"
| "classes_of fnd s d (x # xs) =
     Option.bind (fnd s x) (\<lambda>r. case r of
       Raise err \<Rightarrow> Some (Raise err)
     | Ok (rt, s') \<Rightarrow> classes_of fnd s' (dict_append rt x d) xs)"

section \<open>The contract\<close>

text \<open>
  Adding one edge to a relation extends its equivalence closure by the pairs the new edge links.
\<close>

abbreviation edge_rel :: "('a \<times> 'a) list \<Rightarrow> 'a \<Rightarrow> 'a \<Rightarrow> bool" where
  "edge_rel es \<equiv> (\<lambda>a b. (a, b) \<in> set es)"

definition connected :: "('a \<times> 'a) list \<Rightarrow> 'a \<Rightarrow> 'a \<Rightarrow> bool" where
  "connected es = equivclp (edge_rel es)"

lemma connected_refl [simp]: "connected es a a"
  by (simp add: connected_def equivclp_refl)

lemma connected_edge: "(a, b) \<in> set es \<Longrightarrow> connected es a b"
  by (simp add: connected_def r_into_equivclp)

lemma connected_sym: "connected es a b \<Longrightarrow> connected es b a"
  unfolding connected_def by (rule equivclp_sym)

lemma connected_trans: "connected es a b \<Longrightarrow> connected es b c \<Longrightarrow> connected es a c"
  unfolding connected_def by (rule equivclp_trans)

lemma connected_least:
  assumes "connected es a b" and "\<And>u v. (u, v) \<in> set es \<Longrightarrow> R u v"
    and "\<And>u. R u u" and "\<And>u v. R u v \<Longrightarrow> R v u" and "\<And>u v w. R u v \<Longrightarrow> R v w \<Longrightarrow> R u w"
  shows "R a b"
  using assms(1) unfolding connected_def
proof (induction rule: equivclp_induct)
  case base
  show ?case by (rule assms(3))
next
  case (step y z)
  then have "R y z" using assms(2,4) by blast
  with step.IH show ?case by (rule assms(5))
qed

lemma connected_mono: "connected es a b \<Longrightarrow> set es \<subseteq> set fs \<Longrightarrow> connected fs a b"
  by (rule connected_least [where R = "connected fs"])
    (auto intro: connected_edge connected_sym connected_trans)

lemma connected_classes:
  "\<exists>c. \<forall>u v. connected (es :: ('a \<times> 'a) list) u v \<longleftrightarrow> c u = (c v :: 'a set)"
  by (rule exI [of _ "\<lambda>u. Collect (connected es u)"]) (auto intro: connected_sym connected_trans)

lemma connected_snoc:
  "connected ((es :: ('a \<times> 'a) list) @ [(x, y)]) a b \<longleftrightarrow>
     connected es a b \<or> (connected es a x \<and> connected es y b) \<or>
     (connected es a y \<and> connected es x b)" (is "?L \<longleftrightarrow> ?R a b")
proof -
  obtain c :: "'a \<Rightarrow> 'a set" where c: "\<And>u v. connected es u v \<longleftrightarrow> c u = c v" using connected_classes [of es] by blast
  obtain d :: "'a \<Rightarrow> 'a set" where d: "\<And>u v. connected (es @ [(x, y)]) u v \<longleftrightarrow> d u = d v"
    using connected_classes [of "es @ [(x, y)]"] by blast
  have new: "d x = d y"
    using connected_edge [of x y "es @ [(x, y)]"] d by simp
  have old: "d u = d v" if "c u = c v" for u v
    using connected_mono [of es u v "es @ [(x, y)]"] that c d by auto
  show ?thesis
  proof
    assume ?L
    then show "?R a b"
    proof (rule connected_least)
      show "?R u v" if "(u, v) \<in> set (es @ [(x, y)])" for u v
        using that by (auto intro: connected_edge)
    qed (unfold c, auto)
  next
    assume "?R a b"
    then consider "c a = c b" | "c a = c x" "c y = c b" | "c a = c y" "c x = c b"
      unfolding c by blast
    then have "d a = d b"
    proof cases
      case 1
      then show ?thesis by (rule old)
    next
      case 2
      then show ?thesis using old [of a x] old [of y b] new by simp
    next
      case 3
      then show ?thesis using old [of a y] old [of x b] new by simp
    qed
    then show ?L by (simp add: d)
  qed
qed

lemma connected_Nil [simp]: "connected [] a b \<longleftrightarrow> a = b"
proof
  assume "connected [] a b"
  then show "a = b" by (rule connected_least) auto
qed simp

lemma connected_closed:
  assumes "connected es a b" "a \<in> A" "\<And>u v. (u, v) \<in> set es \<Longrightarrow> u \<in> A \<and> v \<in> A"
  shows "b \<in> A"
proof -
  have "a \<in> A \<longleftrightarrow> b \<in> A"
    by (rule connected_least [OF assms(1), where R = "\<lambda>u v. u \<in> A \<longleftrightarrow> v \<in> A"])
      (use assms(3) in auto)
  with assms(2) show ?thesis by simp
qed

locale union_find =
  fixes init :: "'a::linorder list \<Rightarrow> 's"
    and find :: "'s \<Rightarrow> 'a \<Rightarrow> ('a \<times> 's) result option"
    and union :: "'s \<Rightarrow> 'a \<Rightarrow> 'a \<Rightarrow> 's result option"
    and invar :: "'s \<Rightarrow> bool"
    and elems :: "'s \<Rightarrow> 'a set"
    and rep :: "'s \<Rightarrow> 'a \<Rightarrow> 'a"
  assumes init_invar: "invar (init xs)"
    and init_elems: "elems (init xs) = set xs"
    and init_rep: "x \<in> set xs \<Longrightarrow> rep (init xs) x = x"
    and find_returns: "invar s \<Longrightarrow> x \<in> elems s \<Longrightarrow>
      \<exists>s'. find s x = Some (Ok (rep s x, s')) \<and> invar s' \<and> elems s' = elems s \<and>
        (\<forall>y \<in> elems s. rep s' y = rep s y)"
    and find_missing: "invar s \<Longrightarrow> x \<notin> elems s \<Longrightarrow> \<exists>e. find s x = Some (Raise e)"
    and union_returns: "invar s \<Longrightarrow> x \<in> elems s \<Longrightarrow> y \<in> elems s \<Longrightarrow>
      \<exists>s'. union s x y = Some (Ok s') \<and> invar s' \<and> elems s' = elems s \<and>
        (\<forall>a \<in> elems s. rep s' a =
           (if rep s a = rep s x \<or> rep s a = rep s y
            then min (rep s x) (rep s y) else rep s a))"
    and rep_elem: "invar s \<Longrightarrow> x \<in> elems s \<Longrightarrow> rep s x \<in> elems s"
    and rep_le: "invar s \<Longrightarrow> x \<in> elems s \<Longrightarrow> rep s x \<le> x"
    and rep_rep: "invar s \<Longrightarrow> x \<in> elems s \<Longrightarrow> rep s (rep s x) = rep s x"
begin

lemma union_total:
  "\<lbrakk>invar s; x \<in> elems s; y \<in> elems s\<rbrakk> \<Longrightarrow>
    \<exists>s'. union s x y = Some (Ok s') \<and> invar s' \<and> elems s' = elems s"
  using union_returns by blast

text \<open>After one union the classes are those of the closure with the new edge.\<close>

lemma union_classes:
  assumes "invar s" "x \<in> elems s" "y \<in> elems s" "union s x y = Some (Ok s')"
    "a \<in> elems s" "b \<in> elems s"
  shows "rep s' a = rep s' b \<longleftrightarrow> rep s a = rep s b \<or>
    (rep s a = rep s x \<and> rep s y = rep s b) \<or> (rep s a = rep s y \<and> rep s x = rep s b)"
proof -
  from union_returns [OF assms(1-3)] assms(4) have
    "\<forall>a \<in> elems s. rep s' a =
       (if rep s a = rep s x \<or> rep s a = rep s y then min (rep s x) (rep s y) else rep s a)"
    by auto
  with assms(5,6) have
    "rep s' a = (if rep s a = rep s x \<or> rep s a = rep s y then min (rep s x) (rep s y) else rep s a)"
    "rep s' b = (if rep s b = rep s x \<or> rep s b = rep s y then min (rep s x) (rep s y) else rep s b)"
    by auto
  then show ?thesis by (auto simp: min_def split: if_splits)
qed

lemma union_all_from:
  assumes "invar s" and "\<And>a b. a \<in> elems s \<Longrightarrow> b \<in> elems s \<Longrightarrow> rep s a = rep s b \<longleftrightarrow> connected fs a b"
    and "\<forall>(u, v) \<in> set es. u \<in> elems s \<and> v \<in> elems s"
  shows "\<exists>s'. union_all union s es = Some (Ok s') \<and> invar s' \<and> elems s' = elems s \<and>
    (\<forall>a \<in> elems s. \<forall>b \<in> elems s. rep s' a = rep s' b \<longleftrightarrow> connected (fs @ es) a b)"
  using assms
proof (induction es arbitrary: s fs)
  case Nil
  then show ?case by simp
next
  case (Cons e es)
  obtain x y where e: "e = (x, y)" by (cases e)
  with Cons.prems(3) have xy: "x \<in> elems s" "y \<in> elems s" by auto
  obtain t where t: "union s x y = Some (Ok t)" "invar t" "elems t = elems s"
    using union_returns [OF Cons.prems(1) xy] by blast
  have classes: "rep t a = rep t b \<longleftrightarrow> connected (fs @ [e]) a b"
    if "a \<in> elems t" "b \<in> elems t" for a b
    using union_classes [OF Cons.prems(1) xy t(1)] that xy Cons.prems(2)
    by (simp add: e connected_snoc t(3))
  obtain s' where "union_all union t es = Some (Ok s')" "invar s'" "elems s' = elems t"
    "\<forall>a \<in> elems t. \<forall>b \<in> elems t. rep s' a = rep s' b \<longleftrightarrow> connected ((fs @ [e]) @ es) a b"
    using Cons.IH [OF t(2) classes] Cons.prems(3) t(3) by auto
  with t show ?case by (simp add: e)
qed

text \<open>
  The client's theorem: the unions of any list of edges between known elements return, and two
  elements end with the same representative exactly when the edges connect them.
\<close>

lemma union_all_connected:
  assumes "\<forall>(u, v) \<in> set es. u \<in> set xs \<and> v \<in> set xs"
  obtains s where "union_all union (init xs) es = Some (Ok s)" "invar s" "elems s = set xs"
    "\<And>a b. a \<in> set xs \<Longrightarrow> b \<in> set xs \<Longrightarrow> rep s a = rep s b \<longleftrightarrow> connected es a b"
proof -
  have "rep (init xs) a = rep (init xs) b \<longleftrightarrow> connected [] a b"
    if "a \<in> elems (init xs)" "b \<in> elems (init xs)" for a b
    using that by (simp add: init_elems init_rep)
  from union_all_from [OF init_invar this, of es] assms show ?thesis
    using that by (auto simp: init_elems)
qed

text \<open>The representative is the least element of its class.\<close>

lemma rep_least:
  assumes "invar s" "x \<in> elems s" "y \<in> elems s" "rep s x = rep s y"
  shows "rep s x \<le> y"
  using rep_le [OF assms(1,3)] assms(4) by simp

lemma rep_class: "invar s \<Longrightarrow> x \<in> elems s \<Longrightarrow> rep s (rep s x) = rep s x \<and> rep s x \<in> elems s"
  by (simp add: rep_rep rep_elem)

lemma classes_of_from:
  assumes "invar s" "set xs \<subseteq> elems s"
  shows "classes_of find s d xs = Some (Ok (foldl (\<lambda>d x. dict_append (rep s x) x d) d xs))"
  using assms
proof (induction xs arbitrary: s d)
  case Nil
  then show ?case by simp
next
  case (Cons x xs)
  then obtain s' where s': "find s x = Some (Ok (rep s x, s'))" "invar s'" "elems s' = elems s"
    "\<forall>y \<in> elems s. rep s' y = rep s y"
    using find_returns [of s x] by auto
  have "foldl (\<lambda>d x. dict_append (rep s' x) x d) d' xs = foldl (\<lambda>d x. dict_append (rep s x) x d) d' xs" for d'
    by (rule foldl_cong) (use s'(4) Cons.prems(2) in auto)
  with Cons.IH [of s'] s' Cons.prems(2) show ?case by simp
qed

lemma classes_of_rep:
  "invar s \<Longrightarrow> set xs \<subseteq> elems s \<Longrightarrow> classes_of find s [] xs = Some (Ok (group_by (rep s) xs))"
  by (simp add: classes_of_from group_by_def)

text \<open>
  What a client gets from building the structure over \<open>xs\<close>, uniting along \<open>es\<close> and reading off the
  classes: the classes of connectedness, each under one of its members.
\<close>

lemma build_classes:
  assumes "\<forall>(u, v) \<in> set es. u \<in> set xs \<and> v \<in> set xs"
  obtains s f where "union_all union (init xs) es = Some (Ok s)"
    "classes_of find s [] xs = Some (Ok (group_by f xs))"
    "\<And>a b. a \<in> set xs \<Longrightarrow> b \<in> set xs \<Longrightarrow> f a = f b \<longleftrightarrow> connected es a b"
    "\<And>a. a \<in> set xs \<Longrightarrow> f a \<in> set xs \<and> f (f a) = f a \<and> f a \<le> a"
proof -
  obtain s where s: "union_all union (init xs) es = Some (Ok s)" "invar s" "elems s = set xs"
    "\<And>a b. a \<in> set xs \<Longrightarrow> b \<in> set xs \<Longrightarrow> rep s a = rep s b \<longleftrightarrow> connected es a b"
    using union_all_connected [OF assms] by blast
  show ?thesis
    by (rule that [of s "rep s"])
      (use s classes_of_rep [of s xs] rep_elem [of s] rep_rep [of s] rep_le [of s] in simp_all)
qed

end

section \<open>Roots, and the proof that \<^verbatim>\<open>find\<close> returns\<close>

inductive root_of :: "'a parents \<Rightarrow> 'a \<Rightarrow> 'a \<Rightarrow> bool" for p where
  root_self: "p x = Some x \<Longrightarrow> root_of p x x"
| root_step: "p x = Some y \<Longrightarrow> y \<noteq> x \<Longrightarrow> root_of p y r \<Longrightarrow> root_of p x r"

inductive_cases root_ofE: "root_of p x r"

text \<open>Parents never exceed their children, and every parent is a key.\<close>

definition uf_inv :: "'a::linorder parents \<Rightarrow> bool" where
  "uf_inv p \<longleftrightarrow> finite (dom p) \<and> (\<forall>x y. p x = Some y \<longrightarrow> y \<le> x \<and> y \<in> dom p)"

definition uf_rep :: "'a parents \<Rightarrow> 'a \<Rightarrow> 'a" where
  "uf_rep p x = (case visual_find p x of Some (Ok (r, _)) \<Rightarrow> r | _ \<Rightarrow> x)"

lemma root_of_unique: "root_of p x r \<Longrightarrow> root_of p x s \<Longrightarrow> r = s"
  by (induction rule: root_of.induct) (auto elim: root_ofE)

lemma root_of_root: "root_of p x r \<Longrightarrow> p r = Some r"
  by (induction rule: root_of.induct)

lemma root_of_root_of: "root_of p x r \<Longrightarrow> root_of p r r"
  by (auto intro: root_self dest: root_of_root)

lemma root_of_dom: "root_of p x r \<Longrightarrow> x \<in> dom p \<and> r \<in> dom p"
  by (induction rule: root_of.induct) auto

lemma root_of_le: "root_of p x r \<Longrightarrow> uf_inv p \<Longrightarrow> r \<le> x"
  by (induction rule: root_of.induct) (auto simp: uf_inv_def intro: order_trans)

text \<open>Writing the root of a node into it changes no root.\<close>

lemma compress_root_of:
  assumes "root_of p x r" "r \<noteq> x"
  shows "root_of (p(x \<mapsto> r)) z s \<longleftrightarrow> root_of p z s"
proof
  have r: "p r = Some r" by (rule root_of_root [OF assms(1)])
  assume "root_of (p(x \<mapsto> r)) z s"
  then show "root_of p z s"
  proof (induction rule: root_of.induct)
    case (root_self z)
    with assms show ?case by (auto intro: root_of.root_self split: if_splits)
  next
    case (root_step z y s)
    show ?case
    proof (cases "z = x")
      case True
      with root_step have "root_of p r s" by simp
      with r have "s = r" by (auto elim: root_ofE)
      with True assms(1) show ?thesis by simp
    next
      case False
      with root_step show ?thesis by (auto intro: root_of.root_step)
    qed
  qed
next
  have r: "p r = Some r" by (rule root_of_root [OF assms(1)])
  then have rr: "root_of (p(x \<mapsto> r)) r r" using assms(2) by (auto intro: root_self)
  assume "root_of p z s"
  then show "root_of (p(x \<mapsto> r)) z s"
  proof (induction rule: root_of.induct)
    case (root_self z)
    then have "z \<noteq> x" using assms by (auto elim: root_ofE)
    with root_self show ?case by (auto intro: root_of.root_self)
  next
    case (root_step z y s)
    show ?case
    proof (cases "z = x")
      case True
      with root_step have "root_of p x s" by (auto intro: root_of.root_step)
      then have "s = r" using assms(1) by (rule root_of_unique)
      have "root_of (p(x \<mapsto> r)) x r"
        by (rule root_of.root_step [OF _ assms(2) rr]) simp
      then show ?thesis unfolding True \<open>s = r\<close> .
    next
      case False
      with root_step show ?thesis by (auto intro: root_of.root_step)
    qed
  qed
qed

text \<open>
  \<^verbatim>\<open>find\<close> returns: the parent of a non-root is smaller, and there are finitely many keys. It
  returns the root and leaves every root as it was.
\<close>

lemma visual_find_root:
  assumes "uf_inv p" "x \<in> dom p"
  shows "\<exists>r p'. visual_find p x = Some (Ok (r, p')) \<and> root_of p x r \<and> uf_inv p' \<and>
    dom p' = dom p \<and> (\<forall>z s. root_of p' z s \<longleftrightarrow> root_of p z s)"
  using assms(2)
proof (induction "card {y \<in> dom p. y < x}" arbitrary: x rule: less_induct)
  case less
  then obtain y where y: "p x = Some y" by auto
  show ?case
  proof (cases "y = x")
    case True
    with y assms(1) show ?thesis
      by (auto simp: visual_find.simps [of p x] intro: root_self)
  next
    case False
    have yx: "y < x" "y \<in> dom p" using y False assms(1) by (auto simp: uf_inv_def less_le)
    have "{z \<in> dom p. z < y} \<subset> {z \<in> dom p. z < x}" using yx by auto
    then have "card {z \<in> dom p. z < y} < card {z \<in> dom p. z < x}"
      using assms(1) by (intro psubset_card_mono) (auto simp: uf_inv_def)
    from less.hyps [OF this yx(2)] obtain r p' where
      IH: "visual_find p y = Some (Ok (r, p'))" "root_of p y r" "uf_inv p'" "dom p' = dom p"
        "\<And>z s. root_of p' z s \<longleftrightarrow> root_of p z s" by blast
    have xr: "root_of p x r" using y False IH(2) by (rule root_step)
    have rx: "r < x" using root_of_le [OF IH(2) assms(1)] yx(1) by simp
    have "uf_inv (p'(x \<mapsto> r))"
      using IH(3,4) rx root_of_dom [OF IH(2)] by (auto simp: uf_inv_def)
    moreover have "root_of (p'(x \<mapsto> r)) z s \<longleftrightarrow> root_of p z s" for z s
      using compress_root_of [of p' x r z s] xr rx IH(5) by auto
    moreover have "dom (p'(x \<mapsto> r)) = dom p" using IH(4) less.prems by auto
    ultimately show ?thesis using y False IH(1) xr
      by (auto simp: visual_find.simps [of p x])
  qed
qed

lemma uf_rep_root: "uf_inv p \<Longrightarrow> x \<in> dom p \<Longrightarrow> root_of p x (uf_rep p x)"
  using visual_find_root [of p x] by (auto simp: uf_rep_def)

lemma uf_rep_eq: "uf_inv p \<Longrightarrow> root_of p x r \<Longrightarrow> uf_rep p x = r"
  by (meson root_of_dom root_of_unique uf_rep_root)

lemma visual_find_rep:
  assumes "uf_inv p" "x \<in> dom p"
  shows "\<exists>p'. visual_find p x = Some (Ok (uf_rep p x, p')) \<and> uf_inv p' \<and> dom p' = dom p \<and>
    (\<forall>y \<in> dom p. uf_rep p' y = uf_rep p y)"
proof -
  obtain r p' where f: "visual_find p x = Some (Ok (r, p'))" "root_of p x r" "uf_inv p'"
    "dom p' = dom p" "\<And>z s. root_of p' z s \<longleftrightarrow> root_of p z s"
    using visual_find_root [OF assms] by blast
  moreover have "r = uf_rep p x" using uf_rep_eq [OF assms(1) f(2)] by simp
  moreover have "uf_rep p' y = uf_rep p y" if "y \<in> dom p" for y
    using uf_rep_eq [OF f(3)] uf_rep_root [OF assms(1) that] f(5) by simp
  ultimately show ?thesis by auto
qed

text \<open>Hanging one root below another smaller one merges their classes and no others.\<close>

lemma link_root_of:
  assumes "p hi = Some hi" "p lo = Some lo" "hi \<noteq> lo" "root_of p z s"
  shows "root_of (p(hi \<mapsto> lo)) z (if s = hi then lo else s)"
  using assms(4)
proof (induction rule: root_of.induct)
  case (root_self x)
  have lo: "root_of (p(hi \<mapsto> lo)) lo lo" using assms by (auto intro: root_of.root_self)
  show ?case
  proof (cases "x = hi")
    case True
    from lo have "root_of (p(hi \<mapsto> lo)) hi lo"
      by (rule root_of.root_step [rotated 2]) (use assms(3) in auto)
    then show ?thesis unfolding True by (simp only: simp_thms if_True)
  next
    case False
    with root_self show ?thesis by (auto intro: root_of.root_self)
  qed
next
  case (root_step x y r)
  from root_step.hyps(1,2) assms(1) have "x \<noteq> hi" by auto
  with root_step show ?case by (auto intro: root_of.root_step)
qed

lemma link_rep:
  assumes "uf_inv p" "p hi = Some hi" "p lo = Some lo" "lo < hi" "a \<in> dom p"
  shows "uf_inv (p(hi \<mapsto> lo))" "dom (p(hi \<mapsto> lo)) = dom p"
    "uf_rep (p(hi \<mapsto> lo)) a = (if uf_rep p a = hi then lo else uf_rep p a)"
proof -
  show inv: "uf_inv (p(hi \<mapsto> lo))" using assms by (auto simp: uf_inv_def)
  show "dom (p(hi \<mapsto> lo)) = dom p" using assms by auto
  show "uf_rep (p(hi \<mapsto> lo)) a = (if uf_rep p a = hi then lo else uf_rep p a)"
    using uf_rep_eq [OF inv link_root_of [OF assms(2,3) _ uf_rep_root [OF assms(1,5)]]] assms(4)
    by auto
qed

lemma visual_union_rep:
  assumes "uf_inv p" "x \<in> dom p" "y \<in> dom p"
  shows "\<exists>p'. visual_union p x y = Some (Ok p') \<and> uf_inv p' \<and> dom p' = dom p \<and>
    (\<forall>a \<in> dom p. uf_rep p' a =
       (if uf_rep p a = uf_rep p x \<or> uf_rep p a = uf_rep p y
        then min (uf_rep p x) (uf_rep p y) else uf_rep p a))"
proof -
  obtain p1 where p1: "visual_find p x = Some (Ok (uf_rep p x, p1))" "uf_inv p1" "dom p1 = dom p"
    "\<forall>y \<in> dom p. uf_rep p1 y = uf_rep p y"
    using visual_find_rep [OF assms(1,2)] by blast
  obtain p2 where p2: "visual_find p1 y = Some (Ok (uf_rep p y, p2))" "uf_inv p2" "dom p2 = dom p"
    "\<forall>z \<in> dom p. uf_rep p2 z = uf_rep p z"
    using visual_find_rep [OF p1(2), of y] assms(3) p1(3,4) by auto
  let ?l = "uf_rep p x" let ?r = "uf_rep p y"
  have roots: "p2 ?l = Some ?l" "p2 ?r = Some ?r"
    using root_of_root [OF uf_rep_root [OF p2(2)]] p2(3,4) assms(2,3) by force+
  show ?thesis
  proof (cases "?l = ?r")
    case True
    with p1 p2 show ?thesis by (auto simp: visual_union_def)
  next
    case False
    then have mm: "p2 (max ?l ?r) = Some (max ?l ?r)" "p2 (min ?l ?r) = Some (min ?l ?r)"
      "min ?l ?r < max ?l ?r"
      using roots by (auto simp: max_def min_def)
    note link = link_rep [OF p2(2) mm]
    have "visual_union p x y = Some (Ok (p2(max ?l ?r \<mapsto> min ?l ?r)))"
      using False p1(1) p2(1) by (simp add: visual_union_def)
    moreover have "uf_rep (p2(max ?l ?r \<mapsto> min ?l ?r)) a =
      (if uf_rep p a = ?l \<or> uf_rep p a = ?r then min ?l ?r else uf_rep p a)" if "a \<in> dom p" for a
      using link(3) [of a] that p2(3,4) False by (auto simp: max_def min_def)
    moreover have "uf_inv (p2(max ?l ?r \<mapsto> min ?l ?r)) \<and> dom (p2(max ?l ?r \<mapsto> min ?l ?r)) = dom p"
      using link(1,2) [of x] p2(3) assms(2) by simp
    ultimately show ?thesis by (intro exI [of _ "p2(max ?l ?r \<mapsto> min ?l ?r)"]) simp
  qed
qed

lemma uf_init_rep:
  assumes "p = (\<lambda>v. if v \<in> set xs then Some v else None)"
  shows "uf_inv p" "dom p = set xs" "x \<in> set xs \<Longrightarrow> uf_rep p x = x"
proof -
  show dom: "dom p = set xs" using assms by (auto split: if_splits)
  show inv: "uf_inv p" unfolding uf_inv_def dom by (auto simp: assms split: if_splits)
  show "uf_rep p x = x" if "x \<in> set xs"
    using that by (intro uf_rep_eq [OF inv] root_self) (simp add: assms)
qed

section \<open>Both classes meet the contract\<close>

lemma g8_find_imp:
  fixes p :: "'a parents"
  assumes "g8_find p x = Some r"
  shows "visual_find p x = Some r"
proof (rule g8_find.raw_induct [where P = "\<lambda>(p :: 'a parents) x r. visual_find p x = Some r" and xa = "(p, x)", unfolded prod.case, OF _ assms])
  fix f :: "'a parents \<Rightarrow> 'a \<Rightarrow> ('a \<times> 'a parents) result option" and p x r
  assume IH: "\<And>p x r. f p x = Some r \<Longrightarrow> visual_find p x = Some r"
    and eq: "(case p x of None \<Rightarrow> Some (Raise (KeyError ''parent''))
      | Some px \<Rightarrow> if px \<noteq> x then Option.bind (f p px)
          (\<lambda>r. Some (rbind r (\<lambda>(root, p'). Ok (root, p'(x \<mapsto> root))))) else Some (Ok (px, p))) = Some r"
  then show "visual_find p x = Some r"
    by (subst visual_find.simps) (auto split: option.splits if_splits simp: bind_eq_Some_conv)
qed

lemma visual_find_imp:
  fixes p :: "'a parents"
  assumes "visual_find p x = Some r"
  shows "g8_find p x = Some r"
proof (rule visual_find.raw_induct [where P = "\<lambda>(p :: 'a parents) x r. g8_find p x = Some r", OF _ assms])
  fix f :: "'a parents \<Rightarrow> 'a \<Rightarrow> ('a \<times> 'a parents) result option" and p x r
  assume IH: "\<And>p x r. f p x = Some r \<Longrightarrow> g8_find p x = Some r"
    and eq: "(case p x of None \<Rightarrow> Some (Raise (KeyError ''parent''))
      | Some px \<Rightarrow> if px \<noteq> x then Option.bind (f p px)
          (\<lambda>r. Some (rbind r (\<lambda>(root, p'). Ok (root, p'(x \<mapsto> root))))) else Some (Ok (px, p))) = Some r"
  then show "g8_find p x = Some r"
    by (subst g8_find.simps) (auto split: option.splits if_splits simp: bind_eq_Some_conv)
qed

lemma g8_find_eq: "g8_find = visual_find"
proof (intro ext)
  show "g8_find p x = visual_find p x" for p and x :: 'a
    using g8_find_imp [of p x] visual_find_imp [of p x]
    by (cases "g8_find p x"; cases "visual_find p x") auto
qed

lemma g8_union_eq: "g8_union = visual_union"
proof -
  have link: "(if rx \<noteq> ry then if rx < ry then Ok (p(ry \<mapsto> rx)) else Ok (p(rx \<mapsto> ry)) else Ok p) =
    (if rx \<noteq> ry then Ok (p(max rx ry \<mapsto> min rx ry)) else Ok p)" for p and rx ry :: 'a
    by (auto simp: max_def min_def)
  show ?thesis unfolding g8_union_def visual_union_def g8_find_eq link by (rule refl)
qed

interpretation visual: union_find visual_init visual_find visual_union uf_inv dom uf_rep
proof unfold_locales
  fix p :: "'a parents" and x y
  assume p: "uf_inv p"
  show "\<exists>e. visual_find p x = Some (Raise e)" if "x \<notin> dom p"
    using that by (auto simp: visual_find.simps [of p x] domIff)
  assume x: "x \<in> dom p"
  show "\<exists>p'. visual_find p x = Some (Ok (uf_rep p x, p')) \<and> uf_inv p' \<and> dom p' = dom p \<and>
    (\<forall>y \<in> dom p. uf_rep p' y = uf_rep p y)" by (rule visual_find_rep [OF p x])
  have root: "root_of p x (uf_rep p x)" by (rule uf_rep_root [OF p x])
  show "uf_rep p x \<in> dom p" using root_of_dom [OF root] by simp
  show "uf_rep p x \<le> x" by (rule root_of_le [OF root p])
  show "uf_rep p (uf_rep p x) = uf_rep p x" by (rule uf_rep_eq [OF p root_of_root_of [OF root]])
  show "\<exists>p'. visual_union p x y = Some (Ok p') \<and> uf_inv p' \<and> dom p' = dom p \<and>
    (\<forall>a \<in> dom p. uf_rep p' a =
       (if uf_rep p a = uf_rep p x \<or> uf_rep p a = uf_rep p y
        then min (uf_rep p x) (uf_rep p y) else uf_rep p a))" if "y \<in> dom p"
    by (rule visual_union_rep [OF p x that])
qed (auto simp: visual_init_def uf_init_rep [OF refl])

interpretation g8: union_find g8_init g8_find g8_union uf_inv dom uf_rep
proof -
  have "g8_init = (visual_init :: 'a list \<Rightarrow> _)"
    by (auto simp: g8_init_def visual_init_def)
  then show "union_find g8_init g8_find g8_union uf_inv dom (uf_rep :: 'a parents \<Rightarrow> _)"
    unfolding g8_find_eq g8_union_eq by (simp add: visual.union_find_axioms)
qed

end
