(* ===== verification/Golden_Split.thy ===== *)
theory Golden_Split
  imports Union_Find Py_Json Sha256
begin

text \<open>
  The split of the golden dataset (\<^verbatim>\<open>src/evaluation/golden/builder.py\<close>): \<^verbatim>\<open>build_g8_components\<close> joins
  dialogue groups along near-duplicate edges, \<^verbatim>\<open>assign_splits_g8\<close> searches a set of components whose
  rows fill the development split, \<^verbatim>\<open>check_cross_split_leak\<close> and \<^verbatim>\<open>validate_cross_split_leak\<close> check
  edges against an assignment. The lemmas show that components are the connectivity classes of the
  groups, that the search is sound and complete for the quotas, and that no group and no applied
  duplicate edge ends in both splits.
\<close>

section \<open>Quotas\<close>

definition DEV_QUOTAS :: "(string, nat) dict" where
  "DEV_QUOTAS =
    [(''visual_plus_context'', 80), (''long_range'', 52), (''vlm_dependent'', 32),
     (''multi_hop_evidence'', 48), (''direct_visual'', 40), (''context_only'', 36),
     (''metadata_only'', 28), (''unanswerable'', 28), (''referential'', 24),
     (''interleaved'', 24), (''ambiguous_clarification'', 24)]"

definition TEST_QUOTAS :: "(string, nat) dict" where
  "TEST_QUOTAS =
    [(''visual_plus_context'', 120), (''long_range'', 78), (''vlm_dependent'', 47),
     (''multi_hop_evidence'', 72), (''direct_visual'', 60), (''context_only'', 54),
     (''metadata_only'', 42), (''unanswerable'', 42), (''referential'', 36),
     (''interleaved'', 36), (''ambiguous_clarification'', 36)]"

definition TOTAL_DEV :: nat where "TOTAL_DEV = 416"
definition TOTAL_TEST :: nat where "TOTAL_TEST = 623"
definition TOTAL_QUERIES :: nat where "TOTAL_QUERIES = 1039"

lemma quota_totals:
  "sum_list (map snd DEV_QUOTAS) = TOTAL_DEV" "sum_list (map snd TEST_QUOTAS) = TOTAL_TEST"
  "TOTAL_DEV + TOTAL_TEST = TOTAL_QUERIES" "dict_keys DEV_QUOTAS = dict_keys TEST_QUOTAS"
  by (simp_all add: DEV_QUOTAS_def TEST_QUOTAS_def TOTAL_DEV_def TOTAL_TEST_def TOTAL_QUERIES_def)

section \<open>Components\<close>

text \<open>The part of a media or group id before its first colon.\<close>

definition base_group :: "string \<Rightarrow> string" where
  "base_group u = (if contains u '':'' then hd (split_on (CHR '':'') u) else u)"

primrec pairs_of :: "'a list \<Rightarrow> ('a \<times> 'a) list" where
  "pairs_of [] = []"
| "pairs_of (x # xs) = map (\<lambda>y. (x, y)) xs @ pairs_of xs"

text \<open>
  The frozen cluster file: one JSON row for a media item, blank lines skipped. Clusters of two to ten
  members give the edges between the groups of their members, larger ones none.
\<close>

definition read_clusters :: "string \<Rightarrow> (string, string list) dict result" where
  "read_clusters text =
     foldM (\<lambda>clusters line.
        if strip line = [] then Ok clusters
        else rbind (loads_object line) (\<lambda>rec.
             rbind (str_item rec ''near_dup_cluster_id'') (\<lambda>cid.
             rbind (str_item rec ''media_id'') (\<lambda>mid. Ok (dict_append cid mid clusters)))))
       [] (file_lines text)"

definition cluster_edges :: "(string, string list) dict \<Rightarrow> (string \<times> string) list" where
  "cluster_edges clusters =
     concat (map (\<lambda>(cid, members).
        if 1 < length members \<and> length members \<le> 10
        then map (\<lambda>(a, b). (hd (split_on (CHR '':'') a), hd (split_on (CHR '':'') b))) (pairs_of members)
        else [])
       (sort_key fst clusters))"

text \<open>
  \<open>artifact\<close> is the text of \<^verbatim>\<open>data/visual_embeddings/near_dup_clusters.jsonl\<close>, \<^term>\<open>None\<close> when the
  file does not exist; it is read only when no edges are passed.
\<close>

definition edges_to_apply ::
  "(string \<times> string) list option \<Rightarrow> string option \<Rightarrow> (string \<times> string) list result" where
  "edges_to_apply duplicate_edges artifact =
     (case duplicate_edges of
        Some es \<Rightarrow> Ok es
      | None \<Rightarrow>
          (case artifact of
             None \<Rightarrow> Raise (FileNotFoundError ''near_dup_clusters.jsonl'')
           | Some text \<Rightarrow> rbind (read_clusters text) (\<lambda>clusters. Ok (cluster_edges clusters))))"

primrec apply_edges ::
  "string parents \<Rightarrow> (string \<times> string) list \<Rightarrow> string parents result option" where
  "apply_edges uf [] = Some (Ok uf)"
| "apply_edges uf (e # es) =
     (let g1 = base_group (fst e); g2 = base_group (snd e) in
      if uf g1 \<noteq> None \<and> uf g2 \<noteq> None then
        Option.bind (g8_union uf g1 g2) (\<lambda>r. case r of
          Raise err \<Rightarrow> Some (Raise err) | Ok uf' \<Rightarrow> apply_edges uf' es)
      else apply_edges uf es)"

definition name_components :: "(string, string list) dict \<Rightarrow> (string, string list) dict" where
  "name_components component_groups =
     dict_of (map (\<lambda>(idx, (_, members)).
         (''comp_'' @ zero_pad 3 idx @ ''_'' @ hd members, sort members))
       (List.enumerate 1 (sort_key fst component_groups)))"

definition groups_of :: "pyobj list \<Rightarrow> string list result" where
  "groups_of rows = rbind (mapM (\<lambda>r. str_item r ''group_id'') rows) (\<lambda>gs. Ok (sort (dedup gs)))"

definition build_g8_components ::
  "pyobj list \<Rightarrow> (string \<times> string) list option \<Rightarrow> string option \<Rightarrow>
    (string, string list) dict result option" where
  "build_g8_components rows duplicate_edges artifact =
     (case rbind (groups_of rows) (\<lambda>groups.
             rbind (edges_to_apply duplicate_edges artifact) (\<lambda>es. Ok (groups, es))) of
        Raise err \<Rightarrow> Some (Raise err)
      | Ok (groups, es) \<Rightarrow>
          Option.bind (apply_edges (g8_init groups) es) (\<lambda>r. case r of
            Raise err \<Rightarrow> Some (Raise err)
          | Ok uf \<Rightarrow>
              Option.bind (classes_of g8_find uf [] groups) (\<lambda>r'. Some
                (rbind r' (\<lambda>classes. Ok (name_components classes))))))"

lemma split_on_hd: "hd (split_on c s) = takeWhile (\<lambda>x. x \<noteq> c) s \<and> split_on c s \<noteq> []"
  by (induction s) (auto split: list.splits)

lemma contains_char: "contains s [c] \<longleftrightarrow> c \<in> set s"
  by (induction s) (auto simp: prefix_def)

lemma base_group_takeWhile: "base_group u = takeWhile (\<lambda>c. c \<noteq> CHR '':'') u"
proof (cases "CHR '':'' \<in> set u")
  case True
  then show ?thesis by (simp add: base_group_def contains_char split_on_hd)
next
  case False
  then have "takeWhile (\<lambda>c. c \<noteq> CHR '':'') u = u" by (auto simp: takeWhile_eq_all_conv)
  with False show ?thesis by (metis base_group_def contains_char)
qed

text \<open>The edges between groups of the dataset that a list of media or group edges stands for.\<close>

definition group_edges :: "string list \<Rightarrow> (string \<times> string) list \<Rightarrow> (string \<times> string) list" where
  "group_edges groups es =
     filter (\<lambda>(a, b). a \<in> set groups \<and> b \<in> set groups) (map (\<lambda>(u, v). (base_group u, base_group v)) es)"

lemma apply_edges_union_all:
  assumes "uf_inv uf" "dom uf = set groups"
  shows "apply_edges uf es = union_all g8_union uf (group_edges groups es)"
  using assms
proof (induction es arbitrary: uf)
  case Nil
  then show ?case by (simp add: group_edges_def)
next
  case (Cons e es)
  let ?a = "base_group (fst e)" and ?b = "base_group (snd e)"
  have known: "uf x \<noteq> None \<longleftrightarrow> x \<in> set groups" for x using Cons.prems(2) by auto
  show ?case
  proof (cases "?a \<in> set groups \<and> ?b \<in> set groups")
    case True
    then obtain uf' where uf': "g8_union uf ?a ?b = Some (Ok uf')" "uf_inv uf'" "dom uf' = dom uf"
      using g8.union_total [OF Cons.prems(1), of ?a ?b] Cons.prems(2) by auto
    have "group_edges groups (e # es) = (?a, ?b) # group_edges groups es"
      using True by (cases e) (simp add: group_edges_def)
    with True uf' known Cons show ?thesis by simp
  next
    case False
    then have "group_edges groups (e # es) = group_edges groups es"
      by (cases e) (auto simp: group_edges_def)
    with False known Cons show ?thesis by (auto simp: Let_def)
  qed
qed

text \<open>Names of components are distinct: the number between the first two underscores differs.\<close>

lemma component_name_inj:
  assumes "''comp_'' @ zero_pad 3 i @ ''_'' @ s = ''comp_'' @ zero_pad 3 j @ ''_'' @ t"
  shows "i = j"
proof -
  have "takeWhile is_digit (zero_pad 3 n @ CHR ''_'' # u) = zero_pad 3 n" for n u
    using zero_pad_digits [of 3 n] by (simp add: takeWhile_append2 is_digit_def)
  moreover have "zero_pad 3 i @ CHR ''_'' # s = zero_pad 3 j @ CHR ''_'' # t"
    using assms by (simp only: same_append_eq append_Cons append_Nil list.inject simp_thms)
  then have "takeWhile is_digit (zero_pad 3 i @ CHR ''_'' # s) =
      takeWhile is_digit (zero_pad 3 j @ CHR ''_'' # t)"
    by (rule arg_cong)
  ultimately have "zero_pad 3 i = zero_pad 3 j" by simp
  then show ?thesis by (simp only: zero_pad_inj)
qed

lemma name_components_eq:
  "name_components cg = map (\<lambda>(idx, (_, members)).
      (''comp_'' @ zero_pad 3 idx @ ''_'' @ hd members, sort members))
    (List.enumerate 1 (sort_key fst cg))"
proof -
  let ?name = "\<lambda>(i, p). ''comp_'' @ zero_pad 3 i @ ''_'' @ hd (snd p)"
  have "distinct (map ?name (List.enumerate 1 (sort_key fst cg)))"
  proof (rule distinct_map_enumerate)
    show "i = j" if "?name (i, p) = ?name (j, q)" for i p j q
      using that unfolding prod.case by (rule component_name_inj)
  qed
  then show ?thesis
    unfolding name_components_def by (intro dict_of_id) (simp only: map_map comp_def case_prod_beta' fst_conv)
qed

text \<open>
  The components of a dataset: every group lies in exactly one component, every component holds the
  groups of one connectivity class in order, and the component names are distinct.
\<close>

definition is_partition :: "string list \<Rightarrow> (string \<times> string) list \<Rightarrow> (string, string list) dict \<Rightarrow> bool" where
  "is_partition groups es comps \<longleftrightarrow>
     wf_dict comps \<and>
     (\<forall>(cid, ms) \<in> set comps. ms \<noteq> [] \<and> sorted ms \<and> distinct ms \<and>
        (\<forall>g \<in> set ms. set ms = {h \<in> set groups. connected es g h})) \<and>
     (\<forall>g \<in> set groups. \<exists>!p. p \<in> set comps \<and> g \<in> set (snd p))"

lemma classes_partition:
  assumes f: "\<And>a b. a \<in> set groups \<Longrightarrow> b \<in> set groups \<Longrightarrow> f a = f b \<longleftrightarrow> connected es a b"
    and dist: "distinct groups"
  shows "is_partition groups es (name_components (group_by f groups))"
proof -
  let ?cg = "sort_key fst (group_by f groups)"
  let ?comps = "name_components (group_by f groups)"
  let ?members = "\<lambda>k. filter (\<lambda>x. f x = k) groups"
  have wf: "wf_dict ?comps" by (simp add: name_components_def wf_dict_of)
  have dk: "distinct (map fst ?cg)" by simp
  have cg: "snd (?cg ! i) = ?members (fst (?cg ! i)) \<and> fst (?cg ! i) \<in> f ` set groups"
    if "i < length ?cg" for i
  proof -
    obtain k ms where km: "?cg ! i = (k, ms)" by (cases "?cg ! i")
    with nth_mem [OF that] have "(k, ms) \<in> set (group_by f groups)" by (simp only: set_sort)
    with km show ?thesis by (simp add: in_group_by_iff)
  qed
  have mem: "p \<in> set ?comps \<longleftrightarrow> (\<exists>i < length ?cg. p =
      (''comp_'' @ zero_pad 3 (Suc i) @ ''_'' @ hd (snd (?cg ! i)), sort (snd (?cg ! i))))" for p
    unfolding name_components_eq map_enumerate_conv set_map set_upt image_iff
    by (simp only: case_prod_beta' fst_conv snd_conv atLeastLessThan_iff le0 simp_thms plus_1_eq_Suc Bex_def)
  have cls: "ms \<noteq> [] \<and> sorted ms \<and> distinct ms \<and>
      (\<forall>g \<in> set ms. set ms = {h \<in> set groups. connected es g h})" if "(cid, ms) \<in> set ?comps" for cid ms
  proof -
    from that obtain i where i: "i < length ?cg" "ms = sort (snd (?cg ! i))" by (auto simp: mem)
    then obtain k where k: "k \<in> f ` set groups" "ms = sort (?members k)" using cg [of i] by auto
    have "?members k \<noteq> []" using k(1) by (auto simp: filter_empty_conv)
    then have "ms \<noteq> []" using k(2) by (metis set_empty set_sort)
    moreover have "{h \<in> set groups. connected es g h} = {h \<in> set groups. f g = f h}" if "g \<in> set groups" for g
      using f that by auto
    ultimately show ?thesis using k(2) dist by auto
  qed
  have ex: "\<exists>p. p \<in> set ?comps \<and> g \<in> set (snd p)" if "g \<in> set groups" for g
  proof -
    have "(f g, ?members (f g)) \<in> set ?cg" using that by (simp add: in_group_by_iff)
    then obtain i where "i < length ?cg" "?cg ! i = (f g, ?members (f g))" by (metis in_set_conv_nth)
    then have "(''comp_'' @ zero_pad 3 (Suc i) @ ''_'' @ hd (?members (f g)), sort (?members (f g))) \<in> set ?comps"
      unfolding mem by auto
    then show ?thesis using that by (intro exI conjI) auto
  qed
  have uniq: "p = q" if pq: "p \<in> set ?comps" "q \<in> set ?comps" "g \<in> set (snd p)" "g \<in> set (snd q)" for p q g
  proof -
    from pq(1,3) obtain i where i: "i < length ?cg" "g \<in> set (snd (?cg ! i))"
      "p = (''comp_'' @ zero_pad 3 (Suc i) @ ''_'' @ hd (snd (?cg ! i)), sort (snd (?cg ! i)))"
      by (auto simp: mem)
    from pq(2,4) obtain j where j: "j < length ?cg" "g \<in> set (snd (?cg ! j))"
      "q = (''comp_'' @ zero_pad 3 (Suc j) @ ''_'' @ hd (snd (?cg ! j)), sort (snd (?cg ! j)))"
      by (auto simp: mem)
    have "fst (?cg ! i) = fst (?cg ! j)" using cg [OF i(1)] cg [OF j(1)] i(2) j(2) by simp
    then have "i = j" using dk i(1) j(1) by (simp add: distinct_conv_nth) metis
    with i(3) j(3) show ?thesis by simp
  qed
  show ?thesis unfolding is_partition_def using wf cls ex uniq by blast
qed


lemma build_g8_components_partition:
  assumes "groups_of rows = Ok groups" "edges_to_apply dup artifact = Ok es"
  shows "\<exists>comps. build_g8_components rows dup artifact = Some (Ok comps) \<and>
    is_partition groups (group_edges groups es) comps"
proof -
  have dist: "distinct groups" using assms(1) by (auto simp: groups_of_def run_ok)
  have known: "\<forall>(u, v) \<in> set (group_edges groups es). u \<in> set groups \<and> v \<in> set groups"
    by (auto simp: group_edges_def)
  obtain s f where s: "union_all g8_union (g8_init groups) (group_edges groups es) = Some (Ok s)"
    "classes_of g8_find s [] groups = Some (Ok (group_by f groups))"
    "\<And>a b. a \<in> set groups \<Longrightarrow> b \<in> set groups \<Longrightarrow> f a = f b \<longleftrightarrow> connected (group_edges groups es) a b"
    using g8.build_classes [OF known] by metis
  have "apply_edges (g8_init groups) es = union_all g8_union (g8_init groups) (group_edges groups es)"
    by (rule apply_edges_union_all) (simp_all add: g8.init_invar g8.init_elems)
  then have "build_g8_components rows dup artifact = Some (Ok (name_components (group_by f groups)))"
    by (simp add: build_g8_components_def assms s)
  with classes_partition [OF s(3) dist] show ?thesis by blast
qed

text \<open>
  C8: On well-formed rows, with edges passed or a readable cluster file, build_g8_components
  returns, and its components are exactly the connectivity classes of the dialogue groups under
  the edges: sorted, non-empty, distinctly named, every group in exactly one.
\<close>

theorem build_g8_components_classes:
  assumes "groups_of rows = Ok groups" "edges_to_apply dup artifact = Ok es"
  shows "\<exists>comps. build_g8_components rows dup artifact = Some (Ok comps) \<and>
    is_partition groups (group_edges groups es) comps"
  by (rule build_g8_components_partition [OF assms])


section \<open>The split search\<close>

text \<open>A \<^verbatim>\<open>Counter\<close> is a dictionary whose missing keys count zero.\<close>

type_synonym counter = "(string, nat) dict"

definition count_up :: "counter \<Rightarrow> string \<Rightarrow> counter" where
  "count_up d s = AList.update s (dict_get d s 0 + 1) d"

definition add_counts :: "counter \<Rightarrow> counter \<Rightarrow> counter" where
  "add_counts d c = foldl (\<lambda>d (s, cnt). AList.update s (dict_get d s 0 + cnt) d) d c"

definition counter_sum :: "counter \<Rightarrow> nat" where
  "counter_sum c = sum_list (map snd c)"

text \<open>\<^verbatim>\<open>max(8, int(0.15 * q))\<close>\<close>

definition quota_tol :: "nat \<Rightarrow> nat" where
  "quota_tol q = max 8 (15 * q div 100)"

definition within_quotas :: "(string \<Rightarrow> nat) \<Rightarrow> bool" where
  "within_quotas counts \<longleftrightarrow>
     list_all (\<lambda>(s, q). \<bar>int (counts s) - int q\<bar> \<le> int (quota_tol q)) DEV_QUOTAS"

text \<open>
  \<^verbatim>\<open>search(idx, current_sum, current_counts)\<close>: the list holds the components from \<open>idx\<close> on, and the
  chosen components so far are passed along in place of the nonlocal list that is pushed and popped.
  The result of a successful search are the two nonlocals.
\<close>

fun g8_search ::
  "(string \<Rightarrow> counter) \<Rightarrow> string list \<Rightarrow> nat \<Rightarrow> counter \<Rightarrow> string list \<Rightarrow> (string list \<times> counter) option"
where
  "g8_search comp_counts cids current_sum current_counts target =
     (if current_sum = TOTAL_DEV then
        (if within_quotas (\<lambda>s. dict_get current_counts s 0) then Some (target, current_counts) else None)
      else
        (case cids of
           [] \<Rightarrow> None
         | cid # rest \<Rightarrow>
             if current_sum > TOTAL_DEV then None
             else if current_sum + sum_list (map (\<lambda>c. counter_sum (comp_counts c)) cids) < TOTAL_DEV
             then None
             else
               (case g8_search comp_counts rest (current_sum + counter_sum (comp_counts cid))
                       (add_counts current_counts (comp_counts cid)) (target @ [cid]) of
                  Some found \<Rightarrow> Some found
                | None \<Rightarrow> g8_search comp_counts rest current_sum current_counts target)))"

declare g8_search.simps [simp del]

definition group_to_comp :: "(string, string list) dict \<Rightarrow> (string, string) dict" where
  "group_to_comp components =
     dict_of (concat (map (\<lambda>(cid, members). map (\<lambda>m. (m, cid)) members) components))"

definition count_components ::
  "(string, string list) dict \<Rightarrow> pyobj list \<Rightarrow> (string, counter) dict result" where
  "count_components components rows =
     foldM (\<lambda>counts r.
        rbind (str_item r ''group_id'') (\<lambda>g.
        rbind (dict_item (group_to_comp components) g) (\<lambda>cid.
        rbind (str_item r ''stratum'') (\<lambda>s.
          Ok (AList.update cid (count_up (dict_get counts cid []) s) counts)))))
       (map (\<lambda>(cid, _). (cid, [])) components) rows"

definition salted_cids :: "string \<Rightarrow> (string, string list) dict \<Rightarrow> string list" where
  "salted_cids split_salt components =
     sort_key (\<lambda>c. (sha256_hex (utf8_encode (split_salt @ '':'' @ c)), c)) (dict_keys components)"

record split_report =
  split_salt :: string
  dev_count :: nat
  test_count :: nat
  dev_groups :: "string list"
  test_groups :: "string list"
  strata_report :: "(string, (string, json) dict) dict"

definition stratum_entry :: "counter \<Rightarrow> counter \<Rightarrow> string \<Rightarrow> nat \<Rightarrow> (string, json) dict" where
  "stratum_entry dev_strata test_strata s dev_q =
     (let d_act = dict_get dev_strata s 0; t_act = dict_get test_strata s 0;
          diff = int d_act - int dev_q; tol = quota_tol dev_q
      in [(''dev_actual'', JInt (int d_act)), (''dev_quota'', JInt (int dev_q)),
          (''test_actual'', JInt (int t_act)), (''test_quota'', JInt (int (dict_get TEST_QUOTAS s 0))),
          (''dev_diff'', JInt diff), (''tolerance'', JInt (int tol)),
          (''status'', JStr (if \<bar>diff\<bar> \<le> int tol then ''passed'' else ''quota_infeasible''))])"

definition assign_splits_g8 ::
  "(string, string list) dict \<Rightarrow> pyobj list \<Rightarrow> string \<Rightarrow> ((string, string) dict \<times> split_report \<times> bool) result"
where
  "assign_splits_g8 components rows salt =
     rbind (count_components components rows) (\<lambda>counts.
       let comp_counts = (\<lambda>c. dict_get counts c []);
           found = g8_search comp_counts (salted_cids salt components) 0 [] [];
           quota_infeasible = (found = None);
           (target, dev_strata) = (case found of Some (t, d) \<Rightarrow> (t, d) | None \<Rightarrow> ([], []));
           assignment = map (\<lambda>(cid, _). (cid, if cid \<in> set target then ''dev'' else ''test'')) components;
           in_split = (\<lambda>sp cid. map_of assignment cid = Some sp);
           size_of = (\<lambda>sp. sum_list (map (\<lambda>cid. counter_sum (comp_counts cid))
                        (filter (in_split sp) (dict_keys components))));
           test_strata = foldl add_counts []
             (map snd (filter (\<lambda>(cid, _). in_split ''test'' cid) counts));
           groups = (\<lambda>sp. sort (dedup (concat (map snd (filter (\<lambda>(cid, _). in_split sp cid) components)))));
           report = \<lparr>split_salt = salt, dev_count = size_of ''dev'', test_count = size_of ''test'',
             dev_groups = groups ''dev'', test_groups = groups ''test'',
             strata_report = map (\<lambda>(s, q). (s, stratum_entry dev_strata test_strata s q))
               (sort_key fst DEV_QUOTAS)\<rparr>
       in if \<not> quota_infeasible \<and> (size_of ''dev'' \<noteq> TOTAL_DEV \<or> size_of ''test'' \<noteq> TOTAL_TEST)
          then Raise (ValueError ''Total split mismatch'')
          else if quota_infeasible then Raise (ValueError ''G7a quota infeasible'')
          else Ok (assignment, report, quota_infeasible))"

section \<open>Leak checks\<close>

definition check_cross_split_leak :: "(string, string) dict \<Rightarrow> string \<times> string \<Rightarrow> string" where
  "check_cross_split_leak assignment edge =
     (let s1 = map_of assignment (base_group (fst edge)); s2 = map_of assignment (base_group (snd edge)) in
      if s1 \<noteq> None \<and> s1 \<noteq> Some [] \<and> s2 \<noteq> None \<and> s2 \<noteq> Some [] \<and> s1 \<noteq> s2
      then ''audit_finding: cross_split_leak'' else ''ok'')"

definition validate_cross_split_leak ::
  "(string, string) dict \<Rightarrow> (string \<times> string) list \<Rightarrow> unit result" where
  "validate_cross_split_leak assignment duplicate_edges =
     forM (\<lambda>edge. let finding = check_cross_split_leak assignment edge in
        if finding \<noteq> ''ok'' then Raise (ValueError finding) else Ok ()) duplicate_edges"

section \<open>Counting\<close>

lemma dict_get_notin: "k \<notin> set (dict_keys d) \<Longrightarrow> dict_get d k v = v"
  by (simp add: dict_get_def map_of_eq_None_iff [THEN iffD2])

lemma dict_get_Nil [simp]: "dict_get [] k v = v"
  by (simp add: dict_get_def)

lemma counter_sum_update:
  "wf_dict d \<Longrightarrow> counter_sum (AList.update s n d) + dict_get d s 0 = counter_sum d + n"
proof (induction d)
  case Nil
  then show ?case by (simp add: counter_sum_def dict_get_def)
next
  case (Cons p d)
  obtain k m where p: "p = (k, m)" by (cases p)
  from Cons have IH: "counter_sum (AList.update s n d) + dict_get d s 0 = counter_sum d + n" by simp
  show ?case
  proof (cases "k = s")
    case True
    then show ?thesis using p by (simp add: counter_sum_def dict_get_def)
  next
    case False
    then have "dict_get (p # d) s 0 = dict_get d s 0" using p by (simp add: dict_get_def)
    with IH False p show ?thesis by (simp add: counter_sum_def)
  qed
qed

lemma count_up_counts:
  assumes "wf_dict d"
  shows "wf_dict (count_up d s)" "counter_sum (count_up d s) = counter_sum d + 1"
    "dict_get (count_up d s) t 0 = dict_get d t 0 + (if t = s then 1 else 0)"
  using counter_sum_update [OF assms, of s "dict_get d s 0 + 1"] assms
  by (simp_all add: count_up_def wf_dict_update dict_get_update)

lemma add_counts_get: "wf_dict c \<Longrightarrow> dict_get (add_counts d c) s 0 = dict_get d s 0 + dict_get c s 0"
proof (induction c arbitrary: d)
  case Nil
  then show ?case by (simp add: add_counts_def dict_get_def)
next
  case (Cons p c)
  obtain k n where p: "p = (k, n)" by (cases p)
  have "add_counts d (p # c) = add_counts (AList.update k (dict_get d k 0 + n) d) c"
    by (simp add: add_counts_def p)
  with Cons p show ?case by (auto simp: dict_get_update dict_get_notin) (auto simp: dict_get_def)
qed

lemma counter_sum_zero: "wf_dict c \<Longrightarrow> counter_sum c = 0 \<Longrightarrow> dict_get c s 0 = 0"
  by (force simp: counter_sum_def dict_get_def split: option.splits dest: map_of_SomeD)

section \<open>The search\<close>

text \<open>
  The search keeps to its specification: it returns the first sublist, in the order of the branches,
  whose sizes add up to the target and whose counts are within the quotas, and it fails exactly when
  there is none.
\<close>

abbreviation sizes :: "(string \<Rightarrow> counter) \<Rightarrow> string list \<Rightarrow> nat" where
  "sizes cc D \<equiv> sum_list (map (\<lambda>c. counter_sum (cc c)) D)"

abbreviation counts_of :: "(string \<Rightarrow> counter) \<Rightarrow> string list \<Rightarrow> string \<Rightarrow> nat" where
  "counts_of cc D s \<equiv> sum_list (map (\<lambda>c. dict_get (cc c) s 0) D)"

lemma g8_search_sound:
  assumes "\<And>c. wf_dict (cc c)"
  shows "g8_search cc cids n counts target = Some (t, d) \<Longrightarrow>
    \<exists>D. subseq D cids \<and> t = target @ D \<and> n + sizes cc D = TOTAL_DEV \<and>
      (\<forall>s. dict_get d s 0 = dict_get counts s 0 + counts_of cc D s) \<and>
      within_quotas (\<lambda>s. dict_get d s 0)"
proof (induction cids arbitrary: n counts target)
  case Nil
  then show ?case by (simp add: g8_search.simps [of _ "[]"] split: if_splits)
next
  case (Cons cid cids)
  show ?case
  proof (cases "n = TOTAL_DEV")
    case True
    with Cons.prems show ?thesis
      by (intro exI [of _ "[]"]) (auto simp: g8_search.simps [of _ "cid # cids"] split: if_splits)
  next
    case False
    with Cons.prems consider
        "g8_search cc cids (n + counter_sum (cc cid)) (add_counts counts (cc cid)) (target @ [cid]) = Some (t, d)"
      | "g8_search cc cids n counts target = Some (t, d)"
      by (auto simp: g8_search.simps [of _ "cid # cids"] split: if_splits option.splits)
    then show ?thesis
    proof cases
      case 1
      from Cons.IH [OF this] obtain D where "subseq D cids" "t = target @ cid # D"
        "n + sizes cc (cid # D) = TOTAL_DEV" "within_quotas (\<lambda>s. dict_get d s 0)"
        "\<forall>s. dict_get d s 0 = dict_get counts s 0 + counts_of cc (cid # D) s"
        by (auto simp: add_counts_get assms add.assoc)
      then show ?thesis by (intro exI [of _ "cid # D"]) simp
    next
      case 2
      from Cons.IH [OF this] show ?thesis by (metis list_emb_Cons)
    qed
  qed
qed

lemma sum_list_subseq_le: "subseq xs ys \<Longrightarrow> sum_list (map f xs) \<le> sum_list (map f ys)" for f :: "'a \<Rightarrow> nat"
  by (induction rule: list_emb.induct) auto

lemma subseq_set: "subseq xs ys \<Longrightarrow> set xs \<subseteq> set ys"
  by (induction rule: list_emb.induct) auto

lemma subseq_distinct: "subseq xs ys \<Longrightarrow> distinct ys \<Longrightarrow> distinct xs"
  by (induction rule: list_emb.induct) (auto dest: subseq_set)

lemma within_quotas_cong: "(\<And>s. f s = g s) \<Longrightarrow> within_quotas f = within_quotas g"
  by (simp add: within_quotas_def)

lemma g8_search_complete:
  assumes wf: "\<And>c. wf_dict (cc c)"
  shows "\<lbrakk>subseq D cids; n + sizes cc D = TOTAL_DEV;
      within_quotas (\<lambda>s. dict_get counts s 0 + counts_of cc D s)\<rbrakk> \<Longrightarrow>
    g8_search cc cids n counts target \<noteq> None"
proof (induction cids arbitrary: D n counts target)
  case Nil
  then show ?case by (cases D) (simp_all add: g8_search.simps [of _ "[]"])
next
  case (Cons cid cids)
  show ?case
  proof (cases "n = TOTAL_DEV")
    case True
    with Cons.prems(2) have "\<forall>c \<in> set D. counter_sum (cc c) = 0" by simp
    then have "counts_of cc D s = 0" for s by (simp add: counter_sum_zero wf)
    with Cons.prems(3) True show ?thesis by (simp add: g8_search.simps [of _ "cid # cids"])
  next
    case False
    have "sizes cc D \<le> sizes cc (cid # cids)"
      using Cons.prems(1) sum_list_subseq_le [of D "cid # cids"] by simp
    then have enough: "\<not> n + sizes cc (cid # cids) < TOTAL_DEV" "\<not> TOTAL_DEV < n"
      using Cons.prems(2) by auto
    from Cons.prems(1) consider D' where "D = cid # D'" "subseq D' cids" | "subseq D cids"
      by (cases D) (auto split: if_splits)
    then show ?thesis
    proof cases
      case 1
      have "g8_search cc cids (n + counter_sum (cc cid)) (add_counts counts (cc cid)) (target @ [cid]) \<noteq> None"
        by (rule Cons.IH [OF 1(2)]) (use Cons.prems 1 in \<open>simp_all add: add_counts_get wf add.assoc\<close>)
      with False enough show ?thesis
        by (auto simp: g8_search.simps [of _ "cid # cids"] split: option.splits)
    next
      case 2
      have "g8_search cc cids n counts target \<noteq> None"
        by (rule Cons.IH [OF 2]) (use Cons.prems in simp_all)
      with False enough show ?thesis
        by (auto simp: g8_search.simps [of _ "cid # cids"] split: option.splits)
    qed
  qed
qed


section \<open>Rows and their components\<close>

definition row_comp :: "(string, string list) dict \<Rightarrow> pyobj \<Rightarrow> string option" where
  "row_comp components r =
     (case map_of r ''group_id'' of Some (JStr g) \<Rightarrow> map_of (group_to_comp components) g | _ \<Rightarrow> None)"

definition row_stratum :: "pyobj \<Rightarrow> string option" where
  "row_stratum r = (case map_of r ''stratum'' of Some (JStr s) \<Rightarrow> Some s | _ \<Rightarrow> None)"

definition comp_rows :: "(string, string list) dict \<Rightarrow> pyobj list \<Rightarrow> string set \<Rightarrow> pyobj list" where
  "comp_rows components rows C = filter (\<lambda>r. \<exists>c \<in> C. row_comp components r = Some c) rows"

abbreviation stratum_rows :: "string \<Rightarrow> pyobj list \<Rightarrow> pyobj list" where
  "stratum_rows s rows \<equiv> filter (\<lambda>r. row_stratum r = Some s) rows"

lemma group_to_comp_key: "map_of (group_to_comp components) g = Some c \<Longrightarrow> c \<in> set (dict_keys components)"
proof -
  assume "map_of (group_to_comp components) g = Some c"
  then have "map_of (rev (concat (map (\<lambda>(cid, members). map (\<lambda>m. (m, cid)) members) components))) g = Some c"
    by (simp add: group_to_comp_def map_of_dict_of)
  then have "(g, c) \<in> set (concat (map (\<lambda>(cid, members). map (\<lambda>m. (m, cid)) members) components))"
    by (metis map_of_SomeD set_rev)
  then show ?thesis by force
qed

lemma count_components_rows:
  assumes "count_components components rows = Ok counts" "wf_dict components"
  shows "dict_keys counts = dict_keys components \<and> (\<forall>c. wf_dict (dict_get counts c [])) \<and>
    (\<forall>r \<in> set rows. row_comp components r \<noteq> None \<and> row_stratum r \<noteq> None) \<and>
    (\<forall>c. counter_sum (dict_get counts c []) = length (comp_rows components rows {c})) \<and>
    (\<forall>c s. dict_get (dict_get counts c []) s 0 = length (stratum_rows s (comp_rows components rows {c})))"
  using assms(1) unfolding count_components_def
proof (induction rows arbitrary: counts rule: rev_induct)
  case Nil
  have "dict_get (map (\<lambda>(cid, _). (cid, [] :: counter)) components) c [] = []" for c
    by (auto simp: dict_get_def split: option.splits dest!: map_of_SomeD)
  with Nil show ?case
    by (auto simp: comp_rows_def counter_sum_def dict_get_def [of "[]"] comp_def case_prod_beta')
next
  case (snoc r rows)
  from snoc.prems obtain m g cid s where m:
    "foldM (\<lambda>counts r. rbind (str_item r ''group_id'') (\<lambda>g.
        rbind (dict_item (group_to_comp components) g) (\<lambda>cid.
        rbind (str_item r ''stratum'') (\<lambda>s.
          Ok (AList.update cid (count_up (dict_get counts cid []) s) counts)))))
       (map (\<lambda>(cid, _). (cid, [])) components) rows = Ok m"
    and r: "map_of r ''group_id'' = Some (JStr g)" "map_of (group_to_comp components) g = Some cid"
      "map_of r ''stratum'' = Some (JStr s)"
    and counts: "counts = AList.update cid (count_up (dict_get m cid []) s) m"
    by (auto simp: foldM_append run_ok)
  note IH = snoc.IH [OF m]
  have key: "cid \<in> set (dict_keys m)" using group_to_comp_key [OF r(2)] IH by simp
  have rc: "row_comp components r = Some cid" "row_stratum r = Some s"
    by (simp_all add: row_comp_def row_stratum_def r)
  have rows: "comp_rows components (rows @ [r]) {c} = comp_rows components rows {c} @ (if c = cid then [r] else [])" for c
    by (auto simp: comp_rows_def rc)
  show ?case
    using IH key by (auto simp: counts dict_keys_update dict_get_update count_up_counts rows rc)
qed


section \<open>What an accepted assignment guarantees\<close>

text \<open>The rows an assignment puts in a split.\<close>

definition split_rows ::
  "(string, string list) dict \<Rightarrow> (string, string) dict \<Rightarrow> string \<Rightarrow> pyobj list \<Rightarrow> pyobj list" where
  "split_rows components assignment sp rows =
     filter (\<lambda>r. \<exists>c. row_comp components r = Some c \<and> map_of assignment c = Some sp) rows"

lemma length_comp_rows:
  "distinct D \<Longrightarrow> sum_list (map (\<lambda>c. length (filter P (comp_rows comps rows {c}))) D) =
    length (filter P (comp_rows comps rows (set D)))"
proof (induction D)
  case (Cons c D)
  have "length (filter P (comp_rows comps rows {c})) + length (filter P (comp_rows comps rows (set D))) =
    length (filter P (comp_rows comps rows (set (c # D))))" using Cons.prems
    by (induction rows) (auto simp: comp_rows_def)
  with Cons show ?case by simp
qed (simp add: comp_rows_def)

lemma sizes_rows:
  assumes "count_components components rows = Ok counts" "wf_dict components" "distinct D"
  shows "sizes (\<lambda>c. dict_get counts c []) D = length (comp_rows components rows (set D))"
    "counts_of (\<lambda>c. dict_get counts c []) D s = length (stratum_rows s (comp_rows components rows (set D)))"
  using count_components_rows [OF assms(1,2)] length_comp_rows [OF assms(3), of "\<lambda>_. True"]
    length_comp_rows [OF assms(3), of "\<lambda>r. row_stratum r = Some s"] by simp_all

lemma salted_cids_perm:
  "set (salted_cids salt comps) = set (dict_keys comps)"
  "distinct (salted_cids salt comps) \<longleftrightarrow> wf_dict comps"
  using distinct_map_sort_key [of "\<lambda>x. x"] by (simp_all add: salted_cids_def)

lemma map_of_assignment:
  "map_of (map (\<lambda>(cid, _). (cid, if cid \<in> D then a else b)) comps) c =
    (if c \<in> set (dict_keys comps) then Some (if c \<in> D then a else b) else None)"
  by (induction comps) auto

lemma split_rows_comp_rows:
  "split_rows components (map (\<lambda>(cid, _). (cid, if cid \<in> D then ''dev'' else ''test'')) components) sp rows =
    comp_rows components rows {c \<in> set (dict_keys components). (if c \<in> D then ''dev'' else ''test'') = sp}"
  unfolding split_rows_def map_of_assignment
  by (auto simp: comp_rows_def intro!: filter_cong)

lemma assign_splits_g8_found:
  assumes "assign_splits_g8 components rows salt = Ok (assignment, report, infeasible)" "wf_dict components"
  shows "\<not> infeasible \<and> dict_keys assignment = dict_keys components \<and>
    set (map snd assignment) \<subseteq> {''dev'', ''test''} \<and>
    length (split_rows components assignment ''dev'' rows) = TOTAL_DEV \<and>
    length (split_rows components assignment ''test'' rows) = TOTAL_TEST \<and>
    within_quotas (\<lambda>s. length (stratum_rows s (split_rows components assignment ''dev'' rows))) \<and>
    (\<exists>D \<subseteq> set (dict_keys components).
      split_rows components assignment ''dev'' rows = comp_rows components rows D)"
proof -
  from assms(1) obtain counts where counts: "count_components components rows = Ok counts"
    by (auto simp: assign_splits_g8_def run_ok)
  let ?cc = "\<lambda>c. dict_get counts c []"
  from assms(1) obtain target dev_strata where
    found: "g8_search ?cc (salted_cids salt components) 0 [] [] = Some (target, dev_strata)"
    and asg: "assignment = map (\<lambda>(cid, _). (cid, if cid \<in> set target then ''dev'' else ''test'')) components"
    and inf: "\<not> infeasible"
    and tot: "sizes ?cc (filter (\<lambda>c. map_of assignment c = Some ''test'') (dict_keys components)) = TOTAL_TEST"
    by (auto simp: assign_splits_g8_def counts Let_def split: option.splits if_splits)
  have wf: "wf_dict (?cc c)" for c using count_components_rows [OF counts assms(2)] by blast
  obtain D where D: "subseq D (salted_cids salt components)" "target = D"
    "sizes ?cc D = TOTAL_DEV" "\<And>s. dict_get dev_strata s 0 = counts_of ?cc D s"
    "within_quotas (\<lambda>s. dict_get dev_strata s 0)"
    using g8_search_sound [OF wf found] by (auto simp: dict_get_def)
  have dD: "distinct D" "set D \<subseteq> set (dict_keys components)"
    using subseq_distinct [OF D(1)] subseq_set [OF D(1)] assms(2) by (simp_all add: salted_cids_perm)
  let ?dev = "split_rows components assignment ''dev'' rows"
  let ?test = "split_rows components assignment ''test'' rows"
  have dev: "?dev = comp_rows components rows (set D)"
    unfolding asg D(2) split_rows_comp_rows using dD(2) by (intro arg_cong [of _ _ "comp_rows components rows"]) auto
  have key: "map_of assignment c = Some ''test'' \<longleftrightarrow> c \<notin> set D" if "c \<in> set (dict_keys components)" for c
    using that unfolding asg D(2) map_of_assignment by auto
  have "?test = comp_rows components rows
      (set (filter (\<lambda>c. map_of assignment c = Some ''test'') (dict_keys components)))"
    using key unfolding asg D(2) split_rows_comp_rows
    by (intro arg_cong [of _ _ "comp_rows components rows"]) (auto simp: asg D(2))
  then have "length ?test = TOTAL_TEST"
    using tot assms(2) by (simp only: sizes_rows [OF counts assms(2) distinct_filter])
  moreover have "length ?dev = TOTAL_DEV"
    using D(3) by (simp only: dev sizes_rows [OF counts assms(2) dD(1)])
  moreover have "within_quotas (\<lambda>s. length (stratum_rows s ?dev))"
    using D(4,5) by (simp only: dev sizes_rows [OF counts assms(2) dD(1)])
  moreover have "dict_keys assignment = dict_keys components" "set (map snd assignment) \<subseteq> {''dev'', ''test''}"
    unfolding asg by (simp add: comp_def case_prod_beta') auto
  ultimately show ?thesis using inf dev dD(2) by blast
qed

text \<open>
  C10: An accepted assignment is total over the components and puts exactly 416 rows into dev
  and 623 into test, with every stratum of dev within its quota tolerance.
\<close>

theorem assign_splits_g8_sound:
  assumes "assign_splits_g8 components rows salt = Ok (assignment, report, infeasible)" "wf_dict components"
  shows "dict_keys assignment = dict_keys components \<and>
    set (map snd assignment) \<subseteq> {''dev'', ''test''} \<and>
    length (split_rows components assignment ''dev'' rows) = TOTAL_DEV \<and>
    length (split_rows components assignment ''test'' rows) = TOTAL_TEST \<and>
    within_quotas (\<lambda>s. length (stratum_rows s (split_rows components assignment ''dev'' rows)))"
  using assign_splits_g8_found [OF assms] by blast


lemma count_components_total:
  assumes "\<forall>r \<in> set rows. row_comp components r \<noteq> None \<and> row_stratum r \<noteq> None"
  shows "\<exists>counts. count_components components rows = Ok counts"
  unfolding count_components_def using assms
proof (induction rows rule: rev_induct)
  case (snoc r rows)
  then obtain g c s where "map_of r ''group_id'' = Some (JStr g)" "map_of (group_to_comp components) g = Some c"
    "map_of r ''stratum'' = Some (JStr s)"
    by (force simp: row_comp_def row_stratum_def split: option.splits json.splits)
  then have "str_item r ''group_id'' = Ok g" "dict_item (group_to_comp components) g = Ok c"
    "str_item r ''stratum'' = Ok s" by (simp_all add: run_ok)
  with snoc show ?case by (auto simp: foldM_append)
qed simp

lemma comp_rows_compl:
  assumes "\<forall>r \<in> set rows. row_comp components r \<noteq> None" "D \<subseteq> set (dict_keys components)"
  shows "length (comp_rows components rows D) +
    length (comp_rows components rows (set (dict_keys components) - D)) = length rows"
proof -
  have rc: "row_comp components r = Some c \<Longrightarrow> c \<in> set (dict_keys components)" for r c
    by (auto simp: row_comp_def dest: group_to_comp_key split: option.splits json.splits)
  then have "comp_rows components rows (set (dict_keys components) - D) =
      filter (\<lambda>r. \<not> (\<exists>c \<in> D. row_comp components r = Some c)) rows"
    unfolding comp_rows_def
  proof (intro filter_cong refl)
    fix r assume r: "r \<in> set rows"
    then obtain c where "row_comp components r = Some c" using assms(1) by auto
    with rc show "(\<exists>c \<in> set (dict_keys components) - D. row_comp components r = Some c) \<longleftrightarrow>
      \<not> (\<exists>c \<in> D. row_comp components r = Some c)" by auto
  qed
  then show ?thesis unfolding comp_rows_def
    using sum_length_filter_compl [of "\<lambda>r. \<exists>c \<in> D. row_comp components r = Some c" rows] by simp
qed

lemma assign_splits_g8_total:
  assumes wf: "wf_dict components"
    and rows: "\<forall>r \<in> set rows. row_comp components r \<noteq> None \<and> row_stratum r \<noteq> None"
    and len: "length rows = TOTAL_QUERIES"
    and D: "D \<subseteq> set (dict_keys components)" "length (comp_rows components rows D) = TOTAL_DEV"
      "within_quotas (\<lambda>s. length (stratum_rows s (comp_rows components rows D)))"
  shows "is_ok (assign_splits_g8 components rows salt)"
proof -
  obtain counts where counts: "count_components components rows = Ok counts"
    using count_components_total [OF rows] by blast
  let ?cc = "\<lambda>c. dict_get counts c []"
  have wfc: "wf_dict (?cc c)" for c using count_components_rows [OF counts wf] by blast
  let ?cids = "salted_cids salt components"
  have setD: "set (filter (\<lambda>c. c \<in> D) ?cids) = D" using D(1) by (auto simp: salted_cids_perm)
  have distD: "distinct (filter (\<lambda>c. c \<in> D) ?cids)" using wf by (simp add: salted_cids_perm)
  note eqs = sizes_rows [OF counts wf distD, unfolded setD]
  have "g8_search ?cc ?cids 0 [] [] \<noteq> None"
  proof (rule g8_search_complete [OF wfc subseq_filter_left])
    show "0 + sizes ?cc (filter (\<lambda>c. c \<in> D) ?cids) = TOTAL_DEV" using D(2) eqs(1) by simp
    show "within_quotas (\<lambda>s. dict_get [] s 0 + counts_of ?cc (filter (\<lambda>c. c \<in> D) ?cids) s)"
      using D(3) by (simp only: eqs(2) dict_get_Nil add_0)
  qed
  then obtain target dev_strata where found: "g8_search ?cc ?cids 0 [] [] = Some (target, dev_strata)"
    by auto
  obtain E where E: "subseq E ?cids" "target = E" "sizes ?cc E = TOTAL_DEV"
    using g8_search_sound [OF wfc found] by auto
  have dE: "distinct E" "set E \<subseteq> set (dict_keys components)"
    using subseq_distinct [OF E(1)] subseq_set [OF E(1)] wf by (simp_all add: salted_cids_perm)
  let ?asg = "map (\<lambda>(cid, _). (cid, if cid \<in> set target then ''dev'' else ''test'')) components"
  have dev: "set (filter (\<lambda>c. map_of ?asg c = Some ''dev'') (dict_keys components)) = set E"
    using dE(2) unfolding E(2) map_of_assignment by auto
  have test: "set (filter (\<lambda>c. map_of ?asg c = Some ''test'') (dict_keys components)) =
      set (dict_keys components) - set E"
    unfolding E(2) map_of_assignment by auto
  have "sizes ?cc (filter (\<lambda>c. map_of ?asg c = Some ''dev'') (dict_keys components)) = TOTAL_DEV"
    using sizes_rows(1) [OF counts wf dE(1)] E(3) dev
    by (simp only: sizes_rows(1) [OF counts wf distinct_filter [OF wf]])
  moreover have "sizes ?cc (filter (\<lambda>c. map_of ?asg c = Some ''test'') (dict_keys components)) = TOTAL_TEST"
    using sizes_rows(1) [OF counts wf dE(1)] E(3) comp_rows_compl [of rows components "set E"] rows dE(2) len
    by (simp only: sizes_rows(1) [OF counts wf distinct_filter [OF wf]] test)
      (simp add: TOTAL_DEV_def TOTAL_TEST_def TOTAL_QUERIES_def)
  ultimately show ?thesis by (simp add: assign_splits_g8_def counts found Let_def)
qed

text \<open>
  C11: The pruned branch-and-bound search is complete: on well-formed rows assign_splits_g8
  succeeds exactly when some set of components fills dev within the quotas and leaves 623 rows;
  otherwise it raises.
\<close>

theorem assign_splits_g8_decides:
  assumes "wf_dict components" "length rows = TOTAL_QUERIES"
    "\<forall>r \<in> set rows. row_comp components r \<noteq> None \<and> row_stratum r \<noteq> None"
  shows "is_ok (assign_splits_g8 components rows salt) \<longleftrightarrow>
    (\<exists>D \<subseteq> set (dict_keys components). length (comp_rows components rows D) = TOTAL_DEV \<and>
      within_quotas (\<lambda>s. length (stratum_rows s (comp_rows components rows D))))"
proof
  assume "is_ok (assign_splits_g8 components rows salt)"
  then obtain asg rep inf where ok: "assign_splits_g8 components rows salt = Ok (asg, rep, inf)"
    by (auto simp: is_ok_iff)
  obtain D where D: "D \<subseteq> set (dict_keys components)"
    "split_rows components asg ''dev'' rows = comp_rows components rows D"
    using assign_splits_g8_found [OF ok assms(1)] by blast
  have "length (comp_rows components rows D) = TOTAL_DEV"
    "within_quotas (\<lambda>s. length (stratum_rows s (comp_rows components rows D)))"
    using assign_splits_g8_found [OF ok assms(1)] by (simp_all only: D(2))
  with D(1) show "\<exists>D \<subseteq> set (dict_keys components). length (comp_rows components rows D) = TOTAL_DEV \<and>
      within_quotas (\<lambda>s. length (stratum_rows s (comp_rows components rows D)))" by blast
qed (use assign_splits_g8_total [OF assms(1,3,2)] in blast)

text \<open>A dataset whose development split is one component: the hypotheses of the theorems above hold.\<close>

definition sample_row :: "string \<Rightarrow> string \<Rightarrow> pyobj" where
  "sample_row g s = [(''group_id'', JStr g), (''stratum'', JStr s)]"

definition sample_rows :: "pyobj list" where
  "sample_rows =
     concat (map (\<lambda>(s, q). replicate q (sample_row ''g1'' s)) DEV_QUOTAS) @
     concat (map (\<lambda>(s, q). replicate q
       (sample_row (if s = ''long_range'' then ''g3'' else ''g2'') s)) TEST_QUOTAS)"

definition sample_components :: "(string, string list) dict" where
  "sample_components = [(''comp_001_g1'', [''g1'']), (''comp_002_g2'', [''g2'', ''g3''])]"

lemma sample_row_comp:
  "row_comp sample_components (sample_row ''g1'' s) = Some ''comp_001_g1''"
  "row_comp sample_components (sample_row ''g2'' s) = Some ''comp_002_g2''"
  "row_comp sample_components (sample_row ''g3'' s) = Some ''comp_002_g2''"
  "row_stratum (sample_row g s) = Some s"
  by (simp_all add: row_comp_def sample_row_def row_stratum_def group_to_comp_def sample_components_def dict_of_def)

lemma sample_rows_ok:
  "wf_dict sample_components" "length sample_rows = TOTAL_QUERIES"
  "\<forall>r \<in> set sample_rows. row_comp sample_components r \<noteq> None \<and> row_stratum r \<noteq> None"
proof -
  show "wf_dict sample_components" by (simp add: sample_components_def)
  show "length sample_rows = TOTAL_QUERIES"
    by (simp add: sample_rows_def DEV_QUOTAS_def TEST_QUOTAS_def TOTAL_QUERIES_def)
  show "\<forall>r \<in> set sample_rows. row_comp sample_components r \<noteq> None \<and> row_stratum r \<noteq> None"
    by (auto simp: sample_rows_def sample_row_comp)
qed

lemma sample_dev:
  "comp_rows sample_components sample_rows {''comp_001_g1''} =
    concat (map (\<lambda>(s, q). replicate q (sample_row ''g1'' s)) DEV_QUOTAS)"
  by (simp add: comp_rows_def sample_rows_def DEV_QUOTAS_def TEST_QUOTAS_def sample_row_comp)

lemma sample_assign_ok: "is_ok (assign_splits_g8 sample_components sample_rows ''phase-2-split-salt-v1'')"
proof (rule assign_splits_g8_total [OF sample_rows_ok(1,3,2)])
  show "{''comp_001_g1''} \<subseteq> set (dict_keys sample_components)" by (simp add: sample_components_def)
  show "length (comp_rows sample_components sample_rows {''comp_001_g1''}) = TOTAL_DEV"
    by (simp add: sample_dev DEV_QUOTAS_def TOTAL_DEV_def)
  show "within_quotas (\<lambda>s. length (stratum_rows s (comp_rows sample_components sample_rows {''comp_001_g1''})))"
    unfolding sample_dev by (simp add: DEV_QUOTAS_def within_quotas_def sample_row_comp)
qed

section \<open>Groups and duplicate edges stay in one split\<close>

lemma partition_comp:
  assumes "is_partition groups es comps" "g \<in> set groups"
  obtains cid ms where "(cid, ms) \<in> set comps" "g \<in> set ms"
    "map_of (group_to_comp comps) g = Some cid" "set ms = {h \<in> set groups. connected es g h}"
proof -
  let ?kvs = "concat (map (\<lambda>(cid, members). map (\<lambda>m. (m, cid)) members) comps)"
  from assms obtain cid ms where p: "(cid, ms) \<in> set comps" "g \<in> set ms"
    unfolding is_partition_def by (metis prod.collapse)
  have uniq: "(c, ns) = (cid, ms)" if "(c, ns) \<in> set comps" "g \<in> set ns" for c ns
    using that p assms unfolding is_partition_def by (metis snd_conv)
  have "(g, cid) \<in> set (rev ?kvs)" using p by force
  then obtain c where c: "map_of (rev ?kvs) g = Some c" using weak_map_of_SomeI by fast
  then have "(g, c) \<in> set ?kvs" by (metis map_of_SomeD set_rev)
  then obtain ns where "(c, ns) \<in> set comps" "g \<in> set ns" by auto
  with uniq c have "map_of (group_to_comp comps) g = Some cid"
    by (auto simp: group_to_comp_def map_of_dict_of)
  moreover have "set ms = {h \<in> set groups. connected es g h}"
    using assms(1) p unfolding is_partition_def by blast
  ultimately show ?thesis using that p by blast
qed

lemma partition_same_comp:
  assumes "is_partition groups es comps" "g \<in> set groups" "h \<in> set groups"
  shows "map_of (group_to_comp comps) g = map_of (group_to_comp comps) h \<longleftrightarrow> connected es g h"
proof -
  obtain c ms where g: "(c, ms) \<in> set comps" "g \<in> set ms" "map_of (group_to_comp comps) g = Some c"
    "set ms = {h \<in> set groups. connected es g h}" by (rule partition_comp [OF assms(1,2)])
  obtain d ns where h: "(d, ns) \<in> set comps" "h \<in> set ns" "map_of (group_to_comp comps) h = Some d"
    "set ns = {k \<in> set groups. connected es h k}" by (rule partition_comp [OF assms(1,3)])
  have "wf_dict comps" using assms(1) by (simp add: is_partition_def)
  show ?thesis
  proof
    assume "map_of (group_to_comp comps) g = map_of (group_to_comp comps) h"
    with g h have "c = d" by simp
    with g h \<open>wf_dict comps\<close> have "ms = ns" by (metis map_of_is_SomeI option.inject)
    with g h show "connected es g h" by auto
  next
    assume "connected es g h"
    with g(4) assms(3) have "h \<in> set ms" by simp
    then have "(c, ms) = (d, ns)"
      using assms(1,3) g(1) h(1,2) unfolding is_partition_def by (metis snd_conv)
    with g h show "map_of (group_to_comp comps) g = map_of (group_to_comp comps) h" by simp
  qed
qed

lemma groups_of_row:
  "groups_of rows = Ok groups \<Longrightarrow> r \<in> set rows \<Longrightarrow> map_of r ''group_id'' = Some (JStr g) \<Longrightarrow> g \<in> set groups"
  by (auto simp: groups_of_def run_ok dest: list_all2_setD1)


definition group_splits :: "(string, string list) dict \<Rightarrow> (string, string) dict \<Rightarrow> (string, string) dict" where
  "group_splits comps assignment =
     map (\<lambda>(g, cid). (g, dict_get assignment cid [])) (group_to_comp comps)"

text \<open>
  The leak check on the assignment of groups to splits that an accepted run stands for: no applied
  duplicate edge is reported.
\<close>

lemma validate_leak_Ok_iff:
  "validate_cross_split_leak assignment es = Ok () \<longleftrightarrow>
    (\<forall>(u, v) \<in> set es. \<forall>s t. map_of assignment (base_group u) = Some s \<longrightarrow>
       map_of assignment (base_group v) = Some t \<longrightarrow> s \<noteq> [] \<longrightarrow> t \<noteq> [] \<longrightarrow> s = t)"
proof -
  have "check_cross_split_leak assignment (u, v) = ''ok'' \<longleftrightarrow>
    (\<forall>s t. map_of assignment (base_group u) = Some s \<longrightarrow> map_of assignment (base_group v) = Some t \<longrightarrow>
       s \<noteq> [] \<longrightarrow> t \<noteq> [] \<longrightarrow> s = t)" for u v
    by (auto simp: check_cross_split_leak_def Let_def)
  then show ?thesis by (auto simp: validate_cross_split_leak_def forM_Ok_iff Let_def)
qed


lemma accepted_no_leak:
  assumes "groups_of rows = Ok groups" "edges_to_apply dup artifact = Ok es"
    and "build_g8_components rows dup artifact = Some (Ok comps)"
  shows "validate_cross_split_leak (group_splits comps assignment) es = Ok ()"
proof -
  have part: "is_partition groups (group_edges groups es) comps"
    using build_g8_components_partition [OF assms(1,2)] assms(3) by simp
  have look: "map_of (group_splits comps assignment) g =
      map_option (\<lambda>cid. dict_get assignment cid []) (map_of (group_to_comp comps) g)" for g
    by (simp add: group_splits_def map_of_map)
  have known: "g \<in> set groups" if "map_of (group_to_comp comps) g \<noteq> None" for g
  proof -
    from that obtain c where "map_of (rev (concat (map (\<lambda>(cid, ms). map (\<lambda>m. (m, cid)) ms) comps))) g = Some c"
      by (auto simp: group_to_comp_def map_of_dict_of)
    then have "(g, c) \<in> set (concat (map (\<lambda>(cid, ms). map (\<lambda>m. (m, cid)) ms) comps))"
      by (metis map_of_SomeD set_rev)
    then obtain ms where "(c, ms) \<in> set comps" "g \<in> set ms" by auto
    then show ?thesis using part unfolding is_partition_def by blast
  qed
  have "s = t" if "(u, v) \<in> set es" "map_of (group_splits comps assignment) (base_group u) = Some s"
    "map_of (group_splits comps assignment) (base_group v) = Some t" for u v s t
  proof -
    from that(2,3) have k: "base_group u \<in> set groups" "base_group v \<in> set groups"
      using known by (auto simp: look)
    then have "(base_group u, base_group v) \<in> set (group_edges groups es)"
      using that(1) by (force simp: group_edges_def)
    then have "map_of (group_to_comp comps) (base_group u) = map_of (group_to_comp comps) (base_group v)"
      using partition_same_comp [OF part k] by (simp add: connected_edge)
    with that(2,3) show ?thesis by (auto simp: look)
  qed
  then show ?thesis unfolding validate_leak_Ok_iff by blast
qed

text \<open>The sample dataset, end to end.\<close>

lemma sample_groups: "groups_of sample_rows = Ok [''g1'', ''g2'', ''g3'']"
proof -
  have "mapM (\<lambda>r. str_item r ''group_id'') sample_rows =
    Ok (map (\<lambda>r. case map_of r ''group_id'' of Some (JStr g) \<Rightarrow> g | _ \<Rightarrow> []) sample_rows)"
    by (rule mapM_Ok_map) (auto simp: sample_rows_def sample_row_def str_item_def dict_item_def)
  moreover have "set (map (\<lambda>r. case map_of r ''group_id'' of Some (JStr g) \<Rightarrow> g | _ \<Rightarrow> []) sample_rows) =
    {''g1'', ''g2'', ''g3''}"
    by (auto simp: sample_rows_def sample_row_def DEV_QUOTAS_def TEST_QUOTAS_def)
  ultimately show ?thesis by (simp add: groups_of_def sort_dedup)
qed

lemma sample_build:
  "build_g8_components sample_rows (Some [(''g2:m1'', ''g3:m2'')]) None = Some (Ok sample_components)"
proof -
  have "apply_edges (g8_init [''g1'', ''g2'', ''g3'']) [(''g2:m1'', ''g3:m2'')] =
    Some (Ok ((g8_init [''g1'', ''g2'', ''g3''])(''g3'' \<mapsto> ''g2'')))"
    by (simp add: Let_def base_group_def prefix_def g8_union_def g8_find.simps g8_init_def)
  moreover have "zero_pad 3 (Suc 0) = ''001''" "zero_pad 3 (Suc (Suc 0)) = ''002''" by code_simp+
  ultimately show ?thesis
    by (simp add: build_g8_components_def sample_groups edges_to_apply_def g8_find.simps g8_init_def
      dict_append_def dict_get_def name_components_def dict_of_def sample_components_def)
qed


lemma sample_accepted:
  obtains assignment report where
    "assign_splits_g8 sample_components sample_rows ''phase-2-split-salt-v1'' = Ok (assignment, report, False)"
proof -
  obtain asg rep inf where ok: "assign_splits_g8 sample_components sample_rows ''phase-2-split-salt-v1'' = Ok (asg, rep, inf)"
    using sample_assign_ok by (auto simp: is_ok_iff)
  with assign_splits_g8_found [OF ok sample_rows_ok(1)] that show ?thesis by auto
qed

theorem assign_splits_g8_sound_witness:
  "\<exists>assignment. dict_keys assignment = dict_keys sample_components \<and>
    length (split_rows sample_components assignment ''test'' sample_rows) = TOTAL_TEST"
proof -
  obtain asg rep where
    "assign_splits_g8 sample_components sample_rows ''phase-2-split-salt-v1'' = Ok (asg, rep, False)"
    by (rule sample_accepted)
  from assign_splits_g8_sound [OF this sample_rows_ok(1)] show ?thesis by blast
qed

theorem assign_splits_g8_decides_witness:
  "\<exists>D. length (comp_rows sample_components sample_rows D) = TOTAL_DEV"
  using assign_splits_g8_decides [OF sample_rows_ok] sample_assign_ok by blast

theorem build_g8_components_classes_witness:
  "\<exists>comps. build_g8_components sample_rows (Some [(''g2:m1'', ''g3:m2'')]) None = Some (Ok comps) \<and>
    is_partition [''g1'', ''g2'', ''g3''] (group_edges [''g1'', ''g2'', ''g3''] [(''g2:m1'', ''g3:m2'')]) comps"
  by (rule build_g8_components_classes [OF sample_groups]) (simp add: edges_to_apply_def)


end
