(* ===== verification/Py_Regex.thy ===== *)
theory Py_Regex
  imports Py_Text
begin

text \<open>
  Python's \<^verbatim>\<open>re\<close> on the constructs the program's patterns use: character classes, concatenation,
  alternation, greedy repetition, numbered groups, \<^verbatim>\<open>\b\<close>, \<^verbatim>\<open>^\<close>, \<^verbatim>\<open>$\<close> and one-character look-around.
  \<open>rx_steps\<close> lists the ways a pattern matches at a position in the order the backtracking matcher
  tries them; \<open>search\<close>, \<open>fullmatch\<close>, \<open>sub\<close>, \<open>finditer\<close> and \<open>split\<close> are built on it. The relation
  \<open>rx_rel\<close> says what a match is; the matcher finds one exactly when there is one.
\<close>

section \<open>Patterns\<close>

datatype regex =
    Eps
  | Chr "char \<Rightarrow> bool"
  | Seq regex regex
  | Alt regex regex
  | Star regex
  | Grp nat regex
  | WordB
  | Bos
  | Eos
  | Behind "char \<Rightarrow> bool"
  | Ahead "char \<Rightarrow> bool"

definition is_char :: "char \<Rightarrow> char \<Rightarrow> bool" where
  "is_char c x \<longleftrightarrow> x = c"

definition one_of :: "string \<Rightarrow> char \<Rightarrow> bool" where
  "one_of cs x \<longleftrightarrow> x \<in> set cs"

text \<open>\<^verbatim>\<open>re.IGNORECASE\<close> on a class.\<close>

definition any_case :: "(char \<Rightarrow> bool) \<Rightarrow> char \<Rightarrow> bool" where
  "any_case P x \<longleftrightarrow> P x \<or> P (to_lower x) \<or> P (to_upper x)"

primrec rx_lit :: "string \<Rightarrow> regex" where
  "rx_lit [] = Eps"
| "rx_lit (c # cs) = Seq (Chr (is_char c)) (rx_lit cs)"

primrec rx_liti :: "string \<Rightarrow> regex" where
  "rx_liti [] = Eps"
| "rx_liti (c # cs) = Seq (Chr (any_case (is_char c))) (rx_liti cs)"

fun rx_seq :: "regex list \<Rightarrow> regex" where
  "rx_seq [] = Eps"
| "rx_seq [r] = r"
| "rx_seq (r # rs) = Seq r (rx_seq rs)"

fun rx_alt :: "regex list \<Rightarrow> regex" where
  "rx_alt [] = Chr (\<lambda>_. False)"
| "rx_alt [r] = r"
| "rx_alt (r # rs) = Alt r (rx_alt rs)"

definition rx_plus :: "regex \<Rightarrow> regex" where
  "rx_plus r = Seq r (Star r)"

abbreviation rx_opt :: "regex \<Rightarrow> regex" where
  "rx_opt r \<equiv> Alt r Eps"

primrec rx_times :: "nat \<Rightarrow> regex \<Rightarrow> regex" where
  "rx_times 0 r = Eps"
| "rx_times (Suc n) r = Seq r (rx_times n r)"

primrec rx_upto :: "nat \<Rightarrow> regex \<Rightarrow> regex" where
  "rx_upto 0 r = Eps"
| "rx_upto (Suc n) r = rx_opt (Seq r (rx_upto n r))"

section \<open>The matcher\<close>

text \<open>
  A position holds the text before it, last character first, the text after it, and the groups
  matched so far.
\<close>

type_synonym rx_state = "string \<times> string \<times> (nat \<times> string) list"

definition word_boundary :: "string \<Rightarrow> string \<Rightarrow> bool" where
  "word_boundary p s \<longleftrightarrow> (p \<noteq> [] \<and> is_word (hd p)) \<noteq> (s \<noteq> [] \<and> is_word (hd s))"

abbreviation rx_rest :: "rx_state \<Rightarrow> string" where
  "rx_rest st \<equiv> fst (snd st)"

text \<open>
  A greedy repetition tries another round before it stops; a round that consumes nothing ends it. The
  text left bounds the number of rounds.
\<close>

primrec rx_iter :: "(rx_state \<Rightarrow> rx_state list) \<Rightarrow> nat \<Rightarrow> rx_state \<Rightarrow> rx_state list" where
  "rx_iter f 0 st = [st]"
| "rx_iter f (Suc n) st =
     concat (map (\<lambda>st'. if length (rx_rest st') < length (rx_rest st) then rx_iter f n st' else []) (f st)) @ [st]"

definition rx_char :: "(char \<Rightarrow> bool) \<Rightarrow> rx_state \<Rightarrow> rx_state list" where
  "rx_char P st = (case st of (p, s, g) \<Rightarrow>
     (case s of [] \<Rightarrow> [] | c # cs \<Rightarrow> if P c then [(c # p, cs, g)] else []))"

definition rx_guard :: "(string \<Rightarrow> string \<Rightarrow> bool) \<Rightarrow> rx_state \<Rightarrow> rx_state list" where
  "rx_guard b st = (case st of (p, s, g) \<Rightarrow> if b p s then [st] else [])"

definition rx_group :: "nat \<Rightarrow> rx_state \<Rightarrow> rx_state \<Rightarrow> rx_state" where
  "rx_group n st st' = (case (st, st') of ((p, s, g), (p', s', g')) \<Rightarrow>
     (p', s', (n, take (length s - length s') s) # g'))"

primrec rx_steps :: "regex \<Rightarrow> rx_state \<Rightarrow> rx_state list" where
  "rx_steps Eps = (\<lambda>st. [st])"
| "rx_steps (Chr P) = rx_char P"
| "rx_steps (Seq r1 r2) = (\<lambda>st. concat (map (rx_steps r2) (rx_steps r1 st)))"
| "rx_steps (Alt r1 r2) = (\<lambda>st. rx_steps r1 st @ rx_steps r2 st)"
| "rx_steps (Star r) = (\<lambda>st. rx_iter (rx_steps r) (length (rx_rest st)) st)"
| "rx_steps (Grp n r) = (\<lambda>st. map (rx_group n st) (rx_steps r st))"
| "rx_steps WordB = rx_guard word_boundary"
| "rx_steps Bos = rx_guard (\<lambda>p s. p = [])"
| "rx_steps Eos = rx_guard (\<lambda>p s. s = [] \<or> s = [CHR 0x0A])"
| "rx_steps (Behind P) = rx_guard (\<lambda>p s. p \<noteq> [] \<and> P (hd p))"
| "rx_steps (Ahead P) = rx_guard (\<lambda>p s. s \<noteq> [] \<and> P (hd s))"

section \<open>The functions of the module\<close>

type_synonym rx_match = "string \<times> (nat \<times> string) list"

text \<open>A match at one position: the text it covers and its groups.\<close>

definition rx_at :: "regex \<Rightarrow> string \<Rightarrow> string \<Rightarrow> rx_state option" where
  "rx_at r p s = (case rx_steps r (p, s, []) of [] \<Rightarrow> None | st # _ \<Rightarrow> Some st)"

definition rx_found :: "string \<Rightarrow> rx_state \<Rightarrow> rx_match" where
  "rx_found s st = (take (length s - length (rx_rest st)) s, snd (snd st))"

primrec rx_search_from :: "regex \<Rightarrow> string \<Rightarrow> string \<Rightarrow> rx_match option" where
  "rx_search_from r p [] = map_option (rx_found []) (rx_at r p [])"
| "rx_search_from r p (c # cs) =
     (case rx_at r p (c # cs) of
        Some st \<Rightarrow> Some (rx_found (c # cs) st)
      | None \<Rightarrow> rx_search_from r (c # p) cs)"

definition rx_search :: "regex \<Rightarrow> string \<Rightarrow> rx_match option" where
  "rx_search r s = rx_search_from r [] s"

abbreviation rx_found_in :: "regex \<Rightarrow> string \<Rightarrow> bool" where
  "rx_found_in r s \<equiv> rx_search r s \<noteq> None"

text \<open>\<^verbatim>\<open>r.fullmatch(s)\<close> as a test.\<close>

definition rx_fullmatch :: "regex \<Rightarrow> string \<Rightarrow> bool" where
  "rx_fullmatch r s \<longleftrightarrow> (\<exists>st \<in> set (rx_steps r ([], s, [])). rx_rest st = [])"

text \<open>
  The pieces a text falls into when matches are taken from the left without overlap: characters
  between matches and the matches. A match that covers no text is followed by the next character.
\<close>

datatype piece = Plain char | Hit rx_match

function rx_pieces :: "regex \<Rightarrow> string \<Rightarrow> string \<Rightarrow> piece list" where
  "rx_pieces r p [] = (case rx_at r p [] of None \<Rightarrow> [] | Some st \<Rightarrow> [Hit (rx_found [] st)])"
| "rx_pieces r p (c # cs) =
     (case rx_at r p (c # cs) of
        None \<Rightarrow> Plain c # rx_pieces r (c # p) cs
      | Some st \<Rightarrow>
          if length (rx_rest st) \<le> length cs
          then Hit (rx_found (c # cs) st) # rx_pieces r (fst st) (rx_rest st)
          else Hit (rx_found (c # cs) st) # Plain c # rx_pieces r (c # p) cs)"
  by pat_completeness auto
termination by (relation "measure (\<lambda>(r, p, s). length s)") auto

definition rx_sub :: "regex \<Rightarrow> (rx_match \<Rightarrow> string) \<Rightarrow> string \<Rightarrow> string" where
  "rx_sub r repl s =
     concat (map (\<lambda>x. case x of Plain c \<Rightarrow> [c] | Hit m \<Rightarrow> repl m) (rx_pieces r [] s))"

definition rx_finditer :: "regex \<Rightarrow> string \<Rightarrow> rx_match list" where
  "rx_finditer r s = concat (map (\<lambda>x. case x of Plain c \<Rightarrow> [] | Hit m \<Rightarrow> [m]) (rx_pieces r [] s))"

definition rx_split :: "regex \<Rightarrow> string \<Rightarrow> string list" where
  "rx_split r s =
     (let (parts, last) = foldl (\<lambda>(parts, cur) x. case x of
        Plain c \<Rightarrow> (parts, cur @ [c]) | Hit m \<Rightarrow> (parts @ [cur], [])) ([], []) (rx_pieces r [] s)
      in parts @ [last])"

text \<open>\<^verbatim>\<open>m.group(n)\<close>\<close>

definition rx_grp :: "rx_match \<Rightarrow> nat \<Rightarrow> string" where
  "rx_grp m n = (case map_of (snd m) n of None \<Rightarrow> [] | Some s \<Rightarrow> s)"

section \<open>What a match is\<close>

inductive rx_rel :: "regex \<Rightarrow> rx_state \<Rightarrow> rx_state \<Rightarrow> bool" where
  rel_eps: "rx_rel Eps st st"
| rel_chr: "P c \<Longrightarrow> rx_rel (Chr P) (p, c # s, g) (c # p, s, g)"
| rel_seq: "rx_rel r1 st st' \<Longrightarrow> rx_rel r2 st' st'' \<Longrightarrow> rx_rel (Seq r1 r2) st st''"
| rel_alt1: "rx_rel r1 st st' \<Longrightarrow> rx_rel (Alt r1 r2) st st'"
| rel_alt2: "rx_rel r2 st st' \<Longrightarrow> rx_rel (Alt r1 r2) st st'"
| rel_stop: "rx_rel (Star r) st st"
| rel_more: "rx_rel r st st' \<Longrightarrow> length (rx_rest st') < length (rx_rest st) \<Longrightarrow>
    rx_rel (Star r) st' st'' \<Longrightarrow> rx_rel (Star r) st st''"
| rel_grp: "rx_rel r st st' \<Longrightarrow> rx_rel (Grp n r) st (rx_group n st st')"
| rel_wordb: "word_boundary p s \<Longrightarrow> rx_rel WordB (p, s, g) (p, s, g)"
| rel_bos: "rx_rel Bos ([], s, g) ([], s, g)"
| rel_eos: "s = [] \<or> s = [CHR 0x0A] \<Longrightarrow> rx_rel Eos (p, s, g) (p, s, g)"
| rel_behind: "P c \<Longrightarrow> rx_rel (Behind P) (c # p, s, g) (c # p, s, g)"
| rel_ahead: "P c \<Longrightarrow> rx_rel (Ahead P) (p, c # s, g) (p, c # s, g)"

inductive_cases rx_rel_SeqE [elim!]: "rx_rel (Seq r1 r2) st st'"
inductive_cases rx_rel_AltE [elim!]: "rx_rel (Alt r1 r2) st st'"
inductive_cases rx_rel_StarE: "rx_rel (Star r) st st'"
inductive_cases rx_rel_GrpE [elim!]: "rx_rel (Grp n r) st st'"
inductive_simps rx_rel_simps [simp]:
  "rx_rel Eps st st'" "rx_rel (Chr P) st st'" "rx_rel WordB st st'" "rx_rel Bos st st'"
  "rx_rel Eos st st'" "rx_rel (Behind P) st st'" "rx_rel (Ahead P) st st'"

lemma rx_iter_rel:
  assumes f: "\<And>st st'. st' \<in> set (f st) \<longleftrightarrow> rx_rel r st st'" and n: "length (rx_rest st) \<le> n"
  shows "st' \<in> set (rx_iter f n st) \<longleftrightarrow> rx_rel (Star r) st st'"
  using n
proof (induction n arbitrary: st)
  case 0
  then show ?case by (auto intro: rel_stop elim: rx_rel_StarE)
next
  case (Suc n)
  have step: "st' \<in> set (rx_iter f n t) \<longleftrightarrow> rx_rel (Star r) t st'"
    if "length (rx_rest t) < length (rx_rest st)" for t
    using Suc.IH [of t] that Suc.prems by simp
  have "st' \<in> set (rx_iter f (Suc n) st) \<longleftrightarrow>
      st' = st \<or> (\<exists>t. rx_rel r st t \<and> length (rx_rest t) < length (rx_rest st) \<and> st' \<in> set (rx_iter f n t))"
    unfolding rx_iter.simps set_append set_concat set_map Un_iff UN_iff image_iff Bex_def f [symmetric]
    by (auto simp del: split_paired_Ex split_paired_All split: if_splits)
  also have "\<dots> \<longleftrightarrow> rx_rel (Star r) st st'"
    using step by (blast intro: rel_stop rel_more elim: rx_rel_StarE)
  finally show ?case .
qed

lemma rx_steps_rel: "st' \<in> set (rx_steps r st) \<longleftrightarrow> rx_rel r st st'"
proof (induction r arbitrary: st st')
  case (Star r)
  then show ?case using rx_iter_rel [of "rx_steps r" r st] by simp
next
  case (Chr P)
  then show ?case by (cases st) (auto simp: rx_char_def split: list.splits)
next
  case (Grp n r)
  have "st' \<in> set (rx_steps (Grp n r) st) \<longleftrightarrow> (\<exists>t. rx_rel r st t \<and> st' = rx_group n st t)"
    by (simp only: rx_steps.simps set_map image_iff Bex_def Grp.IH)
  then show ?case by (auto simp del: split_paired_Ex intro: rel_grp)
qed (auto simp: rx_guard_def intro: rx_rel.intros split: if_splits; force simp: neq_Nil_conv)+

section \<open>Matches and searches\<close>

text \<open>A match consumes a prefix of the text; the groups carried along do not influence it.\<close>

lemma rx_rel_consumes:
  "rx_rel r st st' \<Longrightarrow> \<exists>m. rx_rest st = m @ rx_rest st' \<and> fst st' = rev m @ fst st"
proof (induction rule: rx_rel.induct)
  case (rel_grp r st st' n)
  then show ?case by (simp add: rx_group_def case_prod_beta')
qed fastforce+

lemma rx_group_pair: "\<exists>g. rx_group n st st' = (fst st', rx_rest st', g)"
  by (simp add: rx_group_def case_prod_beta')

lemma rx_rel_groups:
  "rx_rel r st st' \<Longrightarrow> \<exists>h'. rx_rel r (fst st, rx_rest st, h) (fst st', rx_rest st', h')"
proof (induction arbitrary: h rule: rx_rel.induct)
  case (rel_seq r1 st st' r2 st'')
  from rel_seq.IH(1) obtain h1 where h1: "rx_rel r1 (fst st, rx_rest st, h) (fst st', rx_rest st', h1)" by blast
  from rel_seq.IH(2) obtain h2 where h2: "rx_rel r2 (fst st', rx_rest st', h1) (fst st'', rx_rest st'', h2)" by blast
  from rx_rel.rel_seq [OF h1 h2] show ?case by (rule exI)
next
  case (rel_more r st st' st'')
  from rel_more.IH(1) obtain h1 where h1: "rx_rel r (fst st, rx_rest st, h) (fst st', rx_rest st', h1)" by blast
  from rel_more.IH(2) obtain h2 where "rx_rel (Star r) (fst st', rx_rest st', h1) (fst st'', rx_rest st'', h2)" by blast
  from rx_rel.rel_more [OF h1 _ this] rel_more.hyps(2) show ?case by auto
next
  case (rel_grp r st st' n)
  then obtain h' where "rx_rel r (fst st, rx_rest st, h) (fst st', rx_rest st', h')" by blast
  from rx_rel.rel_grp [OF this, of n] rx_group_pair show ?case by (metis fst_conv snd_conv)
qed (auto intro: rx_rel.intros)

lemma rx_at_None: "rx_at r p s = None \<longleftrightarrow> (\<forall>st'. \<not> rx_rel r (p, s, []) st')"
proof -
  have "rx_at r p s = None \<longleftrightarrow> rx_steps r (p, s, []) = []"
    by (simp add: rx_at_def split: list.splits)
  also have "\<dots> \<longleftrightarrow> (\<forall>st'. st' \<notin> set (rx_steps r (p, s, [])))" by (metis list.set_intros(1) list.exhaust empty_iff empty_set)
  finally show ?thesis by (simp only: rx_steps_rel)
qed

lemma rx_at_Some: "rx_at r p s = Some st \<Longrightarrow> rx_rel r (p, s, []) st"
  by (auto simp: rx_at_def rx_steps_rel [symmetric] split: list.splits)

lemma rx_search_from_iff:
  "rx_search_from r p s \<noteq> None \<longleftrightarrow> (\<exists>u v st'. s = u @ v \<and> rx_rel r (rev u @ p, v, []) st')"
proof (induction s arbitrary: p)
  case Nil
  have "rx_search_from r p [] \<noteq> None \<longleftrightarrow> rx_at r p [] \<noteq> None" by (simp only: rx_search_from.simps) simp
  then show ?case by (simp only: rx_at_None) simp
next
  case (Cons c cs)
  have "rx_search_from r p (c # cs) \<noteq> None \<longleftrightarrow> rx_at r p (c # cs) \<noteq> None \<or> rx_search_from r (c # p) cs \<noteq> None"
    by (simp only: rx_search_from.simps) (simp split: option.split)
  also have "\<dots> \<longleftrightarrow> (\<exists>st'. rx_rel r (p, c # cs, []) st') \<or> (\<exists>u v st'. cs = u @ v \<and> rx_rel r (rev u @ c # p, v, []) st')"
    by (simp only: Cons.IH rx_at_None) simp
  also have "\<dots> \<longleftrightarrow> (\<exists>u v st'. c # cs = u @ v \<and> rx_rel r (rev u @ p, v, []) st')"
  proof (intro iffI; elim disjE exE conjE)
    fix st' assume "rx_rel r (p, c # cs, []) st'"
    then show "\<exists>u v st'. c # cs = u @ v \<and> rx_rel r (rev u @ p, v, []) st'"
      by (intro exI [of _ "[]"] exI [of _ "c # cs"] exI [of _ st']) simp
  next
    fix u v st' assume "cs = u @ v" "rx_rel r (rev u @ c # p, v, []) st'"
    then show "\<exists>u v st'. c # cs = u @ v \<and> rx_rel r (rev u @ p, v, []) st'"
      by (intro exI [of _ "c # u"] exI [of _ v] exI [of _ st']) simp
  next
    fix u v st' assume uv: "c # cs = u @ v" "rx_rel r (rev u @ p, v, []) st'"
    then show "(\<exists>st'. rx_rel r (p, c # cs, []) st') \<or> (\<exists>u v st'. cs = u @ v \<and> rx_rel r (rev u @ c # p, v, []) st')"
    proof (cases u)
      case Nil
      with uv have "rx_rel r (p, c # cs, []) st'" by simp
      then show ?thesis by blast
    next
      case (Cons d u')
      with uv have "cs = u' @ v" "rx_rel r (rev u' @ c # p, v, []) st'" by simp_all
      then show ?thesis by blast
    qed
  qed
  finally show ?case .
qed

text \<open>A search succeeds exactly when the pattern matches somewhere in the text.\<close>

lemma rx_search_iff: "rx_found_in r s \<longleftrightarrow> (\<exists>u v st'. s = u @ v \<and> rx_rel r (rev u, v, []) st')"
  using rx_search_from_iff [of r "[]" s] by (simp add: rx_search_def)

lemma rx_search_here: "rx_rel r (rev u, v, []) st' \<Longrightarrow> rx_found_in r (u @ v)"
  unfolding rx_search_iff by blast

section \<open>Patterns without anchors\<close>

primrec rx_local :: "regex \<Rightarrow> bool" where
  "rx_local Eps = True"
| "rx_local (Chr P) = True"
| "rx_local (Seq r1 r2) = (rx_local r1 \<and> rx_local r2)"
| "rx_local (Alt r1 r2) = (rx_local r1 \<and> rx_local r2)"
| "rx_local (Star r) = rx_local r"
| "rx_local (Grp n r) = rx_local r"
| "rx_local WordB = False"
| "rx_local Bos = False"
| "rx_local Eos = False"
| "rx_local (Behind P) = False"
| "rx_local (Ahead P) = False"

text \<open>A match of such a pattern depends on the text it covers only.\<close>

lemma rx_local_move:
  "rx_rel r st st' \<Longrightarrow> rx_local r \<Longrightarrow> rx_rest st = m @ rx_rest st' \<Longrightarrow>
    \<exists>h'. rx_rel r (q, m @ t, h) (rev m @ q, t, h')"
proof (induction arbitrary: m q t h rule: rx_rel.induct)
  case (rel_seq r1 st st' r2 st'')
  obtain m1 where m1: "rx_rest st = m1 @ rx_rest st'" using rx_rel_consumes [OF rel_seq.hyps(1)] by blast
  obtain m2 where m2: "rx_rest st' = m2 @ rx_rest st''" using rx_rel_consumes [OF rel_seq.hyps(2)] by blast
  have m: "m = m1 @ m2" using m1 m2 rel_seq.prems(2) by simp
  obtain h1 where h1: "rx_rel r1 (q, m1 @ m2 @ t, h) (rev m1 @ q, m2 @ t, h1)"
    using rel_seq.IH(1) [OF _ m1] rel_seq.prems(1) by (metis append_assoc rx_local.simps(3))
  obtain h2 where "rx_rel r2 (rev m1 @ q, m2 @ t, h1) (rev m2 @ rev m1 @ q, t, h2)"
    using rel_seq.IH(2) [OF _ m2] rel_seq.prems(1) by (metis rx_local.simps(3))
  from rx_rel.rel_seq [OF h1 this] show ?case unfolding m rev_append append_assoc by (rule exI)
next
  case (rel_more r st st' st'')
  obtain m1 where m1: "rx_rest st = m1 @ rx_rest st'" using rx_rel_consumes [OF rel_more.hyps(1)] by blast
  obtain m2 where m2: "rx_rest st' = m2 @ rx_rest st''" using rx_rel_consumes [OF rel_more.hyps(3)] by blast
  have m: "m = m1 @ m2" using m1 m2 rel_more.prems(2) by simp
  have ne: "m1 \<noteq> []" using rel_more.hyps(2) m1 by auto
  obtain h1 where h1: "rx_rel r (q, m1 @ m2 @ t, h) (rev m1 @ q, m2 @ t, h1)"
    using rel_more.IH(1) [OF _ m1] rel_more.prems(1) by (metis append_assoc rx_local.simps(5))
  obtain h2 where h2: "rx_rel (Star r) (rev m1 @ q, m2 @ t, h1) (rev m2 @ rev m1 @ q, t, h2)"
    using rel_more.IH(2) [OF _ m2] rel_more.prems(1) by metis
  have "rx_rel (Star r) (q, m1 @ m2 @ t, h) (rev m2 @ rev m1 @ q, t, h2)"
    by (rule rx_rel.rel_more [OF h1 _ h2]) (use ne in simp)
  then show ?case unfolding m rev_append append_assoc by (rule exI)
next
  case (rel_grp r st st' n)
  from rel_grp.prems(2) have m: "rx_rest st = m @ rx_rest st'" by (simp add: rx_group_def case_prod_beta')
  have "rx_local r" using rel_grp.prems(1) by simp
  from rel_grp.IH [OF this m] obtain h' where "rx_rel r (q, m @ t, h) (rev m @ q, t, h')" by blast
  from rx_rel.rel_grp [OF this, of n] rx_group_pair [of n "(q, m @ t, h)" "(rev m @ q, t, h')"]
  show ?case by (metis fst_conv snd_conv)
next
  case (rel_alt1 r1 st st' r2)
  have "rx_local r1" using rel_alt1.prems(1) by simp
  from rel_alt1.IH [OF this rel_alt1.prems(2)] obtain h' where "rx_rel r1 (q, m @ t, h) (rev m @ q, t, h')" by blast
  then show ?case by (intro exI) (rule rx_rel.rel_alt1)
next
  case (rel_alt2 r2 st st' r1)
  have "rx_local r2" using rel_alt2.prems(1) by simp
  from rel_alt2.IH [OF this rel_alt2.prems(2)] obtain h' where "rx_rel r2 (q, m @ t, h) (rev m @ q, t, h')" by blast
  then show ?case by (intro exI) (rule rx_rel.rel_alt2)
qed (auto intro: rx_rel.intros)

section \<open>Pieces\<close>

definition piece_text :: "piece \<Rightarrow> string" where
  "piece_text x = (case x of Plain c \<Rightarrow> [c] | Hit m \<Rightarrow> fst m)"

text \<open>The pieces put together are the text.\<close>

lemma rx_pieces_text: "concat (map piece_text (rx_pieces r p s)) = s"
proof (induction r p s rule: rx_pieces.induct)
  case (1 r p)
  then show ?case by (auto simp: piece_text_def rx_found_def split: option.splits)
next
  case (2 r p c cs)
  show ?case
  proof (cases "rx_at r p (c # cs)")
    case None
    with 2 show ?thesis by (simp add: piece_text_def)
  next
    case (Some st)
    obtain m where m: "c # cs = m @ rx_rest st"
      using rx_rel_consumes [OF rx_at_Some [OF Some]] by auto
    have hit: "fst (rx_found (c # cs) st) = m" unfolding rx_found_def fst_conv m by simp
    show ?thesis
    proof (cases "length (rx_rest st) \<le> length cs")
      case True
      have "rx_pieces r p (c # cs) = Hit (rx_found (c # cs) st) # rx_pieces r (fst st) (rx_rest st)"
        using Some True by simp
      then show ?thesis using 2(2) [OF Some True] hit m by (simp add: piece_text_def)
    next
      case False
      have "length (c # cs) = length m + length (rx_rest st)" using m by simp
      then have "Suc (length cs) = length m + length (rx_rest st)" by simp
      with False have "length m = 0" by linarith
      then have "m = []" by simp
      with 2 Some hit False show ?thesis by (simp add: piece_text_def)
    qed
  qed
qed

definition rx_nonempty :: "regex \<Rightarrow> bool" where
  "rx_nonempty r \<longleftrightarrow> (\<forall>q t st. rx_rel r (q, t, []) st \<longrightarrow> rx_rest st \<noteq> t)"

text \<open>Where a character is left plain, the pattern does not match.\<close>

lemma rx_pieces_plain:
  assumes "rx_pieces r p s = xs @ Plain c # ys"
    and "rx_nonempty r"
  shows "\<exists>u v. s = u @ c # v \<and> (\<forall>st'. \<not> rx_rel r (rev u @ p, c # v, []) st') \<and>
    v = concat (map piece_text ys)"
  using assms
proof (induction r p s arbitrary: xs rule: rx_pieces.induct)
  case (1 r p)
  then show ?case by (auto split: option.splits simp: append_eq_Cons_conv Cons_eq_append_conv)
next
  case (2 r p d cs)
  show ?case
  proof (cases "rx_at r p (d # cs)")
    case None
    show ?thesis
    proof (cases xs)
      case Nil
      have eq: "Plain d # rx_pieces r (d # p) cs = Plain c # ys"
        using 2(4) unfolding rx_pieces.simps None option.case Nil append_Nil .
      then have dc: "d = c" and "rx_pieces r (d # p) cs = ys" unfolding list.inject piece.inject by blast+
      then have "concat (map piece_text ys) = cs" using rx_pieces_text [of r "d # p" cs] by simp
      with None show ?thesis
        by (intro exI [of _ "[]"] exI [of _ cs]) (simp add: rx_at_None dc)
    next
      case (Cons x xs')
      with 2(4) None have "rx_pieces r (d # p) cs = xs' @ Plain c # ys" by simp
      from 2(1) [OF None this 2(5)] obtain u v where "cs = u @ c # v"
        "\<forall>st'. \<not> rx_rel r (rev u @ d # p, c # v, []) st'" "v = concat (map piece_text ys)" by blast
      then show ?thesis by (intro exI [of _ "d # u"] exI [of _ v]) simp
    qed
  next
    case (Some st)
    have rel: "rx_rel r (p, d # cs, []) st" by (rule rx_at_Some [OF Some])
    obtain m where m: "d # cs = m @ rx_rest st" "fst st = rev m @ p" using rx_rel_consumes [OF rel] by auto
    have "rx_rest st \<noteq> d # cs" using 2(5) rel unfolding rx_nonempty_def by blast
    then have "m \<noteq> []" using m(1) by auto
    then have le: "length (rx_rest st) \<le> length cs" using m(1) by (cases m) simp_all
    from 2(4) Some le obtain xs' where "rx_pieces r (fst st) (rx_rest st) = xs' @ Plain c # ys"
      by (cases xs) simp_all
    from 2(2) [OF Some le this 2(5)] obtain u v where "rx_rest st = u @ c # v"
      "\<forall>st'. \<not> rx_rel r (rev u @ fst st, c # v, []) st'" "v = concat (map piece_text ys)" by blast
    then show ?thesis using m by (intro exI [of _ "m @ u"] exI [of _ v]) simp
  qed
qed

section \<open>Runs and literals\<close>

lemma rel_star_chars: "list_all P m \<Longrightarrow> rx_rel (Star (Chr P)) (p, m @ s, g) (rev m @ p, s, g)"
proof (induction m arbitrary: p)
  case Nil
  then show ?case by (simp add: rel_stop)
next
  case (Cons c m)
  have "rx_rel (Chr P) (p, c # m @ s, g) (c # p, m @ s, g)" using Cons.prems by (simp add: rel_chr)
  from rel_more [OF this _ Cons.IH] Cons.prems show ?case by simp
qed

lemma rel_lit: "rx_rel (rx_lit m) (p, m @ s, g) (rev m @ p, s, g)"
proof (induction m arbitrary: p)
  case Nil
  then show ?case by (simp add: rel_eps)
next
  case (Cons c m)
  have "rx_rel (Chr (is_char c)) (p, c # m @ s, g) (c # p, m @ s, g)" by (rule rel_chr) (simp add: is_char_def)
  from rel_seq [OF this Cons.IH] show ?case by simp
qed

lemma rel_liti: "list_all2 (\<lambda>c x. any_case (is_char c) x) l m \<Longrightarrow> rx_rel (rx_liti l) (p, m @ s, g) (rev m @ p, s, g)"
proof (induction arbitrary: p rule: list_all2_induct)
  case Nil
  then show ?case by (simp add: rel_eps)
next
  case (Cons c l x m)
  have "rx_rel (Chr (any_case (is_char c))) (p, x # m @ s, g) (x # p, m @ s, g)" by (rule rel_chr) (rule Cons)
  from rel_seq [OF this Cons.IH] show ?case by simp
qed

text \<open>What a run of a class and a literal match, exactly.\<close>

lemma rel_star_chr_iff:
  "rx_rel (Star (Chr P)) (p, s, g) st \<longleftrightarrow> (\<exists>m t. s = m @ t \<and> list_all P m \<and> st = (rev m @ p, t, g))"
proof
  assume "rx_rel (Star (Chr P)) (p, s, g) st"
  then show "\<exists>m t. s = m @ t \<and> list_all P m \<and> st = (rev m @ p, t, g)"
  proof (induction "Star (Chr P)" "(p, s, g)" st arbitrary: p s g rule: rx_rel.induct)
    case rel_stop
    show ?case by (rule exI [of _ "[]"]) simp
  next
    case (rel_more st' st'')
    then obtain c t where c: "s = c # t" "P c" "st' = (c # p, t, g)" by auto
    with rel_more obtain m u where "t = m @ u" "list_all P m" "st'' = (rev m @ c # p, u, g)" by blast
    with c show ?case by (intro exI [of _ "c # m"] exI [of _ u]) simp
  qed
next
  assume "\<exists>m t. s = m @ t \<and> list_all P m \<and> st = (rev m @ p, t, g)"
  then show "rx_rel (Star (Chr P)) (p, s, g) st" using rel_star_chars by blast
qed

lemma rel_plus_chr_iff:
  "rx_rel (rx_plus (Chr P)) (p, s, g) st \<longleftrightarrow>
    (\<exists>m t. s = m @ t \<and> m \<noteq> [] \<and> list_all P m \<and> st = (rev m @ p, t, g))"
proof
  assume "rx_rel (rx_plus (Chr P)) (p, s, g) st"
  then obtain c t where c: "s = c # t" "P c" "rx_rel (Star (Chr P)) (c # p, t, g) st" by (auto simp: rx_plus_def)
  then obtain m u where "t = m @ u" "list_all P m" "st = (rev m @ c # p, u, g)" by (auto simp: rel_star_chr_iff)
  with c show "\<exists>m t. s = m @ t \<and> m \<noteq> [] \<and> list_all P m \<and> st = (rev m @ p, t, g)"
    by (intro exI [of _ "c # m"] exI [of _ u]) simp
next
  assume "\<exists>m t. s = m @ t \<and> m \<noteq> [] \<and> list_all P m \<and> st = (rev m @ p, t, g)"
  then obtain c m t where "s = c # m @ t" "P c" "list_all P m" "st = (rev m @ c # p, t, g)"
    by (auto simp: neq_Nil_conv)
  then show "rx_rel (rx_plus (Chr P)) (p, s, g) st"
    using rel_chr [of P c p "m @ t" g] rel_star_chars [of P m "c # p" t g] by (auto simp: rx_plus_def intro: rel_seq)
qed

lemma rel_seq_iff: "rx_rel (Seq r1 r2) st st'' \<longleftrightarrow> (\<exists>st'. rx_rel r1 st st' \<and> rx_rel r2 st' st'')"
  by (auto intro: rel_seq simp del: split_paired_Ex)

lemma rel_alt_iff: "rx_rel (Alt r1 r2) st st' \<longleftrightarrow> rx_rel r1 st st' \<or> rx_rel r2 st st'"
  by (auto intro: rel_alt1 rel_alt2)

lemma rel_lit_iff: "rx_rel (rx_lit m) (p, s, g) st \<longleftrightarrow> (\<exists>t. s = m @ t \<and> st = (rev m @ p, t, g))"
proof (induction m arbitrary: p s)
  case Nil
  then show ?case by auto
next
  case (Cons c m)
  have "rx_rel (rx_lit (c # m)) (p, s, g) st \<longleftrightarrow> (\<exists>s'. s = c # s' \<and> rx_rel (rx_lit m) (c # p, s', g) st)"
    by (auto simp: rel_seq_iff is_char_def)
  then show ?case unfolding Cons.IH by auto
qed

lemma rel_times_chr_iff:
  "rx_rel (rx_times n (Chr P)) (p, s, g) st \<longleftrightarrow>
    (\<exists>m t. s = m @ t \<and> length m = n \<and> list_all P m \<and> st = (rev m @ p, t, g))"
proof (induction n arbitrary: p s)
  case 0
  then show ?case by auto
next
  case (Suc n)
  have "rx_rel (rx_times (Suc n) (Chr P)) (p, s, g) st \<longleftrightarrow>
      (\<exists>c s'. s = c # s' \<and> P c \<and> rx_rel (rx_times n (Chr P)) (c # p, s', g) st)"
    by (auto simp: rel_seq_iff)
  also have "\<dots> \<longleftrightarrow> (\<exists>c m t. s = c # m @ t \<and> P c \<and> length m = n \<and> list_all P m \<and> st = (rev m @ c # p, t, g))"
    unfolding Suc.IH by blast
  also have "\<dots> \<longleftrightarrow> (\<exists>m t. s = m @ t \<and> length m = Suc n \<and> list_all P m \<and> st = (rev m @ p, t, g))"
    by (auto simp: length_Suc_conv)
  finally show ?case .
qed

text \<open>
  What a pattern can lead to: the rules turn a pattern into a statement about the pieces of the text,
  construct by construct.
\<close>

named_theorems rx_run

definition rx_can :: "regex \<Rightarrow> rx_state \<Rightarrow> (rx_state \<Rightarrow> bool) \<Rightarrow> bool" where
  "rx_can r st Q \<longleftrightarrow> (\<exists>st'. rx_rel r st st' \<and> Q st')"

lemma rx_can_Eps [rx_run]: "rx_can Eps st Q \<longleftrightarrow> Q st"
  by (simp add: rx_can_def)

lemma rx_can_Seq [rx_run]: "rx_can (Seq r1 r2) st Q \<longleftrightarrow> rx_can r1 st (\<lambda>st'. rx_can r2 st' Q)"
  unfolding rx_can_def rel_seq_iff by blast

lemma rx_can_Alt [rx_run]: "rx_can (Alt r1 r2) st Q \<longleftrightarrow> rx_can r1 st Q \<or> rx_can r2 st Q"
  unfolding rx_can_def rel_alt_iff by blast

lemma rx_can_Chr [rx_run]: "rx_can (Chr P) (p, s, g) Q \<longleftrightarrow> (\<exists>c t. s = c # t \<and> P c \<and> Q (c # p, t, g))"
  by (auto simp: rx_can_def)

lemma rx_can_lit [rx_run]: "rx_can (rx_lit m) (p, s, g) Q \<longleftrightarrow> (\<exists>t. s = m @ t \<and> Q (rev m @ p, t, g))"
  by (auto simp: rx_can_def rel_lit_iff)

lemma rx_can_star [rx_run]:
  "rx_can (Star (Chr P)) (p, s, g) Q \<longleftrightarrow> (\<exists>m t. s = m @ t \<and> list_all P m \<and> Q (rev m @ p, t, g))"
  by (auto simp: rx_can_def rel_star_chr_iff)

lemma rx_can_plus [rx_run]:
  "rx_can (rx_plus (Chr P)) (p, s, g) Q \<longleftrightarrow> (\<exists>m t. s = m @ t \<and> m \<noteq> [] \<and> list_all P m \<and> Q (rev m @ p, t, g))"
  by (auto simp: rx_can_def rel_plus_chr_iff)

lemma rx_can_times [rx_run]:
  "rx_can (rx_times n (Chr P)) (p, s, g) Q \<longleftrightarrow>
    (\<exists>m t. s = m @ t \<and> length m = n \<and> list_all P m \<and> Q (rev m @ p, t, g))"
  by (auto simp: rx_can_def rel_times_chr_iff)

lemma rx_can_WordB [rx_run]: "rx_can WordB (p, s, g) Q \<longleftrightarrow> word_boundary p s \<and> Q (p, s, g)"
  by (auto simp: rx_can_def)

lemma rx_can_Bos [rx_run]: "rx_can Bos (p, s, g) Q \<longleftrightarrow> p = [] \<and> Q (p, s, g)"
  by (auto simp: rx_can_def)

lemma rx_can_Eos [rx_run]: "rx_can Eos (p, s, g) Q \<longleftrightarrow> (s = [] \<or> s = [CHR 0x0A]) \<and> Q (p, s, g)"
  by (auto simp: rx_can_def)

lemma rx_fullmatch_can: "rx_fullmatch r s \<longleftrightarrow> rx_can r ([], s, []) (\<lambda>(p, t, g). t = [])"
  by (auto simp: rx_fullmatch_def rx_steps_rel Bex_def rx_can_def)

lemma rx_search_can: "rx_found_in r s \<longleftrightarrow> (\<exists>u v. s = u @ v \<and> rx_can r (rev u, v, []) (\<lambda>_. True))"
  unfolding rx_search_iff rx_can_def by blast

end
