(* ===== verification/Golden_Gates.thy ===== *)
theory Golden_Gates
  imports Py_Files Py_Regex Sha256
begin

text \<open>
  The release gates (\<^verbatim>\<open>src/evaluation/golden/gates.py\<close>): the two gates on multi-hop evidence records
  (\<^verbatim>\<open>validate_multi_hop_judgment\<close>, \<^verbatim>\<open>validate_multi_hop_audit\<close>), the contract of a gold row
  (\<^verbatim>\<open>validate_gold_rows\<close>) and the vocabulary gate. The lemmas characterise acceptance: which records
  cover which rows, which rows are well formed, which texts pass.
\<close>

section \<open>Multi-hop evidence\<close>

text \<open>\<^verbatim>\<open>messages.get(mid)\<close>, on whatever value the row names as a message.\<close>

definition get_message :: "(string, json) dict \<Rightarrow> json \<Rightarrow> json result" where
  "get_message ms mid =
     (if \<not> hashable mid then Raise (TypeError ''unhashable'')
      else Ok (case mid of JStr s \<Rightarrow> jget ms s | _ \<Rightarrow> JNull))"

definition message_hash :: "json \<Rightarrow> string" where
  "message_hash m_obj = sha256_hex (utf8_encode (dumps js_canonical m_obj))"

definition check_binding :: "(string, json) dict option \<Rightarrow> json \<times> json \<Rightarrow> unit result" where
  "check_binding messages bm =
     rbind (obj_fields (fst bm)) (\<lambda>b.
       if \<not> py_eq (jget b ''message_id'') (snd bm) then gate_error ''message_id mismatch''
       else (case messages of
          None \<Rightarrow> Ok ()
        | Some ms \<Rightarrow> rbind (get_message ms (snd bm)) (\<lambda>m_obj.
            if m_obj = JNull then gate_error ''message not found''
            else ensure (py_eq (jget b ''message_hash'') (JStr (message_hash m_obj)))
              (ReleaseGateError ''message hash mismatch''))))"

definition check_evidence :: "(string, json) dict option \<Rightarrow> pyobj \<Rightarrow> pyobj \<Rightarrow> unit result" where
  "check_evidence messages row rec =
     rbind (py_iter (dict_get rec ''evidence_bindings'' (JArr []))) (\<lambda>bindings.
     rbind (py_iter (dict_get row ''gold_evidence_message_ids'' (JArr []))) (\<lambda>gold_mids.
     rbind (ensure (length bindings = length gold_mids) (ReleaseGateError ''binding count'')) (\<lambda>_.
       forM (check_binding messages) (zip bindings gold_mids))))"

text \<open>
  The keys of a \<^verbatim>\<open>set\<close> or a \<^verbatim>\<open>Counter\<close>: equal values are one key, unhashable ones raise.
\<close>

definition as_keys :: "json list \<Rightarrow> json list result" where
  "as_keys vs = (if list_all hashable vs then Ok (map py_norm vs) else Raise (TypeError ''unhashable''))"

definition multi_hop_rows :: "pyobj list \<Rightarrow> pyobj list" where
  "multi_hop_rows golden_rows = filter (\<lambda>r. py_eq (jget r ''stratum'') (JStr ''multi_hop_evidence'')) golden_rows"

abbreviation query_key :: "pyobj \<Rightarrow> json" where
  "query_key r \<equiv> py_norm (jget r ''query_id'')"

text \<open>The checks on counts and query ids, and \<^verbatim>\<open>rows_by_qid\<close>.\<close>

definition rows_by_qid :: "pyobj list \<Rightarrow> pyobj list \<Rightarrow> (json, pyobj) dict result" where
  "rows_by_qid records mh_rows =
     rbind (ensure (length records = length mh_rows) (ReleaseGateError ''count mismatch'')) (\<lambda>_.
     rbind (as_keys (map (\<lambda>r. jget r ''query_id'') records)) (\<lambda>qids.
     rbind (ensure (distinct qids) (ReleaseGateError ''duplicate query_ids'')) (\<lambda>_.
     rbind (as_keys (map (\<lambda>r. jget r ''query_id'') mh_rows)) (\<lambda>mh_qids.
     rbind (ensure (mset qids = mset mh_qids) (ReleaseGateError ''query_id multiset'')) (\<lambda>_.
     rbind (mapM (\<lambda>r. jitem r ''query_id'') mh_rows) (\<lambda>keys.
       Ok (dict_of (zip (map py_norm keys) mh_rows))))))))"

definition check_judgment ::
  "(json, pyobj) dict \<Rightarrow> (string, json) dict option \<Rightarrow> pyobj \<Rightarrow> unit result" where
  "check_judgment rows messages rec =
     rbind (ensure (py_eq (jget rec ''verdict'') (JStr ''sufficient'')) (ReleaseGateError ''verdict'')) (\<lambda>_.
       case map_of rows (query_key rec) of
         None \<Rightarrow> gate_error ''unknown query_id''
       | Some row \<Rightarrow>
           if row = [] then gate_error ''unknown query_id''
           else rbind (ensure (py_eq (jget rec ''output_hash'') (jget row ''output_hash''))
             (ReleaseGateError ''output hash'')) (\<lambda>_. check_evidence messages row rec))"

definition validate_multi_hop_judgment ::
  "pyobj list \<Rightarrow> pyobj list \<Rightarrow> (string, json) dict option \<Rightarrow> unit result" where
  "validate_multi_hop_judgment judgment_records golden_rows messages =
     rbind (rows_by_qid judgment_records (multi_hop_rows golden_rows)) (\<lambda>rows.
       forM (check_judgment rows messages) judgment_records)"

definition check_gold_sha256 :: "string option \<Rightarrow> pyobj \<Rightarrow> unit result" where
  "check_gold_sha256 expected rec =
     (case expected of
        None \<Rightarrow> Ok ()
      | Some sha \<Rightarrow>
          if \<not> truthy (jget rec ''gold_sha256'') then gate_error ''gold_sha256 missing''
          else ensure (jget rec ''gold_sha256'' = JStr sha) (ReleaseGateError ''gold_sha256 mismatch''))"

definition check_audit ::
  "(json, pyobj) dict \<Rightarrow> (string, json) dict option \<Rightarrow> string \<Rightarrow> string option \<Rightarrow> pyobj \<Rightarrow> unit result" where
  "check_audit rows messages reviewer gold_sha256 rec =
     rbind (ensure (py_eq (jget rec ''verdict'') (JStr ''sufficient'')) (ReleaseGateError ''verdict'')) (\<lambda>_.
     rbind (ensure (reviewer = [] \<or> py_eq (jget rec ''reviewer_key'') (JStr reviewer)) (ReleaseGateError ''reviewer'')) (\<lambda>_.
       case map_of rows (query_key rec) of
         None \<Rightarrow> gate_error ''unknown query_id''
       | Some row \<Rightarrow>
           if row = [] then gate_error ''unknown query_id''
           else rbind (ensure (py_eq (jget rec ''output_hash'') (jget row ''output_hash''))
             (ReleaseGateError ''output hash'')) (\<lambda>_.
             rbind (check_gold_sha256 gold_sha256 rec) (\<lambda>_. check_evidence messages row rec))))"

definition validate_multi_hop_audit ::
  "pyobj list \<Rightarrow> pyobj list \<Rightarrow> (string, json) dict option \<Rightarrow> string \<Rightarrow> string option \<Rightarrow> unit result" where
  "validate_multi_hop_audit audit_records golden_rows messages expected_reviewer expected_gold_sha256 =
     rbind (rows_by_qid audit_records (multi_hop_rows golden_rows)) (\<lambda>rows.
       forM (check_audit rows messages expected_reviewer expected_gold_sha256) audit_records)"

text \<open>What an accepted record says of its row.\<close>

definition binding_sound :: "(string, json) dict option \<Rightarrow> json \<Rightarrow> json \<Rightarrow> bool" where
  "binding_sound messages b mid \<longleftrightarrow>
     (\<exists>bf. b = JObj bf \<and> py_eq (jget bf ''message_id'') mid \<and>
        (\<forall>ms. messages = Some ms \<longrightarrow> (\<exists>s m. mid = JStr s \<and> map_of ms s = Some m \<and> m \<noteq> JNull \<and>
           jget bf ''message_hash'' = JStr (message_hash m))))"

definition evidence_sound :: "(string, json) dict option \<Rightarrow> pyobj \<Rightarrow> pyobj \<Rightarrow> bool" where
  "evidence_sound messages row rec \<longleftrightarrow>
     (\<exists>bs mids. py_iter (dict_get rec ''evidence_bindings'' (JArr [])) = Ok bs \<and>
        py_iter (dict_get row ''gold_evidence_message_ids'' (JArr [])) = Ok mids \<and>
        list_all2 (binding_sound messages) bs mids)"

definition record_sound :: "(string, json) dict option \<Rightarrow> pyobj \<Rightarrow> pyobj \<Rightarrow> bool" where
  "record_sound messages row rec \<longleftrightarrow>
     py_eq (jget rec ''query_id'') (jget row ''query_id'') \<and>
     jget rec ''verdict'' = JStr ''sufficient'' \<and>
     py_eq (jget rec ''output_hash'') (jget row ''output_hash'') \<and> evidence_sound messages row rec"

text \<open>One record for each multi-hop row.\<close>

definition covers :: "pyobj list \<Rightarrow> pyobj list \<Rightarrow> bool" where
  "covers records mh_rows \<longleftrightarrow>
     (\<forall>r \<in> set mh_rows. map_of r ''query_id'' \<noteq> None) \<and>
     (\<forall>r \<in> set records \<union> set mh_rows. hashable (jget r ''query_id'')) \<and>
     distinct (map query_key records) \<and> mset (map query_key records) = mset (map query_key mh_rows)"

lemma check_binding_Ok: "check_binding messages (b, mid) = Ok u \<longleftrightarrow> binding_sound messages b mid"
proof (cases b)
  case (JObj bf)
  show ?thesis
  proof (cases messages)
    case None
    with JObj show ?thesis by (auto simp: check_binding_def binding_sound_def obj_fields_def)
  next
    case (Some ms)
    have get: "get_message ms mid = Ok m \<and> m \<noteq> JNull \<longleftrightarrow> (\<exists>s. mid = JStr s \<and> map_of ms s = Some m \<and> m \<noteq> JNull)" for m
      by (cases mid) (auto simp: get_message_def hashable_def dict_get_def split: option.splits)
    have "check_binding messages (b, mid) = Ok u \<longleftrightarrow> py_eq (jget bf ''message_id'') mid \<and>
        (\<exists>m. (get_message ms mid = Ok m \<and> m \<noteq> JNull) \<and> jget bf ''message_hash'' = JStr (message_hash m))"
      using JObj Some by (auto simp: check_binding_def obj_fields_def rbind_Ok_iff ensure_Ok_iff)
    then show ?thesis unfolding get using JObj Some by (simp add: binding_sound_def) blast
  qed
qed (auto simp: check_binding_def binding_sound_def obj_fields_def)

lemma check_evidence_Ok: "check_evidence messages row rec = Ok u \<longleftrightarrow> evidence_sound messages row rec"
proof -
  have "list_all2 (binding_sound messages) bs mids \<longleftrightarrow>
      length bs = length mids \<and> (\<forall>x \<in> set (zip bs mids). check_binding messages x = Ok ())" for bs mids
    by (auto simp: list_all2_iff check_binding_Ok)
  then show ?thesis
    unfolding check_evidence_def evidence_sound_def rbind_Ok_iff ensure_Ok_iff forM_Ok_iff by auto
qed

lemma as_keys_Ok [run_ok]: "as_keys vs = Ok ks \<longleftrightarrow> (\<forall>v \<in> set vs. hashable v) \<and> ks = map py_norm vs"
  by (auto simp: as_keys_def list_all_iff)

lemma rows_by_qid_Ok:
  "rows_by_qid records mh_rows = Ok rows \<longleftrightarrow>
    covers records mh_rows \<and> rows = map (\<lambda>r. (query_key r, r)) mh_rows"
proof -
  have keys: "mapM (\<lambda>r. jitem r ''query_id'') mh_rows = Ok ks \<longleftrightarrow>
      (\<forall>r \<in> set mh_rows. map_of r ''query_id'' \<noteq> None) \<and> ks = map (\<lambda>r. jget r ''query_id'') mh_rows" for ks
    by (induction mh_rows arbitrary: ks) (auto simp: rbind_Ok_iff dict_item_Ok_iff dict_get_def)
  have mh: "dict_of (zip (map py_norm (map (\<lambda>r. jget r ''query_id'') mh_rows)) mh_rows) =
      map (\<lambda>r. (query_key r, r)) mh_rows" if "distinct (map query_key records)"
    "mset (map query_key records) = mset (map query_key mh_rows)"
  proof -
    have "distinct (map query_key mh_rows)" using that by (metis mset_eq_imp_distinct_iff)
    moreover have "zip (map py_norm (map (\<lambda>r. jget r ''query_id'') mh_rows)) mh_rows =
        map (\<lambda>r. (query_key r, r)) mh_rows" by (induction mh_rows) simp_all
    ultimately show ?thesis by (metis (no_types, lifting) dict_of_id map_map map_eq_conv comp_apply fst_conv)
  qed
  have len: "length records = length mh_rows"
    if "mset (map query_key records) = mset (map query_key mh_rows)" using that by (metis length_map size_mset)
  show ?thesis
    unfolding rows_by_qid_def rbind_Ok_iff ensure_Ok_iff as_keys_Ok keys covers_def map_map comp_def
    using mh len by (auto simp: comp_def)
qed

lemma covers_lookup:
  assumes "covers records mh_rows" "rec \<in> set records"
  shows "map_of (map (\<lambda>r. (query_key r, r)) mh_rows) (query_key rec) = Some row \<longleftrightarrow>
    row \<in> set mh_rows \<and> query_key row = query_key rec"
proof -
  have "distinct (map query_key mh_rows)" using assms(1) by (metis covers_def mset_eq_imp_distinct_iff)
  then have dist: "distinct (map fst (map (\<lambda>r. (query_key r, r)) mh_rows))" by (simp add: comp_def)
  show ?thesis unfolding map_of_eq_Some_iff [OF dist]
    by (auto simp: image_iff)
qed

lemma covers_row:
  assumes "covers records mh_rows" "rec \<in> set records"
  shows "\<exists>row \<in> set mh_rows. query_key row = query_key rec"
proof -
  have "query_key rec \<in># mset (map query_key records)" using assms(2) by simp
  then have "query_key rec \<in> set (map query_key mh_rows)" using assms(1) by (metis covers_def set_mset_mset)
  then show ?thesis by force
qed

lemma check_judgment_Ok:
  assumes "covers records mh_rows" "rec \<in> set records"
  shows "check_judgment (map (\<lambda>r. (query_key r, r)) mh_rows) messages rec = Ok () \<longleftrightarrow>
    (\<exists>row \<in> set mh_rows. record_sound messages row rec)"
proof -
  let ?rows = "map (\<lambda>r. (query_key r, r)) mh_rows"
  obtain row where row: "row \<in> set mh_rows" "query_key row = query_key rec"
    using covers_row [OF assms] by blast
  then have look: "map_of ?rows (query_key rec) = Some row" using covers_lookup [OF assms] by blast
  have only: "row' = row" if "row' \<in> set mh_rows" "py_eq (jget rec ''query_id'') (jget row' ''query_id'')" for row'
    using that covers_lookup [OF assms, of row'] look by (simp add: py_eq_def)
  have "row \<noteq> []" using assms(1) row(1) by (auto simp: covers_def)
  then have "check_judgment ?rows messages rec = Ok () \<longleftrightarrow> record_sound messages row rec"
    using row(2) by (simp add: check_judgment_def look rbind_Ok_iff ensure_Ok_iff check_evidence_Ok record_sound_def)
      (simp add: py_eq_def)
  then show ?thesis using row(1) only by (auto simp: record_sound_def)
qed

lemma judgment_Ok_iff:
  "validate_multi_hop_judgment records golden_rows messages = Ok () \<longleftrightarrow>
    covers records (multi_hop_rows golden_rows) \<and>
    (\<forall>rec \<in> set records. \<exists>row \<in> set (multi_hop_rows golden_rows). record_sound messages row rec)"
proof (cases "covers records (multi_hop_rows golden_rows)")
  case True
  then have rows: "rows_by_qid records (multi_hop_rows golden_rows) =
      Ok (map (\<lambda>r. (query_key r, r)) (multi_hop_rows golden_rows))" by (simp add: rows_by_qid_Ok)
  show ?thesis
    using True by (simp add: validate_multi_hop_judgment_def rows forM_Ok_iff check_judgment_Ok [OF True])
next
  case False
  then show ?thesis by (simp add: validate_multi_hop_judgment_def rbind_Ok_iff rows_by_qid_Ok)
qed

lemma check_gold_sha256_Ok:
  "check_gold_sha256 expected rec = Ok () \<longleftrightarrow>
    (\<forall>sha. expected = Some sha \<longrightarrow> sha \<noteq> [] \<and> jget rec ''gold_sha256'' = JStr sha)"
  by (auto simp: check_gold_sha256_def ensure_Ok_iff split: option.splits)

lemma check_audit_iff:
  "check_audit rows messages reviewer gold_sha256 rec = Ok () \<longleftrightarrow>
    check_judgment rows messages rec = Ok () \<and>
    (reviewer = [] \<or> jget rec ''reviewer_key'' = JStr reviewer) \<and> check_gold_sha256 gold_sha256 rec = Ok ()"
proof -
  obtain v where v: "v \<longleftrightarrow> jget rec ''verdict'' = JStr ''sufficient''" by blast
  obtain w where w: "w \<longleftrightarrow> (reviewer = [] \<or> jget rec ''reviewer_key'' = JStr reviewer)" by blast
  show ?thesis
    unfolding check_audit_def check_judgment_def rbind_ensure py_eq_JStr v [symmetric] w [symmetric]
    by (cases v; cases w; cases "map_of rows (query_key rec)"; cases "check_gold_sha256 gold_sha256 rec") simp_all
qed

text \<open>
  C13: The judgment gate accepts exactly when the records cover the multi-hop rows one to one by
  query id and every record is sound for some such row: sufficient verdict, same output hash,
  and evidence bindings that name the row's messages in order with the hash of their canonical
  bytes.
\<close>

theorem judgment_gate_accepts_iff:
  "validate_multi_hop_judgment records golden_rows messages = Ok () \<longleftrightarrow>
    covers records (multi_hop_rows golden_rows) \<and>
    list_all (\<lambda>rec. list_ex (\<lambda>row. record_sound messages row rec) (multi_hop_rows golden_rows)) records"
  by (simp add: judgment_Ok_iff list_all_iff list_ex_iff)

lemma audit_Ok_iff:
  "validate_multi_hop_audit records golden_rows messages reviewer gold_sha256 = Ok () \<longleftrightarrow>
    validate_multi_hop_judgment records golden_rows messages = Ok () \<and>
    list_all (\<lambda>rec. (reviewer = [] \<or> jget rec ''reviewer_key'' = JStr reviewer) \<and>
      (case gold_sha256 of None \<Rightarrow> True | Some sha \<Rightarrow> sha \<noteq> [] \<and> jget rec ''gold_sha256'' = JStr sha)) records"
proof -
  have gold: "check_gold_sha256 gold_sha256 rec = Ok () \<longleftrightarrow>
    (case gold_sha256 of None \<Rightarrow> True | Some sha \<Rightarrow> sha \<noteq> [] \<and> jget rec ''gold_sha256'' = JStr sha)" for rec
    by (simp add: check_gold_sha256_Ok split: option.splits)
  show ?thesis
    unfolding validate_multi_hop_audit_def validate_multi_hop_judgment_def rbind_Ok_iff forM_Ok_iff
      check_audit_iff gold list_all_iff by blast
qed


section \<open>Gold rows\<close>

definition gold_row_check :: "pyobj \<Rightarrow> unit result" where
  "gold_row_check row =
     (let action = jget row ''expected_action''; media = dict_get row ''gold_media_ids'' (JArr []);
          answer = dict_get row ''gold_answer'' (JStr []); is_media = dict_get row ''answer_is_media'' (JBool False) in
      if py_eq action (JStr ''return_result'') then
        if truthy is_media \<and> (\<not> truthy media \<or> truthy answer) then Raise (ValueError ''media answers'')
        else if \<not> truthy is_media \<and> (truthy media \<or> (case answer of JStr s \<Rightarrow> strip s = [] | _ \<Rightarrow> True))
        then Raise (ValueError ''text answers'')
        else Ok ()
      else if py_eq action (JStr ''clarify'') then
        ensure (\<not> (truthy media \<or> truthy answer \<or> \<not> truthy (jget row ''acceptable_clarification_targets'')))
          (ValueError ''clarify rows'')
      else if py_eq action (JStr ''no_result'') then
        ensure (\<not> (truthy media \<or> truthy answer)) (ValueError ''no_result rows'')
      else Raise (ValueError ''unknown expected_action''))"

definition validate_gold_rows :: "pyobj list \<Rightarrow> pyobj list result" where
  "validate_gold_rows rows =
     rbind (foldM (\<lambda>seen row.
        case jget row ''query_id'' of
          JStr q \<Rightarrow> if q = [] \<or> q \<in> set seen then Raise (ValueError ''unique query_id'')
                    else rbind (gold_row_check row) (\<lambda>_. Ok (q # seen))
        | _ \<Rightarrow> Raise (ValueError ''unique query_id'')) [] rows) (\<lambda>_. Ok rows)"

text \<open>
  The contract: an answer is a text without media or media without a text, a clarification has targets
  and neither, an empty result has neither.
\<close>

definition gold_row_ok :: "pyobj \<Rightarrow> bool" where
  "gold_row_ok row \<longleftrightarrow>
     (let media = truthy (dict_get row ''gold_media_ids'' (JArr []));
          answer = dict_get row ''gold_answer'' (JStr []) in
      (jget row ''expected_action'' = JStr ''return_result'' \<and>
         (if truthy (dict_get row ''answer_is_media'' (JBool False)) then media \<and> \<not> truthy answer
          else \<not> media \<and> (\<exists>s. answer = JStr s \<and> strip s \<noteq> []))) \<or>
      (jget row ''expected_action'' = JStr ''clarify'' \<and> \<not> media \<and> \<not> truthy answer \<and>
         truthy (jget row ''acceptable_clarification_targets'')) \<or>
      (jget row ''expected_action'' = JStr ''no_result'' \<and> \<not> media \<and> \<not> truthy answer))"

lemma gold_row_check_Ok: "gold_row_check row = Ok u \<longleftrightarrow> gold_row_ok row"
  by (cases "dict_get row ''gold_answer'' (JStr [])")
    (simp_all add: gold_row_check_def gold_row_ok_def Let_def ensure_def)

lemma gold_rows_fold:
  "is_ok (foldM (\<lambda>seen row.
        case jget row ''query_id'' of
          JStr q \<Rightarrow> if q = [] \<or> q \<in> set seen then Raise (ValueError ''unique query_id'')
                    else rbind (gold_row_check row) (\<lambda>_. Ok (q # seen))
        | _ \<Rightarrow> Raise (ValueError ''unique query_id'')) seen rows) \<longleftrightarrow>
   list_all (\<lambda>r. is_str (jget r ''query_id'') \<and> jget r ''query_id'' \<noteq> JStr [] \<and>
      jget r ''query_id'' \<notin> JStr ` set seen \<and> gold_row_ok r) rows \<and>
   distinct (map (\<lambda>r. jget r ''query_id'') rows)"
proof (induction rows arbitrary: seen)
  case Nil
  then show ?case by simp
next
  case (Cons row rows)
  show ?case
  proof (cases "jget row ''query_id''")
    case (JStr q)
    show ?thesis
    proof (cases "q = [] \<or> q \<in> set seen \<or> \<not> gold_row_ok row")
      case True
      then have "\<not> is_ok (if q = [] \<or> q \<in> set seen then Raise (ValueError ''unique query_id'')
         else rbind (gold_row_check row) (\<lambda>_. Ok (q # seen)))"
        by (auto simp: is_ok_iff rbind_Ok_iff gold_row_check_Ok)
      with True JStr show ?thesis by (auto simp: is_ok_iff rbind_Ok_iff)
    next
      case False
      then have ok: "gold_row_check row = Ok ()" by (simp add: gold_row_check_Ok)
      show ?thesis using False by (simp add: JStr ok Cons.IH [of "q # seen"] list_all_iff) (auto simp: image_iff)
    qed
  qed simp_all
qed

lemma validate_gold_rows_Ok:
  "validate_gold_rows rows = Ok values \<longleftrightarrow>
    values = rows \<and> distinct (map (\<lambda>r. jget r ''query_id'') rows) \<and>
    list_all (\<lambda>r. is_str (jget r ''query_id'') \<and> jget r ''query_id'' \<noteq> JStr [] \<and> gold_row_ok r) rows"
  using gold_rows_fold [of "[]" rows]
  by (auto simp: validate_gold_rows_def rbind_Ok_iff is_ok_iff)

text \<open>
  C15: validate_gold_rows returns its rows exactly when query ids are distinct non-empty strings
  and every row keeps the contract of its action: text without media or media without text,
  clarification targets only, or nothing.
\<close>

theorem validate_gold_rows_accepts_iff:
  "validate_gold_rows rows = Ok values \<longleftrightarrow>
    values = rows \<and> distinct (map (\<lambda>r. jget r ''query_id'') rows) \<and>
    list_all (\<lambda>r. is_str (jget r ''query_id'') \<and> jget r ''query_id'' \<noteq> JStr [] \<and> gold_row_ok r) rows"
  by (rule validate_gold_rows_Ok)

section \<open>The vocabulary gate\<close>

text \<open>The patterns with their source text.\<close>

definition session_pattern :: regex where
  "session_pattern = rx_seq [Chr (one_of ''Ss''), rx_lit ''ession'', Star (Chr is_space), rx_plus (Chr is_digit)]"

definition image_pattern :: regex where
  "image_pattern = rx_seq [WordB, Star (Chr is_word), rx_plus (Chr is_digit), Chr (is_char (CHR ''.'')),
     Alt (rx_liti ''png'') (rx_seq [rx_liti ''jp'', rx_opt (rx_liti ''e''), rx_liti ''g'']), WordB]"

definition session_dir_pattern :: regex where
  "session_dir_pattern = rx_seq [rx_liti ''session'', rx_plus (Chr is_digit), rx_lit ''/'']"

definition conversation_pattern :: regex where
  "conversation_pattern = Seq WordB (rx_liti ''In this conversation,'')"

definition HARD_FAIL_PATTERNS :: "(string \<times> regex) list" where
  "HARD_FAIL_PATTERNS =
     [(''[Ss]ession'' @ CHR 0x5C # ''s*'' @ CHR 0x5C # ''d+'', session_pattern),
      (CHR 0x5C # ''b'' @ CHR 0x5C # ''w*'' @ CHR 0x5C # ''d+'' @ CHR 0x5C # ''.(?:png|jpe?g)'' @ CHR 0x5C # ''b'',
       image_pattern),
      (''session'' @ CHR 0x5C # ''d+/'', session_dir_pattern)]"

definition FLAG_FOR_REVIEW_PATTERNS :: "(string \<times> regex) list" where
  "FLAG_FOR_REVIEW_PATTERNS = [(CHR 0x5C # ''bIn this conversation,'', conversation_pattern)]"

definition released_text :: "pyobj \<Rightarrow> string" where
  "released_text row = py_str (dict_get row ''query'' (JStr [])) @ [CHR 0x0A] @ py_str (dict_get row ''gold_answer'' (JStr []))"

definition pattern_hits :: "(string \<times> regex) list \<Rightarrow> string \<Rightarrow> string list" where
  "pattern_hits patterns s = map fst (filter (\<lambda>(_, r). rx_found_in r s) patterns)"

definition vocabulary_report :: "(string \<times> regex) list \<Rightarrow> pyobj list \<Rightarrow> (string, string list) dict" where
  "vocabulary_report patterns rows =
     foldl (\<lambda>d row.
        let matches = pattern_hits patterns (released_text row) in
        if matches = [] then d else AList.update (py_str (dict_get row ''query_id'' (JStr ''<missing>''))) matches d)
       [] rows"

definition vocabulary_violations :: "pyobj list \<Rightarrow> (string, string list) dict" where
  "vocabulary_violations = vocabulary_report HARD_FAIL_PATTERNS"

definition vocabulary_flags :: "pyobj list \<Rightarrow> (string, string list) dict" where
  "vocabulary_flags = vocabulary_report FLAG_FOR_REVIEW_PATTERNS"

definition run_vocabulary_gate :: "fs \<Rightarrow> path \<Rightarrow> int result" where
  "run_vocabulary_gate fs p =
     rbind (fs_read_text fs p) (\<lambda>content.
     rbind (mapM loads (filter (\<lambda>line. line \<noteq> []) (splitlines content))) (\<lambda>values.
     rbind (mapM obj_fields values) (\<lambda>rows.
       Ok (if vocabulary_violations rows \<noteq> [] then 1 else 0))))"

lemma pattern_hits_Nil: "pattern_hits patterns s = [] \<longleftrightarrow> (\<forall>(_, r) \<in> set patterns. \<not> rx_found_in r s)"
  by (auto simp: pattern_hits_def filter_empty_conv)

lemma update_not_Nil: "AList.update k v d \<noteq> []"
  by (cases d) auto

lemma vocabulary_report_Nil:
  "vocabulary_report patterns rows = [] \<longleftrightarrow> (\<forall>row \<in> set rows. pattern_hits patterns (released_text row) = [])"
  by (induction rows rule: rev_induct) (auto simp: vocabulary_report_def Let_def update_not_Nil)

text \<open>The texts the hard patterns stand for, as strings.\<close>

lemma session_pattern_match:
  assumes "c \<in> set ''Ss''" "list_all is_space ws" "is_digit d"
  shows "rx_found_in session_pattern (u @ c # ''ession'' @ ws @ d # v)"
proof (rule rx_search_here)
  have 1: "rx_rel (Chr (one_of ''Ss'')) (rev u, c # ''ession'' @ ws @ d # v, []) (c # rev u, ''ession'' @ ws @ d # v, [])"
    using assms(1) by (intro rel_chr) (simp add: one_of_def)
  have 2: "rx_rel (rx_lit ''ession'') (c # rev u, ''ession'' @ ws @ d # v, []) (rev ''ession'' @ c # rev u, ws @ d # v, [])"
    by (rule rel_lit)
  have 3: "rx_rel (Star (Chr is_space)) (rev ''ession'' @ c # rev u, ws @ d # v, [])
      (rev ws @ rev ''ession'' @ c # rev u, d # v, [])"
    by (rule rel_star_chars [OF assms(2)])
  have 4: "rx_rel (Chr is_digit) (rev ws @ rev ''ession'' @ c # rev u, d # v, [])
      (d # rev ws @ rev ''ession'' @ c # rev u, v, [])"
    by (rule rel_chr [of is_digit d, OF assms(3)])
  show "rx_rel session_pattern (rev u, c # ''ession'' @ ws @ d # v, []) (d # rev ws @ rev ''ession'' @ c # rev u, v, [])"
    unfolding session_pattern_def rx_seq.simps rx_plus_def
    by (rule rel_seq [OF 1 rel_seq [OF 2 rel_seq [OF 3 rel_seq [OF 4 rel_stop]]]])
qed

lemma gate_rows:
  assumes "run_vocabulary_gate fs p = Ok 0" "fs_read_text fs p = Ok content" "line \<in> set (splitlines content)"
    "line \<noteq> []" "loads line = Ok v"
  obtains row where "v = JObj row" "pattern_hits HARD_FAIL_PATTERNS (released_text row) = []"
proof -
  from assms(1,2) obtain vals rows where r: "mapM loads (filter (\<lambda>line. line \<noteq> []) (splitlines content)) = Ok vals"
    "mapM obj_fields vals = Ok rows" "vocabulary_violations rows = []"
    by (auto simp: run_vocabulary_gate_def rbind_Ok_iff split: if_splits)
  from r(1) assms(3,4,5) have "v \<in> set vals" by (auto simp: mapM_Ok_iff dest: list_all2_setD1)
  with r(2) obtain row where "row \<in> set rows" "obj_fields v = Ok row"
    by (auto simp: mapM_Ok_iff dest: list_all2_setD1)
  with r(3) that show ?thesis by (auto simp: vocabulary_violations_def vocabulary_report_Nil obj_fields_Ok)
qed

text \<open>
  C16: When the vocabulary gate passes a file, no released query or answer of any line names a
  session by number: after "Session" or "session" and any spaces there is never a digit.
\<close>

theorem vocabulary_gate_rejects_sessions:
  assumes "run_vocabulary_gate fs p = Ok 0" "fs_read_text fs p = Ok content"
    "line \<in> set (splitlines content)" "loads line = Ok (JObj row)"
    "released_text row = u @ c # ''ession'' @ ws @ d # v" "c \<in> set ''Ss''" "list_all is_space ws"
  shows "\<not> is_digit d"
proof
  assume digit: "is_digit d"
  have found: "rx_found_in session_pattern (released_text row)"
    unfolding assms(5) by (rule session_pattern_match [OF assms(6,7) digit])
  have "loads [] \<noteq> Ok (JObj row)" by (simp add: loads_def)
  with assms(4) have "line \<noteq> []" by auto
  from gate_rows [OF assms(1-3) this assms(4)] found show False
    by (auto simp: pattern_hits_Nil HARD_FAIL_PATTERNS_def)
qed

definition sample_gold :: fs where
  "sample_gold = [([''g''], File (dumps js_lines (JObj [(''query'', JStr ''Session x'')]) @ [CHR 0x0A]))]"

lemma sample_gold_passes: "run_vocabulary_gate sample_gold [''g''] = Ok 0"
  by code_simp

theorem vocabulary_gate_rejects_sessions_witness:
  "run_vocabulary_gate sample_gold [''g''] = Ok 0 \<and> \<not> is_digit (CHR ''x'')"
proof -
  let ?line = "dumps js_lines (JObj [(''query'', JStr ''Session x'')])"
  have "fs_read_text sample_gold [''g''] = Ok (?line @ [CHR 0x0A])" by code_simp
  moreover have "?line \<in> set (splitlines (?line @ [CHR 0x0A]))" by code_simp
  moreover have "loads ?line = Ok (JObj [(''query'', JStr ''Session x'')])" by code_simp
  moreover have "released_text [(''query'', JStr ''Session x'')] = [] @ CHR ''S'' # ''ession'' @ '' '' @ CHR ''x'' # [CHR 0x0A]"
    by (simp add: released_text_def dict_get_def)
  ultimately have "\<not> is_digit (CHR ''x'')"
    by (rule vocabulary_gate_rejects_sessions [OF sample_gold_passes]) (simp_all add: is_space_def)
  with sample_gold_passes show ?thesis by blast
qed

end
