(* ===== verification/Py_Float.thy ===== *)
theory Py_Float
  imports Py_Json
begin

text \<open>
  Float arithmetic: \<open>float_of\<close> is the float nearest to a rational, written, as every float of the
  development, as the rational its \<^verbatim>\<open>repr\<close> denotes. The program only divides counts and rounds
  ratios, so every result is zero or a normal binary64 number.
\<close>

definition pow2 :: "int \<Rightarrow> rat" where
  "pow2 e = (if 0 \<le> e then 2 ^ nat e else 1 / 2 ^ nat (- e))"

text \<open>Rounding to the nearest integer, ties to even.\<close>

definition half_even :: "rat \<Rightarrow> int" where
  "half_even q =
     (let f = floor q; r = q - of_int f in if r > 1 / 2 \<or> (r = 1 / 2 \<and> odd f) then f + 1 else f)"

fun log2_nat :: "nat \<Rightarrow> nat" where
  "log2_nat n = (if n < 2 then 0 else Suc (log2_nat (n div 2)))"

declare log2_nat.simps [simp del]

text \<open>The exponent \<open>e\<close> with \<open>2^e \<le> q < 2^(e+1)\<close>, for a positive \<open>q\<close>.\<close>

definition exponent2 :: "rat \<Rightarrow> int" where
  "exponent2 q =
     (let (a, b) = quotient_of q; e = int (log2_nat (nat a)) - int (log2_nat (nat b)) in
      if q < pow2 e then e - 1 else e)"

definition binary64 :: "rat \<Rightarrow> rat" where
  "binary64 q = (let e = exponent2 q in of_int (half_even (q * pow2 (52 - e))) * pow2 (e - 52))"

text \<open>The place of the first significant decimal digit, and rounding to \<open>k\<close> digits.\<close>

fun decimal_point :: "nat \<Rightarrow> rat \<Rightarrow> int" where
  "decimal_point 0 q = 0"
| "decimal_point (Suc fuel) q =
     (if q < 1 then decimal_point fuel (10 * q) - 1
      else int (length (nat_str (nat (floor q)))) - 1)"

definition to_digits :: "nat \<Rightarrow> rat \<Rightarrow> rat" where
  "to_digits k q =
     (let d = decimal_point 340 q in of_int (half_even (q * pow10 (int k - 1 - d))) * pow10 (d + 1 - int k))"

text \<open>The shortest decimal that reads back as the same float: at most seventeen digits.\<close>

definition shortest :: "rat \<Rightarrow> rat" where
  "shortest x =
     (case find (\<lambda>k. binary64 (to_digits k x) = x) [1..<18] of
        Some k \<Rightarrow> to_digits k x
      | None \<Rightarrow> x)"

definition float_of :: "rat \<Rightarrow> rat" where
  "float_of q =
     (if q = 0 then 0 else if q < 0 then - shortest (binary64 (- q)) else shortest (binary64 q))"

text \<open>\<^verbatim>\<open>a / b if b else 0.0\<close> on counts.\<close>

definition ratio :: "nat \<Rightarrow> nat \<Rightarrow> rat" where
  "ratio a b = (if b = 0 then 0 else float_of (of_nat a / of_nat b))"

text \<open>\<^verbatim>\<open>round(x, d)\<close> on a float that is not negative: its exact binary value is rounded, ties to even.\<close>

definition round_places :: "nat \<Rightarrow> rat \<Rightarrow> rat" where
  "round_places d x =
     (if x = 0 then 0 else float_of (of_int (half_even (binary64 x * 10 ^ d)) / 10 ^ d))"

lemma ratio_zero [simp]: "ratio a 0 = 0"
  by (simp add: ratio_def)

end
