(* ===== verification/Golden_Rows.thy ===== *)
theory Golden_Rows
  imports Golden_Gates Py_Float
begin

text \<open>
  What the builders of golden rows share: the two hashes of a row (\<^verbatim>\<open>src/evaluation/golden/tier_c.py\<close>),
  the message corpus and the access to the fields of a row.
\<close>

section \<open>Provenance\<close>

definition PROVENANCE_PATH :: string where
  "PROVENANCE_PATH = ''data/golden/provenance/step3_labelling_specification.md''"

definition PROVENANCE_SHA256 :: string where
  "PROVENANCE_SHA256 = ''150145e20e0e470711e993bdba8ef93cfa102b07697a497d953484ae81d198e8''"

definition PROVENANCE_REF :: string where
  "PROVENANCE_REF = PROVENANCE_PATH @ ''#'' @ PROVENANCE_SHA256"

section \<open>Hashes of a row\<close>

definition compute_content_hash :: "string \<Rightarrow> string \<Rightarrow> string \<Rightarrow> string" where
  "compute_content_hash query stratum answer =
     sha256_hex (utf8_encode (query @ ''|'' @ stratum @ ''|'' @ answer))"

definition output_payload :: "pyobj \<Rightarrow> json" where
  "output_payload row = JObj (filter (\<lambda>(k, _). k \<noteq> ''output_hash'') row)"

definition compute_output_hash :: "pyobj \<Rightarrow> string" where
  "compute_output_hash row = sha256_hex (utf8_encode (dumps js_canonical (output_payload row)))"

section \<open>Fields and lists\<close>

abbreviation set_field :: "string \<Rightarrow> json \<Rightarrow> pyobj \<Rightarrow> pyobj" where
  "set_field k v row \<equiv> AList.update k v row"

definition nth_item :: "'a list \<Rightarrow> nat \<Rightarrow> 'a result" where
  "nth_item xs i = (if i < length xs then Ok (xs ! i) else Raise IndexError)"

lemma nth_item_Ok [run_ok]: "nth_item xs i = Ok x \<longleftrightarrow> i < length xs \<and> x = xs ! i"
  by (auto simp: nth_item_def)

text \<open>\<^verbatim>\<open>x + 1\<close>\<close>

definition py_succ :: "json \<Rightarrow> json result" where
  "py_succ v = (case v of
     JInt i \<Rightarrow> Ok (JInt (i + 1))
   | JBool b \<Rightarrow> Ok (JInt (1 + of_bool b))
   | JFloat q \<Rightarrow> Ok (JFloat (q + 1))
   | _ \<Rightarrow> Raise (TypeError ''+''))"

lemma get_update_other: "k \<noteq> k' \<Longrightarrow> map_of (AList.update k v row) k' = map_of row k'"
  by (simp add: update_conv')

section \<open>The message corpus\<close>

text \<open>The lines of \<^verbatim>\<open>messages.jsonl\<close> that are not blank.\<close>

definition read_messages :: "fs \<Rightarrow> path \<Rightarrow> pyobj list result" where
  "read_messages fs p =
     rbind (fs_read fs p) (\<lambda>bytes.
       case utf8_decode bytes of
         None \<Rightarrow> Raise (ValueError ''invalid utf-8'')
       | Some text \<Rightarrow> mapM loads_object (filter (\<lambda>line. strip line \<noteq> []) (file_lines text)))"

abbreviation messages_file :: "path \<Rightarrow> path" where
  "messages_file base \<equiv> base @ [''data'', ''processed'', ''messages.jsonl'']"

end
