(* ===== verification/Golden_Leak.thy ===== *)
theory Golden_Leak
  imports Golden_Rows
begin

text \<open>
  The anti-leak gate of the golden dataset (\<^verbatim>\<open>run_anti_leak_gate\<close>, \<^verbatim>\<open>rewrite_leaking_query\<close> and
  \<^verbatim>\<open>check_ac3b_saturation_dev_only\<close> of \<^verbatim>\<open>src/evaluation/golden/builder.py\<close>): queries that retrieve
  their own evidence are paraphrased, every twentieth answerable row is a control that is left alone.

  The retriever of the package \<^verbatim>\<open>bm25s\<close> is the parameter \<open>retrieve\<close>: from the texts of the corpus
  and a batch of queries to the index of the first hit of each query; it may raise. The rows are
  updated in place by the code and returned updated by the model. Ids, strata and queries are
  strings, as the builders make them.
\<close>

section \<open>Paraphrases\<close>

definition PARAPHRASE_SYNONYMS :: "(string \<times> string) list" where
  "PARAPHRASE_SYNONYMS =
   [(''arranged to meet for a meal'', ''planned to dine together''),
    (''meet for a meal'', ''dine together''),
    (''good value for money'', ''great price-performance''),
    (''great value for money'', ''reasonable prices''),
    (''recommended a restaurant'', ''suggested an eatery''), (''recommended'', ''suggested''),
    (''convenient and practical'', ''useful and handy''), (''practical'', ''useful''),
    (''automatic feeder'', ''automated feeding unit''),
    (''automated device'', ''robotic appliance''), (''network camera'', ''webcam monitor''),
    (''air purifier'', ''air cleaning unit''), (''treatment plan'', ''medical regimen''),
    (''diagnosis'', ''clinical assessment''), (''symptoms'', ''signs''),
    (''occurred'', ''appeared''), (''purchase'', ''buy''), (''purchased'', ''bought''),
    (''mentioned'', ''noted''), (''discussed'', ''talked about''), (''shared'', ''sent''),
    (''cuisine'', ''food style''), (''restaurant'', ''dining place''),
    (''differences'', ''distinctions''), (''divide their tasks'', ''split the responsibilities''),
    (''selected'', ''picked''), (''chose'', ''picked''), (''equipment combination'', ''gear combo''),
    (''standing desk'', ''height-adjustable desk''), (''timed reminders'', ''scheduled alerts''),
    (''significantly prominent'', ''noticeably strong''),
    (''effect intensity'', ''impact magnitude''),
    (''advantages and disadvantages'', ''pros and cons''),
    (''modular attachment system'', ''modular mounting setup''),
    (''experimental results'', ''test findings''), (''preliminary results'', ''early findings''),
    (''soundproof windows'', ''acoustic glazing''), (''anxiety behaviors'', ''stress signs'')]"

text \<open>Every pattern is a text between word boundaries, in any case.\<close>

definition phrase_pattern :: "string \<Rightarrow> regex" where
  "phrase_pattern phrase = rx_seq [WordB, rx_liti phrase, WordB]"

definition rewrite_leaking_query :: "string \<Rightarrow> string" where
  "rewrite_leaking_query query =
     foldl (\<lambda>res (phrase, replacement). rx_sub (phrase_pattern phrase) (\<lambda>_. replacement) res)
       query PARAPHRASE_SYNONYMS"

section \<open>Hits\<close>

type_synonym retriever = "string list \<Rightarrow> string list \<Rightarrow> nat list result"

definition evidence_ids :: "pyobj \<Rightarrow> json list result" where
  "evidence_ids r = rbind (py_iter (dict_get r ''gold_evidence_message_ids'' (JArr []))) as_keys"

text \<open>\<^verbatim>\<open>msg_ids[results[i, 0]] in ev_ids\<close>\<close>

definition top1_hit :: "json list \<Rightarrow> nat list \<Rightarrow> nat \<Rightarrow> pyobj \<Rightarrow> bool result" where
  "top1_hit msg_ids results i r =
     rbind (evidence_ids r) (\<lambda>ev_ids.
     rbind (nth_item results i) (\<lambda>doc.
     rbind (nth_item msg_ids doc) (\<lambda>mid.
       if hashable mid then Ok (py_norm mid \<in> set ev_ids) else Raise (TypeError ''unhashable''))))"

abbreviation is_return_result :: "pyobj \<Rightarrow> bool" where
  "is_return_result r \<equiv> py_eq (jget r ''expected_action'') (JStr ''return_result'')"

abbreviation is_control :: "pyobj \<Rightarrow> bool" where
  "is_control r \<equiv> truthy (jget r ''gate_control_group'')"

text \<open>
  Rates are compared with 0.70 and 0.15 as exact quotients: the division of two counts below
  \<open>2^48\<close> is at or above a decimal of two places exactly when the rounded quotient is.
\<close>

abbreviation quotient :: "nat \<Rightarrow> nat \<Rightarrow> rat" where
  "quotient a b \<equiv> of_nat a / of_nat b"

section \<open>Saturation\<close>

definition check_ac3b_saturation_dev_only ::
  "retriever \<Rightarrow> pyobj list \<Rightarrow> pyobj list \<Rightarrow> json result" where
  "check_ac3b_saturation_dev_only retrieve rows corpus_messages =
     (let dev_vpc = filter (\<lambda>r. py_eq (jget r ''stratum'') (JStr ''visual_plus_context'')) rows in
      if list_ex (\<lambda>r. py_eq (jget r ''split'') (JStr ''test'')) rows
      then Raise (ValueError ''AC3b saturation check strictly requires dev rows only'')
      else if dev_vpc = [] then Ok (JObj [(''status'', JStr ''skipped''), (''dev_vpc_count'', JInt 0)])
      else
        rbind (mapM (\<lambda>m. str_item m ''text'') corpus_messages) (\<lambda>corpus.
        rbind (mapM (\<lambda>m. jitem m ''message_id'') corpus_messages) (\<lambda>msg_ids.
        rbind (mapM (\<lambda>r. str_item r ''query'') dev_vpc) (\<lambda>queries.
        rbind (retrieve corpus queries) (\<lambda>results.
        rbind (mapM (\<lambda>(i, r). top1_hit msg_ids results i r) (enumerate0 dev_vpc)) (\<lambda>hit.
          let hits = length (filter id hit) in
          if quotient hits (length dev_vpc) \<ge> 7 / 10 then Raise (ValueError ''AC3b saturation violation'')
          else Ok (JObj
            [(''status'', JStr ''passed''),
             (''dev_visual_plus_context_count'', JInt (int (length dev_vpc))),
             (''bm25_top1_hits'', JInt (int hits)),
             (''bm25_top1_rate'', JFloat (ratio hits (length dev_vpc))),
             (''threshold'', JFloat (7 / 10))])))))))"

section \<open>The gate on one row\<close>

text \<open>Every twentieth answerable row is in the control group.\<close>

definition mark_control :: "pyobj list \<Rightarrow> pyobj list" where
  "mark_control rows =
     snd (foldl (\<lambda>(idx, out) r.
        if is_return_result r
        then (Suc idx, out @ [set_field ''gate_control_group'' (JBool (idx mod 20 = 0)) r])
        else (idx, out @ [r])) (0, []) rows)"

record stratum_stat =
  total_queries :: nat
  evaluated_queries :: nat
  hits :: nat
  rewritten_count :: nat
  unrewritable_count :: nat
  clean_count :: nat
  survived_count :: nat
  control_group_count :: nat

record gate_state =
  gated :: "pyobj list"
  per_query_outcomes :: "(string, json) dict"
  stratum_stats :: "(string, stratum_stat) dict"
  total_hits :: nat
  evaluated_count :: nat
  control_hits :: nat
  control_evaluated :: nat
  total_rewritten :: nat
  total_unrewritable :: nat


definition bump :: "string \<Rightarrow> (stratum_stat \<Rightarrow> stratum_stat) \<Rightarrow> gate_state \<Rightarrow> gate_state" where
  "bump s f st = st\<lparr>stratum_stats := AList.map_entry s f (stratum_stats st)\<rparr>"

definition outcome_entry :: "string \<Rightarrow> bool \<Rightarrow> bool \<Rightarrow> string \<Rightarrow> string \<Rightarrow> json \<Rightarrow> json" where
  "outcome_entry outcome initial final pre post rewrites = JObj
     [(''outcome'', JStr outcome), (''initial_hit'', JBool initial), (''final_hit'', JBool final),
      (''pre_gate_query'', JStr pre), (''post_gate_query'', JStr post), (''rewrite_count'', rewrites)]"

text \<open>The row of a query that was rewritten.\<close>

definition rewritten_row :: "string \<Rightarrow> string \<Rightarrow> pyobj \<Rightarrow> pyobj result" where
  "rewritten_row rewritten s r =
     rbind (py_succ (dict_get r ''rewrite_count'' (JInt 0))) (\<lambda>rewrites.
       let r1 = set_field ''rewrite_count'' rewrites (set_field ''query'' (JStr rewritten) r);
           r2 = set_field ''content_hash''
             (JStr (compute_content_hash rewritten s (py_str (dict_get r1 ''gold_answer'' (JStr []))))) r1
       in Ok (set_field ''output_hash'' (JStr (compute_output_hash r2)) r2))"

text \<open>What becomes of a row outside the control group: its outcome and the updated row.\<close>

definition gate_query ::
  "retriever \<Rightarrow> string list \<Rightarrow> json list \<Rightarrow> string \<Rightarrow> string \<Rightarrow> bool \<Rightarrow> pyobj \<Rightarrow> (string \<times> pyobj) result" where
  "gate_query retrieve corpus msg_ids s orig_query is_hit r =
     (if \<not> is_hit then Ok (''clean'', r)
      else
        let rewritten = rewrite_leaking_query orig_query in
        if rewritten = orig_query then Ok (''unrewritable'', r)
        else
          rbind (retrieve corpus [rewritten]) (\<lambda>res_new.
          rbind (top1_hit msg_ids res_new 0 r) (\<lambda>still_hit.
            if still_hit then Ok (''unrewritable'', r)
            else rbind (rewritten_row rewritten s r) (\<lambda>r'. Ok (''rewritten'', r')))))"

definition count_outcome :: "string \<Rightarrow> string \<Rightarrow> gate_state \<Rightarrow> gate_state" where
  "count_outcome s outcome st =
     (if outcome = ''clean'' then bump s (clean_count_update Suc) st
      else if outcome = ''rewritten''
      then bump s (rewritten_count_update Suc) (st\<lparr>total_rewritten := Suc (total_rewritten st)\<rparr>)
      else bump s (unrewritable_count_update Suc) (st\<lparr>total_unrewritable := Suc (total_unrewritable st)\<rparr>))"

definition count_hit :: "string \<Rightarrow> bool \<Rightarrow> gate_state \<Rightarrow> gate_state" where
  "count_hit s is_hit st =
     (if is_hit then bump s (hits_update Suc) (st\<lparr>total_hits := Suc (total_hits st)\<rparr>) else st)"

definition note_outcome :: "string \<Rightarrow> json \<Rightarrow> pyobj \<Rightarrow> gate_state \<Rightarrow> gate_state" where
  "note_outcome qid entry r st =
     st\<lparr>per_query_outcomes := AList.update qid entry (per_query_outcomes st), gated := gated st @ [r]\<rparr>"

definition gate_row ::
  "retriever \<Rightarrow> string list \<Rightarrow> json list \<Rightarrow> nat list \<Rightarrow> gate_state \<Rightarrow> nat \<times> pyobj \<Rightarrow> gate_state result" where
  "gate_row retrieve corpus msg_ids results st ir =
     (let (i, r) = ir in
      rbind (str_item r ''stratum'') (\<lambda>s.
      rbind (str_item r ''query_id'') (\<lambda>qid.
        if \<not> is_return_result r then Ok (st\<lparr>gated := gated st @ [r]\<rparr>)
        else
          rbind (top1_hit msg_ids results i r) (\<lambda>is_hit.
          rbind (str_item r ''query'') (\<lambda>orig_query.
            let st1 = bump s (evaluated_queries_update Suc) (st\<lparr>evaluated_count := Suc (evaluated_count st)\<rparr>) in
            if is_control r then
              let r' = set_field ''gate_result'' (JStr ''passed'') r;
                  st2 = count_hit s is_hit (st1\<lparr>control_evaluated := Suc (control_evaluated st1),
                    control_hits := control_hits st1 + of_bool is_hit\<rparr>)
              in Ok (note_outcome qid (outcome_entry ''control_group'' is_hit is_hit orig_query orig_query
                    (dict_get r ''rewrite_count'' (JInt 0))) r' st2)
            else
              rbind (gate_query retrieve corpus msg_ids s orig_query is_hit r) (\<lambda>(outcome, r1).
                let r' = set_field ''gate_result'' (JStr ''passed'') r1;
                    st2 = count_outcome s outcome (count_hit s is_hit st1)
                in rbind (str_item r' ''query'') (\<lambda>post.
                  Ok (note_outcome qid (outcome_entry outcome is_hit (is_hit \<and> outcome \<noteq> ''rewritten'')
                    orig_query post (dict_get r' ''rewrite_count'' (JInt 0))) r' st2))))))))"

section \<open>The gate\<close>

definition stratum_start :: "pyobj list \<Rightarrow> string \<Rightarrow> stratum_stat" where
  "stratum_start rows s =
     (let of_stratum = filter (\<lambda>r. jget r ''stratum'' = JStr s) rows in
      \<lparr>total_queries = length of_stratum, evaluated_queries = 0, hits = 0, rewritten_count = 0,
       unrewritable_count = 0, clean_count = 0, survived_count = length of_stratum,
       control_group_count = length (filter is_control of_stratum)\<rparr>)"

definition stat_json :: "stratum_stat \<Rightarrow> json" where
  "stat_json st = JObj
     [(''total_queries'', JInt (int (total_queries st))),
      (''evaluated_queries'', JInt (int (evaluated_queries st))),
      (''hits'', JInt (int (hits st))),
      (''rewritten_count'', JInt (int (rewritten_count st))),
      (''unrewritable_count'', JInt (int (unrewritable_count st))),
      (''clean_count'', JInt (int (clean_count st))),
      (''survived_count'', JInt (int (survived_count st))),
      (''control_group_count'', JInt (int (control_group_count st))),
      (''bm25s_top1_rate'', JFloat (ratio (hits st) (evaluated_queries st)))]"

definition group_json :: "nat \<Rightarrow> nat \<Rightarrow> json" where
  "group_json n h = JObj
     [(''count'', JInt (int n)), (''hits'', JInt (int h)), (''rate'', JFloat (ratio h n))]"

text \<open>The queries of the answerable rows are retrieved again as released.\<close>

definition released_hits :: "retriever \<Rightarrow> string list \<Rightarrow> json list \<Rightarrow> pyobj list \<Rightarrow> nat result" where
  "released_hits retrieve corpus msg_ids rows =
     (let released = filter is_return_result rows in
      rbind (mapM (\<lambda>r. str_item r ''query'') released) (\<lambda>queries.
      rbind (retrieve corpus queries) (\<lambda>rel_results.
      rbind (mapM (\<lambda>(i, r). top1_hit msg_ids rel_results i r) (enumerate0 released)) (\<lambda>hit.
        Ok (length (filter id hit))))))"

definition summary_report :: "gate_state \<Rightarrow> nat \<Rightarrow> nat \<Rightarrow> json \<Rightarrow> pyobj" where
  "summary_report st total_return_result rel_hits saturation =
     [(''status'', JStr ''passed''),
      (''evaluated_return_result_queries'', JInt (int (evaluated_count st))),
      (''total_return_result_expected'', JInt (int total_return_result)),
      (''initial_bm25s_top1_hits'', JInt (int (total_hits st))),
      (''initial_bm25s_top1_rate'', JFloat (ratio (total_hits st) (evaluated_count st))),
      (''released_bm25s_top1_hits'', JInt (int rel_hits)),
      (''released_bm25s_top1_rate'', JFloat (ratio rel_hits (evaluated_count st))),
      (''bm25s_top1_hits'', JInt (int rel_hits)),
      (''bm25s_top1_rate'', JFloat (ratio rel_hits (evaluated_count st))),
      (''rewritten_count'', JInt (int (total_rewritten st))),
      (''unrewritable_count'', JInt (int (total_unrewritable st))),
      (''control_group'', group_json (control_evaluated st) (control_hits st)),
      (''gated_group'', group_json (evaluated_count st - control_evaluated st) (total_hits st - control_hits st)),
      (''ac3b_saturation'', saturation)]"

definition audit_report :: "gate_state \<Rightarrow> string list \<Rightarrow> string list \<Rightarrow> pyobj \<Rightarrow> pyobj" where
  "audit_report st pre_gate_query_ids post_gate_query_ids summary =
     [(''summary'', JObj summary),
      (''strata'', JObj (map (\<lambda>(s, x). (s, stat_json x)) (stratum_stats st))),
      (''pre_gate_query_ids'', JArr (map JStr pre_gate_query_ids)),
      (''post_gate_query_ids'', JArr (map JStr post_gate_query_ids)),
      (''pre_gate_query_count'', JInt (int (length pre_gate_query_ids))),
      (''post_gate_query_count'', JInt (int (length post_gate_query_ids))),
      (''per_query_outcomes'', JObj (per_query_outcomes st)),
      (''multiset_preserved'', JBool (sort pre_gate_query_ids = sort post_gate_query_ids))]"

definition gate_start :: "pyobj list \<Rightarrow> string list \<Rightarrow> gate_state" where
  "gate_start rows strata =
     \<lparr>gated = [], per_query_outcomes = [],
      stratum_stats = map (\<lambda>s. (s, stratum_start rows s)) (sort (dedup strata)),
      total_hits = 0, evaluated_count = 0, control_hits = 0, control_evaluated = 0,
      total_rewritten = 0, total_unrewritable = 0\<rparr>"

definition run_anti_leak_gate ::
  "retriever \<Rightarrow> fs \<Rightarrow> path \<Rightarrow> pyobj list \<Rightarrow> (pyobj list \<times> pyobj \<times> pyobj) result" where
  "run_anti_leak_gate retrieve fs base rows0 =
     (if \<not> fs_exists fs (messages_file base) then Raise (FileNotFoundError ''Messages artifact missing'')
      else
        rbind (read_messages fs (messages_file base)) (\<lambda>messages.
        rbind (mapM (\<lambda>r. str_item r ''query_id'') rows0) (\<lambda>pre_gate_query_ids.
        let rows = mark_control rows0 in
        rbind (mapM (\<lambda>m. str_item m ''text'') messages) (\<lambda>corpus.
        rbind (mapM (\<lambda>m. jitem m ''message_id'') messages) (\<lambda>msg_ids.
        rbind (mapM (\<lambda>r. str_item r ''query'') rows) (\<lambda>queries.
        rbind (retrieve corpus queries) (\<lambda>results.
        rbind (mapM (\<lambda>r. str_item r ''stratum'') rows) (\<lambda>strata.
        rbind (foldM (gate_row retrieve corpus msg_ids results) (gate_start rows strata) (enumerate0 rows)) (\<lambda>st.
        rbind (mapM (\<lambda>r. str_item r ''query_id'') (gated st)) (\<lambda>post_gate_query_ids.
        rbind (ensure (sort pre_gate_query_ids = sort post_gate_query_ids) (ValueError ''G6b violation'')) (\<lambda>_.
        rbind (released_hits retrieve corpus msg_ids (gated st)) (\<lambda>rel_hits.
        rbind (ensure (\<not> (0 < evaluated_count st \<and> quotient rel_hits (evaluated_count st) > 15 / 100))
          (ValueError ''AC3 anti-leak gate failed'')) (\<lambda>_.
        rbind (check_ac3b_saturation_dev_only retrieve
          (filter (\<lambda>r. py_eq (jget r ''split'') (JStr ''dev'')) (gated st)) messages) (\<lambda>saturation.
          let summary = summary_report st (length (filter is_return_result rows)) rel_hits saturation in
          Ok (gated st, summary, audit_report st pre_gate_query_ids post_gate_query_ids summary)))))))))))))))"

section \<open>What the gate does to a row\<close>

definition gate_fields :: "string set" where
  "gate_fields = {''query'', ''rewrite_count'', ''content_hash'', ''output_hash'', ''gate_result''}"

definition gate_effect :: "pyobj \<Rightarrow> pyobj \<Rightarrow> bool" where
  "gate_effect r r' \<longleftrightarrow>
     (\<forall>k. k \<notin> gate_fields \<longrightarrow> map_of r' k = map_of r k) \<and>
     (map_of r' ''query'' = map_of r ''query'' \<and> map_of r' ''output_hash'' = map_of r ''output_hash'' \<or>
      is_return_result r \<and> \<not> is_control r \<and>
      (\<exists>q. map_of r ''query'' = Some (JStr q) \<and> map_of r' ''query'' = Some (JStr (rewrite_leaking_query q))))"

lemma gate_effect_get: "gate_effect r r' \<Longrightarrow> k \<notin> gate_fields \<Longrightarrow> dict_get r' k d = dict_get r k d"
  by (simp add: gate_effect_def dict_get_def)

lemma gate_effect_kind:
  assumes "gate_effect r r'"
  shows "is_return_result r' \<longleftrightarrow> is_return_result r" "jget r' ''query_id'' = jget r ''query_id''"
    "evidence_ids r' = evidence_ids r"
  using gate_effect_get [OF assms, of "''expected_action''" JNull] gate_effect_get [OF assms, of "''query_id''" JNull]
    gate_effect_get [OF assms, of "''gold_evidence_message_ids''" "JArr []"]
  by (simp_all add: gate_fields_def evidence_ids_def)

lemma gate_effect_passed:
  assumes "gate_effect r r'"
  shows "gate_effect r (set_field ''gate_result'' v r')"
  using assms unfolding gate_effect_def by (auto simp: gate_fields_def update_conv')

lemma gate_effect_refl: "gate_effect r r"
  by (simp add: gate_effect_def)

lemma rewritten_row_fields:
  assumes "rewritten_row q s r = Ok r'"
  shows "map_of r' ''query'' = Some (JStr q)" "k \<notin> gate_fields \<Longrightarrow> map_of r' k = map_of r k"
  using assms by (auto simp: rewritten_row_def run_ok gate_fields_def update_conv' Let_def)

lemma gate_query_effect:
  assumes "gate_query retrieve corpus msg_ids s q hit r = Ok (outcome, r')"
    and "is_return_result r" "\<not> is_control r" "map_of r ''query'' = Some (JStr q)"
  shows "gate_effect r r'" "(outcome = ''clean'') = (\<not> hit)" "outcome \<in> {''clean'', ''rewritten'', ''unrewritable''}"
  using assms
  by (auto simp: gate_query_def Let_def run_ok gate_effect_refl gate_effect_def rewritten_row_fields split: if_splits)

section \<open>The loop\<close>

definition gate_counts :: "gate_state \<Rightarrow> bool" where
  "gate_counts st \<longleftrightarrow>
     total_hits st = control_hits st + total_rewritten st + total_unrewritable st \<and>
     control_hits st \<le> control_evaluated st \<and> control_evaluated st \<le> evaluated_count st \<and>
     total_hits st - control_hits st \<le> evaluated_count st - control_evaluated st"

lemma bump_simps [simp]:
  "gated (bump s f st) = gated st" "total_hits (bump s f st) = total_hits st"
  "evaluated_count (bump s f st) = evaluated_count st" "control_hits (bump s f st) = control_hits st"
  "control_evaluated (bump s f st) = control_evaluated st" "total_rewritten (bump s f st) = total_rewritten st"
  "total_unrewritable (bump s f st) = total_unrewritable st"
  by (simp_all add: bump_def)

lemma gate_row_step:
  assumes "gate_row retrieve corpus msg_ids results st (i, r) = Ok st'" "gate_counts st"
  shows "\<exists>r'. gated st' = gated st @ [r'] \<and> gate_effect r r'"
    "evaluated_count st' = evaluated_count st + of_bool (is_return_result r)" "gate_counts st'"
proof -
  have "(\<exists>r'. gated st' = gated st @ [r'] \<and> gate_effect r r') \<and>
    evaluated_count st' = evaluated_count st + of_bool (is_return_result r) \<and> gate_counts st'"
  proof (cases "is_return_result r")
    case False
    then show ?thesis using assms by (auto simp: gate_row_def run_ok gate_counts_def gate_effect_refl)
  next
    case answerable: True
    show ?thesis
    proof (cases "is_control r")
      case True
      then show ?thesis using assms answerable
        by (auto simp: gate_row_def run_ok Let_def gate_counts_def gate_effect_refl gate_effect_passed
            note_outcome_def count_hit_def)
    next
      case False
      with assms(1) answerable obtain s q hit outcome r1 post qid where
        q: "map_of r ''query'' = Some (JStr q)"
        and g: "gate_query retrieve corpus msg_ids s q hit r = Ok (outcome, r1)"
        and st': "st' = note_outcome qid
            (outcome_entry outcome hit (hit \<and> outcome \<noteq> ''rewritten'') q post
              (dict_get (set_field ''gate_result'' (JStr ''passed'') r1) ''rewrite_count'' (JInt 0)))
            (set_field ''gate_result'' (JStr ''passed'') r1)
            (count_outcome s outcome (count_hit s hit
              (bump s (evaluated_queries_update Suc) (st\<lparr>evaluated_count := Suc (evaluated_count st)\<rparr>))))"
        by (auto simp: gate_row_def run_ok Let_def)
      note eff = gate_query_effect [OF g answerable False q]
      have "gate_effect r (set_field ''gate_result'' (JStr ''passed'') r1)" by (rule gate_effect_passed [OF eff(1)])
      then show ?thesis using assms(2) eff(2,3) answerable unfolding st'
        by (auto simp: note_outcome_def count_outcome_def count_hit_def gate_counts_def)
    qed
  qed
  then show "\<exists>r'. gated st' = gated st @ [r'] \<and> gate_effect r r'"
    "evaluated_count st' = evaluated_count st + of_bool (is_return_result r)" "gate_counts st'" by blast+
qed

lemma gate_loop:
  assumes "foldM (gate_row retrieve corpus msg_ids results) st irs = Ok st'" "gate_counts st"
  shows "\<exists>rs'. gated st' = gated st @ rs' \<and> list_all2 gate_effect (map snd irs) rs'"
    "evaluated_count st' = evaluated_count st + length (filter is_return_result (map snd irs))" "gate_counts st'"
  using assms
proof (induction irs arbitrary: st)
  case Nil
  {
    case 1
    then show ?case by simp
  next
    case 2
    then show ?case by simp
  next
    case 3
    then show ?case by simp
  }
next
  case (Cons ir irs)
  obtain i r where ir: "ir = (i, r)" by (cases ir)
  {
    case 1
    then obtain st1 where s: "gate_row retrieve corpus msg_ids results st (i, r) = Ok st1"
      "foldM (gate_row retrieve corpus msg_ids results) st1 irs = Ok st'" by (auto simp: ir run_ok)
    note step = gate_row_step [OF s(1) 1(2)]
    from step(1) Cons.IH(1) [OF s(2) step(3)] show ?case by (auto simp: ir)
  next
    case 2
    then obtain st1 where s: "gate_row retrieve corpus msg_ids results st (i, r) = Ok st1"
      "foldM (gate_row retrieve corpus msg_ids results) st1 irs = Ok st'" by (auto simp: ir run_ok)
    note step = gate_row_step [OF s(1) 2(2)]
    show ?case using step(2) Cons.IH(2) [OF s(2) step(3)] by (simp add: ir)
  next
    case 3
    then obtain st1 where s: "gate_row retrieve corpus msg_ids results st (i, r) = Ok st1"
      "foldM (gate_row retrieve corpus msg_ids results) st1 irs = Ok st'" by (auto simp: ir run_ok)
    note step = gate_row_step [OF s(1) 3(2)]
    show ?case by (rule Cons.IH(3) [OF s(2) step(3)])
  }
qed

section \<open>The control group\<close>

primrec marks :: "nat \<Rightarrow> pyobj list \<Rightarrow> pyobj list" where
  "marks idx [] = []"
| "marks idx (r # rs) =
     (if is_return_result r
      then set_field ''gate_control_group'' (JBool (idx mod 20 = 0)) r # marks (Suc idx) rs
      else r # marks idx rs)"

lemma mark_control_marks: "mark_control rows = marks 0 rows"
proof -
  have "snd (foldl (\<lambda>(idx, out) r.
        if is_return_result r
        then (Suc idx, out @ [set_field ''gate_control_group'' (JBool (idx mod 20 = 0)) r])
        else (idx, out @ [r])) (idx, out) rows) = out @ marks idx rows" for idx out
    by (induction rows arbitrary: idx out) auto
  then show ?thesis by (simp add: mark_control_def)
qed

definition marked :: "pyobj \<Rightarrow> pyobj \<Rightarrow> bool" where
  "marked r r' \<longleftrightarrow> (\<forall>k. k \<noteq> ''gate_control_group'' \<longrightarrow> map_of r' k = map_of r k)"

lemma marks_marked: "list_all2 marked rows (marks idx rows)"
  by (induction rows arbitrary: idx) (auto simp: marked_def update_conv')

lemma marked_kind: "marked r r' \<Longrightarrow> is_return_result r' \<longleftrightarrow> is_return_result r"
  by (simp add: marked_def dict_get_def)

lemma marks_answerable: "length (filter is_return_result (marks idx rows)) = length (filter is_return_result rows)"
  by (induction rows arbitrary: idx) (auto simp: dict_get_update)

lemma marks_control:
  "length (filter (\<lambda>r. is_return_result r \<and> is_control r) (marks idx rows)) =
    (idx + length (filter is_return_result rows) + 19) div 20 - (idx + 19) div 20"
proof (induction rows arbitrary: idx)
  case Nil
  then show ?case by simp
next
  case (Cons r rows)
  show ?case
  proof (cases "is_return_result r")
    case True
    let ?n = "length (filter is_return_result rows)"
    have "Suc (idx + 19) mod 20 = (idx + 20) mod 20" by simp
    then have "Suc (idx + 19) mod 20 = idx mod 20" by (simp only: mod_add_self2)
    then have "Suc (idx + 19) div 20 = (idx + 19) div 20 + of_bool (idx mod 20 = 0)" by (simp only: div_Suc) simp
    then have "(Suc idx + 19) div 20 = (idx + 19) div 20 + of_bool (idx mod 20 = 0)" by (simp only: add_Suc)
    moreover have "(Suc idx + 19) div 20 \<le> (Suc idx + ?n + 19) div 20" by (rule div_le_mono) simp
    ultimately show ?thesis using True Cons.IH [of "Suc idx"] by (auto simp: dict_get_update)
  next
    case False
    then show ?thesis using Cons.IH [of idx] by simp
  qed
qed

lemma control_group_size:
  "length (filter (\<lambda>r. is_return_result r \<and> is_control r) (mark_control rows)) =
    (length (filter is_return_result rows) + 19) div 20"
  using marks_control [of 0 rows] by (simp add: mark_control_marks)

section \<open>A run of the gate\<close>

definition text_of :: "pyobj \<Rightarrow> string" where
  "text_of m = (case jget m ''text'' of JStr s \<Rightarrow> s | _ \<Rightarrow> [])"

definition query_of :: "pyobj \<Rightarrow> string" where
  "query_of r = (case jget r ''query'' of JStr s \<Rightarrow> s | _ \<Rightarrow> [])"

text \<open>The row retrieves a message of its own evidence.\<close>

definition leaks :: "pyobj list \<Rightarrow> nat \<Rightarrow> pyobj \<Rightarrow> bool" where
  "leaks messages doc r \<longleftrightarrow>
     doc < length messages \<and>
     (case evidence_ids r of Ok ids \<Rightarrow> py_norm (jget (messages ! doc) ''message_id'') \<in> set ids | Raise _ \<Rightarrow> False)"

lemma mapM_str_item:
  assumes "mapM (\<lambda>m. str_item m k) ms = Ok xs"
  shows "xs = map (\<lambda>m. case jget m k of JStr s \<Rightarrow> s | _ \<Rightarrow> []) ms"
  using assms by (auto simp: run_ok list_all2_conv_all_nth dict_get_def intro!: nth_equalityI)

lemma mapM_jitem:
  assumes "mapM (\<lambda>m. jitem m k) ms = Ok xs"
  shows "xs = map (\<lambda>m. jget m k) ms"
  using assms by (auto simp: run_ok list_all2_conv_all_nth dict_get_def intro!: nth_equalityI)

lemma top1_hit_leaks:
  assumes "top1_hit (map (\<lambda>m. jget m ''message_id'') messages) results i r = Ok h"
  shows "i < length results" "h \<longleftrightarrow> leaks messages (results ! i) r"
  using assms by (auto simp: top1_hit_def run_ok leaks_def split: if_splits result.splits)

text \<open>The number of rows that retrieve their evidence, from the first hits of their queries.\<close>

lemma hits_count:
  assumes "mapM (\<lambda>(i, r). top1_hit (map (\<lambda>m. jget m ''message_id'') messages) results i r) (enumerate0 rows) = Ok hit"
  shows "length (filter id hit) = length (filter (\<lambda>(d, r). leaks messages d r) (zip results rows))"
    "length rows \<le> length results"
proof -
  have len: "length hit = length rows" using mapM_length [OF assms] by simp
  have nth: "i < length results \<and> hit ! i = leaks messages (results ! i) (rows ! i)" if "i < length rows" for i
  proof -
    have "(\<lambda>(i, r). top1_hit (map (\<lambda>m. jget m ''message_id'') messages) results i r) (enumerate0 rows ! i) = Ok (hit ! i)"
      using assms that by (simp add: mapM_Ok_iff list_all2_conv_all_nth)
    with that have "top1_hit (map (\<lambda>m. jget m ''message_id'') messages) results i (rows ! i) = Ok (hit ! i)"
      by (simp add: nth_enumerate_eq)
    then show ?thesis using top1_hit_leaks by blast
  qed
  then show le: "length rows \<le> length results" by (metis not_le_imp_less less_irrefl)
  have "hit = map (\<lambda>(d, r). leaks messages d r) (zip results rows)"
    using nth le len by (intro nth_equalityI) (auto simp: min_def)
  then show "length (filter id hit) = length (filter (\<lambda>(d, r). leaks messages d r) (zip results rows))"
    by (simp add: filter_map comp_def id_def)
qed

definition leak_count :: "pyobj list \<Rightarrow> nat list \<Rightarrow> pyobj list \<Rightarrow> nat" where
  "leak_count messages tops rows = length (filter (\<lambda>(d, r). leaks messages d r) (zip tops rows))"

lemma run_gate_cases:
  assumes "run_anti_leak_gate retrieve fs base rows0 = Ok (rows, summary, audit)"
  obtains messages results st h sat where
    "read_messages fs (messages_file base) = Ok messages"
    "foldM (gate_row retrieve (map text_of messages) (map (\<lambda>m. jget m ''message_id'') messages) results)
      (gate_start (mark_control rows0) (map (\<lambda>r. case jget r ''stratum'' of JStr s \<Rightarrow> s | _ \<Rightarrow> []) (mark_control rows0)))
      (enumerate0 (mark_control rows0)) = Ok st"
    "rows = gated st"
    "released_hits retrieve (map text_of messages) (map (\<lambda>m. jget m ''message_id'') messages) rows = Ok h"
    "0 < evaluated_count st \<longrightarrow> quotient h (evaluated_count st) \<le> 15 / 100"
    "check_ac3b_saturation_dev_only retrieve (filter (\<lambda>r. py_eq (jget r ''split'') (JStr ''dev'')) rows) messages = Ok sat"
    "summary = summary_report st (length (filter is_return_result (mark_control rows0))) h sat"
    "mset (map (\<lambda>r. jget r ''query_id'') rows) = mset (map (\<lambda>r. jget r ''query_id'') rows0)"
proof -
  from assms obtain messages pre corpus msg_ids queries results strata st post h sat where
    m: "read_messages fs (messages_file base) = Ok messages"
    and pre: "mapM (\<lambda>r. str_item r ''query_id'') rows0 = Ok pre"
    and c: "mapM (\<lambda>m. str_item m ''text'') messages = Ok corpus"
    and i: "mapM (\<lambda>m. jitem m ''message_id'') messages = Ok msg_ids"
    and s: "mapM (\<lambda>r. str_item r ''stratum'') (mark_control rows0) = Ok strata"
    and st: "foldM (gate_row retrieve corpus msg_ids results) (gate_start (mark_control rows0) strata)
      (enumerate0 (mark_control rows0)) = Ok st"
    and post: "mapM (\<lambda>r. str_item r ''query_id'') (gated st) = Ok post" "sort pre = sort post"
    and h: "released_hits retrieve corpus msg_ids (gated st) = Ok h"
      "0 < evaluated_count st \<longrightarrow> quotient h (evaluated_count st) \<le> 15 / 100"
    and sat: "check_ac3b_saturation_dev_only retrieve (filter (\<lambda>r. py_eq (jget r ''split'') (JStr ''dev'')) (gated st)) messages = Ok sat"
    and out: "rows = gated st" "summary = summary_report st (length (filter is_return_result (mark_control rows0))) h sat"
    unfolding run_anti_leak_gate_def Let_def
    by (auto simp: rbind_Ok_iff ensure_Ok_iff not_less split: if_splits)
  have texts: "corpus = map text_of messages" "msg_ids = map (\<lambda>m. jget m ''message_id'') messages"
    using mapM_str_item [OF c] mapM_jitem [OF i] by (auto simp: text_of_def)
  have "map JStr xs = map (\<lambda>r. jget r ''query_id'') ys" if "mapM (\<lambda>r. str_item r ''query_id'') ys = Ok xs" for xs ys
    using that by (auto simp: mapM_Ok_iff str_item_Ok_iff list_all2_conv_all_nth dict_get_def intro!: nth_equalityI)
  from this [OF pre] this [OF post(1)] post(2)
  have "mset (map (\<lambda>r. jget r ''query_id'') rows) = mset (map (\<lambda>r. jget r ''query_id'') rows0)"
    by (metis mset_map mset_sort out(1))
  with m st h sat out mapM_str_item [OF s] show ?thesis by (intro that [of messages results st h sat]) (simp_all add: texts)
qed

lemma gate_run_effect:
  assumes "run_anti_leak_gate retrieve fs base rows0 = Ok (rows, summary, audit)"
  shows "list_all2 gate_effect (mark_control rows0) rows"
proof -
  from assms obtain corpus ids results st s where
    "foldM (gate_row retrieve corpus ids results) (gate_start (mark_control rows0) s) (enumerate0 (mark_control rows0)) = Ok st"
    "rows = gated st" by (rule run_gate_cases) (rule that, assumption+)
  with gate_loop(1) [OF this(1)] show ?thesis by (auto simp: gate_start_def gate_counts_def)
qed

lemma gate_run_counts:
  assumes "run_anti_leak_gate retrieve fs base rows0 = Ok (rows, summary, audit)"
  obtains st h sat where "summary = summary_report st (length (filter is_return_result rows0)) h sat" "gate_counts st"
    "evaluated_count st = length (filter is_return_result rows0)"
proof -
  from assms obtain corpus ids results st s h sat where
    st: "foldM (gate_row retrieve corpus ids results) (gate_start (mark_control rows0) s) (enumerate0 (mark_control rows0)) = Ok st"
    and s: "summary = summary_report st (length (filter is_return_result (mark_control rows0))) h sat"
    by (rule run_gate_cases) (rule that, assumption+)
  have start: "gate_counts (gate_start (mark_control rows0) s)" by (simp add: gate_counts_def gate_start_def)
  have n: "length (filter is_return_result (mark_control rows0)) = length (filter is_return_result rows0)"
    by (simp only: mark_control_marks marks_answerable)
  show ?thesis
  proof (rule that [of st h sat])
    show "summary = summary_report st (length (filter is_return_result rows0)) h sat" using s by (simp only: n)
    show "gate_counts st" by (rule gate_loop(3) [OF st start])
    show "evaluated_count st = length (filter is_return_result rows0)"
      using gate_loop(2) [OF st start] n by (simp add: gate_start_def)
  qed
qed

lemma effect_answerable: "list_all2 gate_effect rs rs' \<Longrightarrow> length (filter is_return_result rs') = length (filter is_return_result rs)"
  by (induction rule: list_all2_induct) (simp_all add: gate_effect_get [of _ _ "''expected_action''"] gate_fields_def)

lemma effect_control:
  "list_all2 gate_effect rs rs' \<Longrightarrow>
    length (filter (\<lambda>r. is_return_result r \<and> is_control r) rs') = length (filter (\<lambda>r. is_return_result r \<and> is_control r) rs)"
  by (induction rule: list_all2_induct)
    (simp_all add: gate_effect_get [of _ _ "''gate_control_group''"] gate_effect_get [of _ _ "''expected_action''"]
      gate_fields_def)

text \<open>
  C27: When the anti-leak gate returns, at most 15 percent of the released return-result queries
  have an evidence message as their first retrieved message, over the rows as they are released,
  and the same holds at 70 percent for the development split of the visual-plus-context stratum.
\<close>

theorem anti_leak_gate_bounds:
  assumes "run_anti_leak_gate retrieve fs base rows0 = Ok (rows, summary, audit)"
    and "answerable = filter is_return_result rows"
    and "dev_vpc = filter (\<lambda>r. jget r ''stratum'' = JStr ''visual_plus_context'') (filter (\<lambda>r. jget r ''split'' = JStr ''dev'') rows)"
  shows "\<exists>messages tops. read_messages fs (messages_file base) = Ok messages \<and>
      retrieve (map text_of messages) (map query_of answerable) = Ok tops \<and>
      20 * leak_count messages tops answerable \<le> 3 * length answerable \<and>
      (dev_vpc \<noteq> [] \<longrightarrow> (\<exists>dev_tops. retrieve (map text_of messages) (map query_of dev_vpc) = Ok dev_tops \<and>
        10 * leak_count messages dev_tops dev_vpc < 7 * length dev_vpc))"
proof -
  from assms(1) obtain messages results st s h sat where
    m: "read_messages fs (messages_file base) = Ok messages"
    and st: "foldM (gate_row retrieve (map text_of messages) (map (\<lambda>m. jget m ''message_id'') messages) results)
      (gate_start (mark_control rows0) s) (enumerate0 (mark_control rows0)) = Ok st"
    and rows: "rows = gated st"
    and h: "released_hits retrieve (map text_of messages) (map (\<lambda>m. jget m ''message_id'') messages) rows = Ok h"
    and bound: "0 < evaluated_count st \<longrightarrow> quotient h (evaluated_count st) \<le> 15 / 100"
    and sat: "check_ac3b_saturation_dev_only retrieve (filter (\<lambda>r. py_eq (jget r ''split'') (JStr ''dev'')) rows) messages = Ok sat"
    by (rule run_gate_cases) (rule that, assumption+)
  have start: "gate_counts (gate_start (mark_control rows0) s)" by (simp add: gate_counts_def gate_start_def)
  have n: "evaluated_count st = length answerable"
    using gate_loop(2) [OF st start] effect_answerable [OF gate_run_effect [OF assms(1)]]
    by (simp add: gate_start_def assms(2))
  from h obtain tops hit where t: "retrieve (map text_of messages) (map query_of answerable) = Ok tops"
    "mapM (\<lambda>(i, r). top1_hit (map (\<lambda>m. jget m ''message_id'') messages) tops i r) (enumerate0 answerable) = Ok hit"
    "h = length (filter id hit)"
    by (auto simp: released_hits_def Let_def rbind_Ok_iff assms(2) query_of_def [abs_def] dest!: mapM_str_item)
  have "h = leak_count messages tops answerable"
    using hits_count(1) [OF t(2)] t(3) by (simp add: leak_count_def)
  moreover have "20 * h \<le> 3 * length answerable"
  proof (cases "answerable = []")
    case True
    then show ?thesis using calculation by (simp add: leak_count_def)
  next
    case False
    then have "(of_nat h :: rat) \<le> 15 / 100 * of_nat (length answerable)"
      using bound n by (simp add: pos_divide_le_eq)
    then have "of_nat (20 * h) \<le> (of_nat (3 * length answerable) :: rat)" by simp
    then show ?thesis by (simp only: of_nat_le_iff)
  qed
  moreover have "\<exists>dev_tops. retrieve (map text_of messages) (map query_of dev_vpc) = Ok dev_tops \<and>
        10 * leak_count messages dev_tops dev_vpc < 7 * length dev_vpc" if ne: "dev_vpc \<noteq> []"
  proof -
    from sat ne obtain dev_tops hit where d: "retrieve (map text_of messages) (map query_of dev_vpc) = Ok dev_tops"
      "mapM (\<lambda>(i, r). top1_hit (map (\<lambda>m. jget m ''message_id'') messages) dev_tops i r) (enumerate0 dev_vpc) = Ok hit"
      "\<not> quotient (length (filter id hit)) (length dev_vpc) \<ge> 7 / 10"
      unfolding check_ac3b_saturation_dev_only_def assms(3)
      by (auto simp: Let_def rbind_Ok_iff text_of_def [abs_def] query_of_def [abs_def]
          dest!: mapM_str_item mapM_jitem split: if_splits)
    have "length (filter id hit) = leak_count messages dev_tops dev_vpc"
      using hits_count(1) [OF d(2)] by (simp add: leak_count_def)
    with d(3) ne have "of_nat (leak_count messages dev_tops dev_vpc) < (7 / 10 * of_nat (length dev_vpc) :: rat)"
      by (simp add: pos_le_divide_eq not_le)
    then have "of_nat (10 * leak_count messages dev_tops dev_vpc) < (of_nat (7 * length dev_vpc) :: rat)" by simp
    then have "10 * leak_count messages dev_tops dev_vpc < 7 * length dev_vpc" by (simp only: of_nat_less_iff)
    with d(1) show ?thesis by blast
  qed
  ultimately show ?thesis using m t(1) by blast
qed

definition gate_keeps :: "pyobj \<Rightarrow> pyobj \<Rightarrow> bool" where
  "gate_keeps r r' \<longleftrightarrow>
     (\<forall>k. k \<notin> gate_fields \<union> {''gate_control_group''} \<longrightarrow> map_of r' k = map_of r k) \<and>
     (map_of r' ''query'' = map_of r ''query'' \<or>
      is_return_result r' \<and> \<not> is_control r' \<and> query_of r' = rewrite_leaking_query (query_of r))"

lemma marked_effect_keeps:
  assumes "marked r m" "gate_effect m r'"
  shows "gate_keeps r r'"
proof -
  have same: "map_of r' k = map_of r k" if "k \<notin> gate_fields \<union> {''gate_control_group''}" for k
    using assms that by (simp add: gate_effect_def marked_def)
  have "map_of m ''query'' = map_of r ''query''" using assms(1) by (simp add: marked_def)
  moreover have "is_control r' = is_control m"
    using gate_effect_get [OF assms(2), of "''gate_control_group''" JNull] by (simp add: gate_fields_def)
  moreover have "is_return_result r' = is_return_result m" by (rule gate_effect_kind(1) [OF assms(2)])
  ultimately show ?thesis
    using assms(2) same by (auto simp: gate_keeps_def gate_effect_def query_of_def dict_get_def)
qed

lemma gate_run_keeps:
  assumes "run_anti_leak_gate retrieve fs base rows0 = Ok (rows, summary, audit)"
  shows "list_all2 gate_keeps rows0 rows"
    and "length (filter (\<lambda>r. is_return_result r \<and> is_control r) rows) =
      (length (filter is_return_result rows0) + 19) div 20"
proof -
  note eff = gate_run_effect [OF assms]
  have "list_all2 marked rows0 (mark_control rows0)" by (simp add: mark_control_marks marks_marked)
  with eff have "length rows0 = length rows"
    "gate_keeps (rows0 ! i) (rows ! i)" if "i < length rows" for i
    using that marked_effect_keeps [of "rows0 ! i" "mark_control rows0 ! i" "rows ! i"]
    by (simp_all add: list_all2_conv_all_nth)
  moreover have "length rows0 = length rows"
    using eff list_all2_lengthD [OF \<open>list_all2 marked rows0 (mark_control rows0)\<close>] by (simp add: list_all2_lengthD)
  ultimately show "list_all2 gate_keeps rows0 rows" by (simp add: list_all2_conv_all_nth)
  show "length (filter (\<lambda>r. is_return_result r \<and> is_control r) rows) =
      (length (filter is_return_result rows0) + 19) div 20"
    using effect_control [OF eff] control_group_size [of rows0] by (simp only:)
qed

text \<open>
  C28: The anti-leak gate keeps the rows in place: a row changes only in its gate fields, and
  its query changes only to its paraphrase, on a return-result row outside the control group;
  the control group is one return-result row in twenty, rounded up.
\<close>

theorem anti_leak_gate_effect:
  assumes "run_anti_leak_gate retrieve fs base rows0 = Ok (rows, summary, audit)"
  shows "list_all2 gate_keeps rows0 rows \<and>
    length (filter (\<lambda>r. is_return_result r \<and> is_control r) rows) =
      (length (filter is_return_result rows0) + 19) div 20"
  using gate_run_keeps [OF assms] by blast

text \<open>
  C29: The counts of the gate balance: every return-result query is evaluated, and the hits
  reported for the gated group are exactly its rewritten and its unrewritable queries.
\<close>

theorem anti_leak_gate_accounts:
  assumes "run_anti_leak_gate retrieve fs base rows0 = Ok (rows, summary, audit)"
  shows "\<exists>rewritten unrewritable n.
      jget summary ''rewritten_count'' = JInt (int rewritten) \<and>
      jget summary ''unrewritable_count'' = JInt (int unrewritable) \<and>
      jget summary ''gated_group'' = group_json n (rewritten + unrewritable) \<and> rewritten + unrewritable \<le> n \<and>
      jget summary ''evaluated_return_result_queries'' = JInt (int (length (filter is_return_result rows0)))"
proof -
  from assms obtain st h sat where s: "summary = summary_report st (length (filter is_return_result rows0)) h sat"
    "gate_counts st" "evaluated_count st = length (filter is_return_result rows0)"
    by (rule gate_run_counts)
  then have sub: "total_hits st - control_hits st = total_rewritten st + total_unrewritable st"
    and le: "total_rewritten st + total_unrewritable st \<le> evaluated_count st - control_evaluated st"
    by (auto simp: gate_counts_def)
  have "jget summary ''rewritten_count'' = JInt (int (total_rewritten st))"
    "jget summary ''unrewritable_count'' = JInt (int (total_unrewritable st))"
    "jget summary ''gated_group'' = group_json (evaluated_count st - control_evaluated st) (total_hits st - control_hits st)"
    "jget summary ''evaluated_return_result_queries'' = JInt (int (evaluated_count st))"
    by (simp_all add: s(1) summary_report_def dict_get_def)
  then show ?thesis using le unfolding sub s(3) by blast
qed

text \<open>
  A control row is marked after its output hash was computed: the row that is released no longer has
  the content its hash stands for.
\<close>

lemma control_hash_stale:
  assumes "run_anti_leak_gate retrieve fs base rows0 = Ok (rows, summary, audit)" "i < length rows0"
    and "map_of (rows0 ! i) ''gate_control_group'' = Some (JBool False)" "is_return_result (rows0 ! i)"
    and "is_control (rows ! i)"
  shows "map_of (rows ! i) ''output_hash'' = map_of (rows0 ! i) ''output_hash''"
    "output_payload (rows ! i) \<noteq> output_payload (rows0 ! i)"
proof -
  obtain m where m: "marked (rows0 ! i) m" "gate_effect m (rows ! i)"
  proof -
    have "list_all2 marked rows0 (mark_control rows0)" by (simp add: mark_control_marks marks_marked)
    with gate_run_effect [OF assms(1)] assms(2) show ?thesis
      by (intro that [of "mark_control rows0 ! i"]) (auto simp: list_all2_conv_all_nth)
  qed
  have "is_control m" using gate_effect_get [OF m(2), of "''gate_control_group''" JNull] assms(5) by (simp add: gate_fields_def)
  then have "map_of (rows ! i) ''output_hash'' = map_of m ''output_hash''" using m(2) by (auto simp: gate_effect_def)
  with m(1) show "map_of (rows ! i) ''output_hash'' = map_of (rows0 ! i) ''output_hash''" by (simp add: marked_def)
  have payload: "map_of (filter (\<lambda>(k, _). k \<noteq> ''output_hash'') row) ''gate_control_group'' = map_of row ''gate_control_group''"
    for row :: pyobj by (induction row) auto
  show "output_payload (rows ! i) \<noteq> output_payload (rows0 ! i)"
  proof
    assume "output_payload (rows ! i) = output_payload (rows0 ! i)"
    then have "map_of (rows ! i) ''gate_control_group'' = map_of (rows0 ! i) ''gate_control_group''"
      unfolding output_payload_def json.inject by (metis payload)
    with assms(3,5) show False by (simp add: dict_get_def)
  qed
qed

section \<open>Instances\<close>

definition sample_corpus :: fs where
  "sample_corpus = [(messages_file [], File (concat (map (\<lambda>(i, t).
     dumps js_lines (JObj [(''message_id'', JStr i), (''text'', JStr t)]) @ [CHR 0x0A]) [(''m0'', ''x''), (''m1'', ''y'')])))]"

definition sample_retriever :: retriever where
  "sample_retriever corpus queries = Ok (map (\<lambda>q. if q = ''x'' then 0 else 1) queries)"

definition sample_query :: "string \<Rightarrow> string \<Rightarrow> pyobj" where
  "sample_query i q =
     [(''query_id'', JStr i), (''query'', JStr q), (''stratum'', JStr ''visual_plus_context''), (''split'', JStr ''dev''),
      (''expected_action'', JStr ''return_result''), (''gold_evidence_message_ids'', JArr [JStr ''m0'']),
      (''gate_control_group'', JBool False)]"

definition sample_queries :: "pyobj list" where
  "sample_queries = map (\<lambda>(i, q). sample_query i q)
     [(''q1'', ''y''), (''q2'', ''y'')]"

lemma sample_gate_passes: "is_ok (run_anti_leak_gate sample_retriever sample_corpus [] sample_queries)"
  by code_simp

lemma sample_gate_run:
  obtains rows summary audit where
    "run_anti_leak_gate sample_retriever sample_corpus [] sample_queries = Ok (rows, summary, audit)"
  using sample_gate_passes by (cases "run_anti_leak_gate sample_retriever sample_corpus [] sample_queries") auto

theorem anti_leak_gate_bounds_witness:
  "\<exists>rows summary audit messages tops.
    run_anti_leak_gate sample_retriever sample_corpus [] sample_queries = Ok (rows, summary, audit) \<and>
    sample_retriever (map text_of messages) (map query_of (filter is_return_result rows)) = Ok tops \<and>
    20 * leak_count messages tops (filter is_return_result rows) \<le> 3 * length (filter is_return_result rows)"
proof -
  obtain rows summary audit where run:
    "run_anti_leak_gate sample_retriever sample_corpus [] sample_queries = Ok (rows, summary, audit)"
    by (rule sample_gate_run)
  from anti_leak_gate_bounds [OF run refl refl] run show ?thesis by blast
qed

theorem anti_leak_gate_effect_witness:
  "\<exists>rows summary audit.
    run_anti_leak_gate sample_retriever sample_corpus [] sample_queries = Ok (rows, summary, audit) \<and>
    list_all2 gate_keeps sample_queries rows \<and>
    length (filter (\<lambda>r. is_return_result r \<and> is_control r) rows) = 1"
proof -
  obtain rows summary audit where run:
    "run_anti_leak_gate sample_retriever sample_corpus [] sample_queries = Ok (rows, summary, audit)"
    by (rule sample_gate_run)
  have "length (filter is_return_result sample_queries) = 2" by code_simp
  with anti_leak_gate_effect [OF run] run show ?thesis by auto
qed

theorem anti_leak_gate_accounts_witness:
  "\<exists>rows summary audit.
    run_anti_leak_gate sample_retriever sample_corpus [] sample_queries = Ok (rows, summary, audit) \<and>
    jget summary ''evaluated_return_result_queries'' = JInt 2"
proof -
  obtain rows summary audit where run:
    "run_anti_leak_gate sample_retriever sample_corpus [] sample_queries = Ok (rows, summary, audit)"
    by (rule sample_gate_run)
  have "length (filter is_return_result sample_queries) = 2" by code_simp
  with anti_leak_gate_accounts [OF run] run show ?thesis by auto
qed

end
