(* ===== verification/Golden_Build.thy ===== *)
theory Golden_Build
  imports Golden_Split Golden_Leak
begin

text \<open>
  The assembly of the golden dataset (\<^verbatim>\<open>build_full_golden_dataset\<close> of
  \<^verbatim>\<open>src/evaluation/golden/builder.py\<close>) from the rows of the three tiers, which are its arguments. The
  lemmas show that the rows it returns are numbered without repetition, keep the contract of a gold
  row, fill the two splits and never separate connected groups.
\<close>

section \<open>Numbering\<close>

text \<open>\<^verbatim>\<open>q_<stratum>_<number>\<close>, counted within the stratum.\<close>

definition stratum_id :: "string \<Rightarrow> nat \<Rightarrow> string" where
  "stratum_id s n = ''q_'' @ s @ ''_'' @ zero_pad 4 n"

definition renumber :: "pyobj list \<Rightarrow> pyobj list result" where
  "renumber rows =
     rbind (foldM (\<lambda>(stratum_seq, out) r.
         rbind (str_item r ''stratum'') (\<lambda>s.
           let n = dict_get stratum_seq s 0 + 1 in
           Ok (AList.update s n stratum_seq, out @ [set_field ''query_id'' (JStr (stratum_id s n)) r])))
       ([], []) rows) (\<lambda>(_, out). Ok out)"

section \<open>The dataset\<close>

abbreviation edge_artifact :: "path \<Rightarrow> path" where
  "edge_artifact base \<equiv> base @ [''data'', ''visual_embeddings'', ''near_dup_clusters.jsonl'']"

definition apply_split :: "(string, string list) dict \<Rightarrow> (string, string) dict \<Rightarrow> pyobj \<Rightarrow> pyobj result" where
  "apply_split components comp_assignment r =
     rbind (str_item r ''group_id'') (\<lambda>g.
     rbind (dict_item (group_to_comp components) g) (\<lambda>cid.
     rbind (dict_item comp_assignment cid) (\<lambda>sp.
       let r' = set_field ''split'' (JStr sp) r in
       Ok (set_field ''output_hash'' (JStr (compute_output_hash r')) r'))))"

abbreviation in_split :: "string \<Rightarrow> pyobj \<Rightarrow> bool" where
  "in_split sp r \<equiv> py_eq (jget r ''split'') (JStr sp)"

definition components_json ::
  "string \<Rightarrow> (string \<times> string) list \<Rightarrow> (string, string list) dict \<Rightarrow> pyobj list \<Rightarrow> pyobj" where
  "components_json edge_sha applied_edges components rows =
     [(''release_id'', JStr ''golden_1039_v1''),
      (''source_edge_artifact'', JStr ''data/visual_embeddings/near_dup_clusters.jsonl''),
      (''source_edge_artifact_sha256'', JStr edge_sha),
      (''applied_duplicate_edges'', JArr (map (\<lambda>(a, b). JArr [JStr a, JStr b]) applied_edges)),
      (''applied_duplicate_edge_count'', JInt (int (length applied_edges))),
      (''component_count'', JInt (int (length components))),
      (''components'', JObj (map (\<lambda>(cid, members). (cid, JObj
         [(''component_id'', JStr cid), (''groups'', JArr (map JStr members)),
          (''query_count'', JInt (int (length (filter (\<lambda>r. jget r ''group_id'' \<in> JStr ` set members) rows))))]))
         components))]"

definition assignment_json :: "split_report \<Rightarrow> nat \<Rightarrow> nat \<Rightarrow> pyobj" where
  "assignment_json report dev test =
     [(''release_id'', JStr ''golden_1039_v1''),
      (''split_salt'', JStr (split_salt report)),
      (''splits'', JObj [(''dev'', JInt (int dev)), (''test'', JInt (int test))]),
      (''dev_groups'', JArr (map JStr (dev_groups report))),
      (''test_groups'', JArr (map JStr (test_groups report))),
      (''strata_report'', JObj (map (\<lambda>(s, e). (s, JObj e)) (strata_report report))),
      (''quota_infeasible'', JBool False)]"

text \<open>The checks on the rows once their splits are set.\<close>

definition check_dataset :: "pyobj list \<Rightarrow> pyobj list result" where
  "check_dataset rows =
     rbind (validate_gold_rows rows) (\<lambda>validated.
     rbind (ensure (vocabulary_violations validated = []) (ValueError ''Vocabulary violations'')) (\<lambda>_.
     rbind (ensure (length (filter (in_split ''dev'') validated) = TOTAL_DEV \<and>
         length (filter (in_split ''test'') validated) = TOTAL_TEST) (ValueError ''Expected 416 dev / 623 test'')) (\<lambda>_.
     rbind (ensure (set (map (\<lambda>r. jget r ''group_id'') (filter (in_split ''dev'') validated)) \<inter>
         set (map (\<lambda>r. jget r ''group_id'') (filter (in_split ''test'') validated)) = {})
         (ValueError ''G8c violation'')) (\<lambda>_. Ok validated))))"

definition DEFAULT_SPLIT_SALT :: string where
  "DEFAULT_SPLIT_SALT = ''phase-2-split-salt-v1''"

definition read_edges :: "fs \<Rightarrow> path \<Rightarrow> (string \<times> (string \<times> string) list) result" where
  "read_edges fs base =
     rbind (ensure (fs_exists fs (edge_artifact base)) (FileNotFoundError ''G8 edge artifact'')) (\<lambda>_.
     rbind (fs_read fs (edge_artifact base)) (\<lambda>bytes.
     rbind (fs_read_text fs (edge_artifact base)) (\<lambda>content.
     rbind (read_clusters content) (\<lambda>clusters. Ok (sha256_hex bytes, cluster_edges clusters)))))"

definition split_dataset ::
  "pyobj list \<Rightarrow> string \<Rightarrow> (string \<times> string) list \<Rightarrow> (string, string list) dict \<Rightarrow> (pyobj list \<times> pyobj \<times> pyobj) result" where
  "split_dataset combined edge_sha applied_edges components =
     rbind (assign_splits_g8 components combined DEFAULT_SPLIT_SALT) (\<lambda>(comp_assignment, report, infeasible).
     rbind (ensure (\<not> infeasible) (ValueError ''G8 split assignment is infeasible'')) (\<lambda>_.
     rbind (mapM (apply_split components comp_assignment) combined) (\<lambda>rows.
     rbind (check_dataset rows) (\<lambda>validated.
       Ok (validated, components_json edge_sha applied_edges components validated,
           assignment_json report (length (filter (in_split ''dev'') validated))
             (length (filter (in_split ''test'') validated)))))))"

text \<open>\<open>None\<close> would be a run that does not end.\<close>

definition build_full_golden_dataset ::
  "pyobj list \<Rightarrow> pyobj list \<Rightarrow> pyobj list \<Rightarrow> fs \<Rightarrow> path \<Rightarrow> (pyobj list \<times> pyobj \<times> pyobj) result option" where
  "build_full_golden_dataset tier_a tier_b tier_c fs base =
     (let combined0 = tier_a @ tier_b @ tier_c in
      if length combined0 \<noteq> TOTAL_QUERIES then Some (Raise (ValueError ''Expected exactly 1,039 rows''))
      else
        case rbind (renumber combined0) (\<lambda>combined. rbind (read_edges fs base) (\<lambda>e. Ok (combined, e))) of
          Raise e \<Rightarrow> Some (Raise e)
        | Ok (combined, edge_sha, applied_edges) \<Rightarrow>
            Option.bind (build_g8_components combined (Some applied_edges) None)
              (\<lambda>built. Some (rbind built (split_dataset combined edge_sha applied_edges))))"

section \<open>Numbering gives distinct ids\<close>

lemma stratum_id_inj: "stratum_id s m = stratum_id t n \<Longrightarrow> s = t \<and> m = n"
proof -
  assume eq: "stratum_id s m = stratum_id t n"
  have tail: "takeWhile is_digit (rev (stratum_id u k)) = rev (zero_pad 4 k)"
    "dropWhile is_digit (rev (stratum_id u k)) = CHR ''_'' # rev (''q_'' @ u)" for u k
  proof -
    have d: "is_digit c" if "c \<in> set (rev (zero_pad 4 k))" for c using zero_pad_digits [of 4 k] that by simp
    have "\<not> is_digit (CHR ''_'')" by (simp add: is_digit_def)
    then show "takeWhile is_digit (rev (stratum_id u k)) = rev (zero_pad 4 k)"
      "dropWhile is_digit (rev (stratum_id u k)) = CHR ''_'' # rev (''q_'' @ u)"
      using takeWhile_append2 [where P = is_digit and xs = "rev (zero_pad 4 k)" and ys = "CHR ''_'' # rev (''q_'' @ u)", OF d]
        dropWhile_append2 [where P = is_digit and xs = "rev (zero_pad 4 k)" and ys = "CHR ''_'' # rev (''q_'' @ u)", OF d]
      by (simp_all add: stratum_id_def)
  qed
  have "rev (zero_pad 4 m) = rev (zero_pad 4 n)" using tail(1) [of s m] tail(1) [of t n] eq by simp
  moreover have "rev (''q_'' @ s) = rev (''q_'' @ t)" using tail(2) [of s m] tail(2) [of t n] eq by simp
  ultimately show ?thesis by (simp add: zero_pad_inj)
qed

text \<open>The numbered rows: every row with the id of its place in its stratum.\<close>

primrec numbered :: "(string, nat) dict \<Rightarrow> pyobj list \<Rightarrow> pyobj list" where
  "numbered seq [] = []"
| "numbered seq (r # rs) =
     (let s = (case jget r ''stratum'' of JStr s \<Rightarrow> s | _ \<Rightarrow> []); n = dict_get seq s 0 + 1 in
      set_field ''query_id'' (JStr (stratum_id s n)) r # numbered (AList.update s n seq) rs)"

abbreviation has_stratum :: "pyobj \<Rightarrow> bool" where
  "has_stratum r \<equiv> is_str (jget r ''stratum'')"

lemma renumber_numbered:
  "renumber rows = Ok out \<longleftrightarrow> list_all has_stratum rows \<and> out = numbered [] rows"
proof -
  let ?step = "\<lambda>(stratum_seq, out) r. rbind (str_item r ''stratum'') (\<lambda>s.
           let n = dict_get stratum_seq s 0 + 1 in
           Ok (AList.update s n stratum_seq, out @ [set_field ''query_id'' (JStr (stratum_id s n)) r]))"
  have "rbind (foldM ?step (seq, acc) rows) (\<lambda>(_, out). Ok out) = Ok out \<longleftrightarrow>
      list_all has_stratum rows \<and> out = acc @ numbered seq rows" for seq acc
  proof (induction rows arbitrary: seq acc)
    case Nil
    then show ?case by auto
  next
    case (Cons r rows)
    show ?case
    proof (cases "map_of r ''stratum''")
      case None
      then show ?thesis by (simp add: str_item_def dict_item_def dict_get_def)
    next
      case (Some v)
      then show ?thesis using Cons.IH
        by (cases v) (simp_all add: str_item_def dict_item_def dict_get_def Let_def)
    qed
  qed
  from this [of "[]" "[]"] show ?thesis by (simp add: renumber_def)
qed

lemma numbered_ids:
  "distinct (map (\<lambda>r. jget r ''query_id'') (numbered seq rows)) \<and>
   (\<forall>r \<in> set (numbered seq rows). \<exists>s n. jget r ''query_id'' = JStr (stratum_id s n) \<and> dict_get seq s 0 < n)"
proof (induction rows arbitrary: seq)
  case Nil
  then show ?case by simp
next
  case (Cons r rows)
  define s where "s = (case jget r ''stratum'' of JStr s \<Rightarrow> s | _ \<Rightarrow> [])"
  define n where "n = dict_get seq s 0 + 1"
  have num: "numbered seq (r # rows) = set_field ''query_id'' (JStr (stratum_id s n)) r # numbered (AList.update s n seq) rows"
    by (simp add: s_def n_def Let_def)
  have later: "\<exists>t m. jget x ''query_id'' = JStr (stratum_id t m) \<and> dict_get seq t 0 < m \<and> (t = s \<longrightarrow> n < m)"
    if x: "x \<in> set (numbered (AList.update s n seq) rows)" for x
  proof -
    from Cons.IH [of "AList.update s n seq"] x obtain t m where
      tm: "jget x ''query_id'' = JStr (stratum_id t m)" "dict_get (AList.update s n seq) t 0 < m" by blast
    then have "dict_get seq t 0 < m \<and> (t = s \<longrightarrow> n < m)"
      by (cases "t = s") (simp_all add: dict_get_update n_def)
    with tm(1) show ?thesis by blast
  qed
  have "JStr (stratum_id s n) \<noteq> jget x ''query_id''" if "x \<in> set (numbered (AList.update s n seq) rows)" for x
    using later [OF that] stratum_id_inj by fastforce
  moreover have "dict_get seq s 0 < n" by (simp add: n_def)
  ultimately show ?case using Cons.IH [of "AList.update s n seq"] later
    unfolding num by (auto simp: dict_get_update) blast
qed

lemma numbered_keeps:
  "list_all2 (\<lambda>r r'. \<forall>k. k \<noteq> ''query_id'' \<longrightarrow> map_of r' k = map_of r k) rows (numbered seq rows)"
  by (induction rows arbitrary: seq) (auto simp: Let_def update_conv')

section \<open>Rows with their splits\<close>

lemma output_payload_update [simp]: "output_payload (AList.update ''output_hash'' v r) = output_payload r"
proof -
  have "filter (\<lambda>(k, _). k \<noteq> a) (AList.update a v r) = filter (\<lambda>(k, _). k \<noteq> a) r" for a
    by (induction r) auto
  then show ?thesis by (simp add: output_payload_def)
qed

lemma compute_output_hash_update [simp]: "compute_output_hash (AList.update ''output_hash'' v r) = compute_output_hash r"
  by (simp add: compute_output_hash_def)

lemma apply_split_Ok:
  assumes "apply_split comps asg r = Ok r'"
  shows "\<exists>cid sp. row_comp comps r = Some cid \<and> map_of asg cid = Some sp \<and> map_of r' ''split'' = Some (JStr sp)"
    "map_of r' ''output_hash'' = Some (JStr (compute_output_hash r'))"
    "k \<noteq> ''split'' \<Longrightarrow> k \<noteq> ''output_hash'' \<Longrightarrow> map_of r' k = map_of r k"
  using assms by (auto simp: apply_split_def run_ok Let_def update_conv' row_comp_def)

lemma apply_split_total:
  assumes "row_comp comps r = Some cid" "map_of asg cid \<noteq> None"
  shows "is_ok (apply_split comps asg r)"
  using assms by (auto simp: row_comp_def apply_split_def str_item_def dict_item_def Let_def split: option.splits json.splits)

lemma in_split_rows:
  assumes "mapM (apply_split comps asg) combined = Ok rows"
  shows "length (filter (in_split sp) rows) = length (split_rows comps asg sp combined)"
proof -
  have "list_all2 (\<lambda>r r'. apply_split comps asg r = Ok r') combined rows" using assms by (simp add: mapM_Ok_iff)
  then show ?thesis
  proof (induction rule: list_all2_induct)
    case (Cons r rs r' rs')
    obtain cid s where "row_comp comps r = Some cid" "map_of asg cid = Some s" "map_of r' ''split'' = Some (JStr s)"
      using apply_split_Ok(1) [OF Cons.hyps(1)] by blast
    with Cons.IH show ?case by (simp add: split_rows_def dict_get_def)
  qed (simp add: split_rows_def)
qed

text \<open>What the rest of the builder reads of a row.\<close>

abbreviation same_place :: "pyobj \<Rightarrow> pyobj \<Rightarrow> bool" where
  "same_place r r' \<equiv> map_of r' ''group_id'' = map_of r ''group_id'' \<and> map_of r' ''stratum'' = map_of r ''stratum''"

lemma mapM_same:
  "list_all2 (\<lambda>r r'. f r' = f r) rs rs' \<Longrightarrow> mapM f rs' = mapM f rs"
  by (induction rule: list_all2_induct) simp_all

lemma groups_of_same: "list_all2 same_place rs rs' \<Longrightarrow> groups_of rs' = groups_of rs"
proof -
  assume "list_all2 same_place rs rs'"
  then have "list_all2 (\<lambda>r r'. str_item r' ''group_id'' = str_item r ''group_id'') rs rs'"
    by (rule list_all2_mono) (simp add: str_item_def dict_item_def)
  then show ?thesis using mapM_same [of "\<lambda>r. str_item r ''group_id''"] by (simp add: groups_of_def)
qed

lemma count_components_same: "list_all2 same_place rs rs' \<Longrightarrow> count_components comps rs' = count_components comps rs"
proof -
  assume same: "list_all2 same_place rs rs'"
  let ?step = "\<lambda>counts r.
        rbind (str_item r ''group_id'') (\<lambda>g.
        rbind (dict_item (group_to_comp comps) g) (\<lambda>cid.
        rbind (str_item r ''stratum'') (\<lambda>s.
          Ok (AList.update cid (count_up (dict_get counts cid []) s) counts))))"
  have "foldM ?step st rs' = foldM ?step st rs" for st
    using same by (induction arbitrary: st rule: list_all2_induct) (simp_all add: str_item_def dict_item_def)
  then show ?thesis by (simp add: count_components_def)
qed

lemma build_same:
  assumes "list_all2 same_place rs rs'"
  shows "build_g8_components rs' es artifact = build_g8_components rs es artifact"
    "assign_splits_g8 comps rs' salt = assign_splits_g8 comps rs salt"
  by (simp_all add: build_g8_components_def assign_splits_g8_def groups_of_same [OF assms] count_components_same [OF assms])

lemma numbered_same_place: "list_all2 same_place rows (numbered seq rows)"
  using numbered_keeps [of rows seq] by (rule list_all2_mono) simp

section \<open>A run of the builder\<close>

lemma check_dataset_Ok:
  "check_dataset rows = Ok validated \<longleftrightarrow>
    validated = rows \<and> distinct (map (\<lambda>r. jget r ''query_id'') rows) \<and>
    list_all (\<lambda>r. is_str (jget r ''query_id'') \<and> jget r ''query_id'' \<noteq> JStr [] \<and> gold_row_ok r) rows \<and>
    vocabulary_violations rows = [] \<and>
    length (filter (in_split ''dev'') rows) = TOTAL_DEV \<and> length (filter (in_split ''test'') rows) = TOTAL_TEST \<and>
    set (map (\<lambda>r. jget r ''group_id'') (filter (in_split ''dev'') rows)) \<inter>
      set (map (\<lambda>r. jget r ''group_id'') (filter (in_split ''test'') rows)) = {}"
  unfolding check_dataset_def rbind_Ok_iff ensure_Ok_iff validate_gold_rows_Ok by auto

lemma read_edges_Ok:
  "read_edges fs base = Ok (sha, es) \<Longrightarrow>
    \<exists>body clusters. fs_read_text fs (edge_artifact base) = Ok body \<and> read_clusters body = Ok clusters \<and> es = cluster_edges clusters"
  by (auto simp: read_edges_def rbind_Ok_iff)

lemma split_dataset_Ok:
  assumes "split_dataset combined sha es comps = Ok (rows, cj, aj)"
  shows "\<exists>asg rep inf. assign_splits_g8 comps combined DEFAULT_SPLIT_SALT = Ok (asg, rep, inf) \<and>
    mapM (apply_split comps asg) combined = Ok rows \<and> check_dataset rows = Ok rows"
proof -
  from assms obtain asg rep inf rows' where
    a: "assign_splits_g8 comps combined DEFAULT_SPLIT_SALT = Ok (asg, rep, inf)"
      "mapM (apply_split comps asg) combined = Ok rows'" "check_dataset rows' = Ok rows"
    unfolding split_dataset_def rbind_Ok_iff by (auto simp: rbind_Ok_iff)
  moreover have "rows = rows'" using a(3) by (simp only: check_dataset_Ok)
  ultimately show ?thesis by blast
qed

lemma build_dataset_cases:
  assumes "build_full_golden_dataset tier_a tier_b tier_c fs base = Some (Ok (rows, cj, aj))"
  obtains body clusters comps asg rep inf where
    "length (tier_a @ tier_b @ tier_c) = TOTAL_QUERIES"
    "fs_read_text fs (edge_artifact base) = Ok body" "read_clusters body = Ok clusters"
    "build_g8_components (numbered [] (tier_a @ tier_b @ tier_c)) (Some (cluster_edges clusters)) None = Some (Ok comps)"
    "assign_splits_g8 comps (numbered [] (tier_a @ tier_b @ tier_c)) DEFAULT_SPLIT_SALT = Ok (asg, rep, inf)"
    "mapM (apply_split comps asg) (numbered [] (tier_a @ tier_b @ tier_c)) = Ok rows"
    "check_dataset rows = Ok rows"
proof -
  let ?rows0 = "tier_a @ tier_b @ tier_c"
  have n: "length ?rows0 = TOTAL_QUERIES"
    using assms unfolding build_full_golden_dataset_def by (auto simp: Let_def split: if_splits)
  obtain sha es where e: "renumber ?rows0 = Ok (numbered [] ?rows0)" "read_edges fs base = Ok (sha, es)"
  proof (cases "rbind (renumber ?rows0) (\<lambda>combined. rbind (read_edges fs base) (\<lambda>e. Ok (combined, e)))")
    case (Raise err)
    then show ?thesis using assms n unfolding build_full_golden_dataset_def Let_def by simp
  next
    case (Ok x)
    then obtain combined where "renumber ?rows0 = Ok combined" "read_edges fs base = Ok (snd x)" by (auto simp: rbind_Ok_iff)
    then show ?thesis using renumber_numbered [of ?rows0 combined] that [of "fst (snd x)" "snd (snd x)"] by simp
  qed
  have "Option.bind (build_g8_components (numbered [] ?rows0) (Some es) None)
      (\<lambda>built. Some (rbind built (split_dataset (numbered [] ?rows0) sha es))) = Some (Ok (rows, cj, aj))"
    using assms n unfolding build_full_golden_dataset_def Let_def by (simp add: e)
  then obtain comps where c: "build_g8_components (numbered [] ?rows0) (Some es) None = Some (Ok comps)"
    "split_dataset (numbered [] ?rows0) sha es comps = Ok (rows, cj, aj)"
    unfolding bind_eq_Some_conv by (auto simp: rbind_Ok_iff)
  obtain body clusters where f: "fs_read_text fs (edge_artifact base) = Ok body" "read_clusters body = Ok clusters"
    "es = cluster_edges clusters" using read_edges_Ok [OF e(2)] by blast
  obtain asg rep inf where "assign_splits_g8 comps (numbered [] ?rows0) DEFAULT_SPLIT_SALT = Ok (asg, rep, inf)"
    "mapM (apply_split comps asg) (numbered [] ?rows0) = Ok rows" "check_dataset rows = Ok rows"
    using split_dataset_Ok [OF c(2)] by blast
  from that [OF n f(1,2) c(1) [unfolded f(3)] this] show ?thesis .
qed

lemma dataset_rows:
  assumes "build_full_golden_dataset tier_a tier_b tier_c fs base = Some (Ok (rows, cj, aj))"
  shows "length rows = TOTAL_QUERIES" "check_dataset rows = Ok rows"
    "r \<in> set rows \<Longrightarrow> map_of r ''output_hash'' = Some (JStr (compute_output_hash r))"
    "list_all2 (\<lambda>r r'. \<forall>k. k \<notin> {''query_id'', ''split'', ''output_hash''} \<longrightarrow> map_of r' k = map_of r k)
      (tier_a @ tier_b @ tier_c) rows"
proof -
  from assms obtain comps asg where
    n: "length (tier_a @ tier_b @ tier_c) = TOTAL_QUERIES"
    and m: "mapM (apply_split comps asg) (numbered [] (tier_a @ tier_b @ tier_c)) = Ok rows"
    and "check_dataset rows = Ok rows" by (rule build_dataset_cases)
  then show "check_dataset rows = Ok rows" by blast
  have split: "list_all2 (\<lambda>r r'. apply_split comps asg r = Ok r') (numbered [] (tier_a @ tier_b @ tier_c)) rows"
    using m by (simp add: mapM_Ok_iff)
  then show "map_of r ''output_hash'' = Some (JStr (compute_output_hash r))" if "r \<in> set rows"
    using that list_all2_setD2 [OF split] apply_split_Ok(2) by blast
  have len: "length rows = length (tier_a @ tier_b @ tier_c)"
    using list_all2_lengthD [OF split] list_all2_lengthD [OF numbered_keeps] by metis
  then show "length rows = TOTAL_QUERIES" using n by simp
  show "list_all2 (\<lambda>r r'. \<forall>k. k \<notin> {''query_id'', ''split'', ''output_hash''} \<longrightarrow> map_of r' k = map_of r k)
      (tier_a @ tier_b @ tier_c) rows"
  proof (rule list_all2_all_nthI)
    show "length (tier_a @ tier_b @ tier_c) = length rows" by (rule len [symmetric])
    fix i assume i: "i < length (tier_a @ tier_b @ tier_c)"
    have "apply_split comps asg (numbered [] (tier_a @ tier_b @ tier_c) ! i) = Ok (rows ! i)"
      using split i len by (simp add: list_all2_conv_all_nth)
    note apply_split_Ok(3) [OF this]
    moreover have "k \<noteq> ''query_id'' \<Longrightarrow> map_of (numbered [] (tier_a @ tier_b @ tier_c) ! i) k = map_of ((tier_a @ tier_b @ tier_c) ! i) k" for k
      using list_all2_nthD [OF numbered_keeps i] by blast
    ultimately show "\<forall>k. k \<notin> {''query_id'', ''split'', ''output_hash''} \<longrightarrow> map_of (rows ! i) k = map_of ((tier_a @ tier_b @ tier_c) ! i) k"
      by simp
  qed
qed

text \<open>
  C30: A golden dataset that is built has 1,039 rows with distinct query ids, each passing the
  gold row contract and carrying the hash of its own content, without vocabulary violations, 416
  of them dev and 623 test; nothing but the id, the split and the output hash of a tier row is
  changed.
\<close>

theorem golden_dataset_sound:
  assumes "build_full_golden_dataset tier_a tier_b tier_c fs base = Some (Ok (rows, cj, aj))"
  shows "length rows = TOTAL_QUERIES \<and> distinct (map (\<lambda>r. jget r ''query_id'') rows) \<and>
    list_all (\<lambda>r. gold_row_ok r \<and> map_of r ''output_hash'' = Some (JStr (compute_output_hash r))) rows \<and>
    vocabulary_violations rows = [] \<and>
    length (filter (in_split ''dev'') rows) = TOTAL_DEV \<and> length (filter (in_split ''test'') rows) = TOTAL_TEST \<and>
    list_all2 (\<lambda>r r'. \<forall>k. k \<notin> {''query_id'', ''split'', ''output_hash''} \<longrightarrow> map_of r' k = map_of r k)
      (tier_a @ tier_b @ tier_c) rows"
  using dataset_rows [OF assms] by (auto simp: check_dataset_Ok list_all_iff)


section \<open>A dataset that is built\<close>

text \<open>The sample rows of the split, completed to gold rows.\<close>

definition gold_sample :: "pyobj list" where
  "gold_sample = map (\<lambda>r. r @ [(''query'', JStr ''what''), (''expected_action'', JStr ''no_result'')]) sample_rows"

definition edge_sample :: fs where
  "edge_sample = [(edge_artifact [], File (concat (map (\<lambda>m.
     dumps js_lines (JObj [(''near_dup_cluster_id'', JStr ''c''), (''media_id'', JStr m)]) @ [CHR 0x0A])
     [''g2:m1'', ''g3:m2''])))]"

lemma edge_sample_edges: "\<exists>sha. read_edges edge_sample [] = Ok (sha, [(''g2'', ''g3'')])"
proof -
  have "is_ok (rbind (fs_read_text edge_sample (edge_artifact [])) (\<lambda>body. rbind (read_clusters body) (\<lambda>c.
      ensure (cluster_edges c = [(''g2'', ''g3'')]) AssertionError)))" by code_simp
  moreover have "fs_exists edge_sample (edge_artifact [])" "\<exists>b. fs_read edge_sample (edge_artifact []) = Ok b"
    by (simp_all add: edge_sample_def fs_exists_def fs_read_def)
  ultimately show ?thesis by (auto simp: read_edges_def is_ok_iff rbind_Ok_iff ensure_Ok_iff)
qed

abbreviation kept :: "pyobj \<Rightarrow> pyobj \<Rightarrow> bool" where
  "kept r r' \<equiv> \<forall>k. k \<notin> {''query_id'', ''split'', ''output_hash''} \<longrightarrow> map_of r' k = map_of r k"

lemma kept_contract: "kept r r' \<Longrightarrow> gold_row_ok r' = gold_row_ok r \<and> released_text r' = released_text r"
  by (simp add: gold_row_ok_def released_text_def dict_get_def)

lemma dataset_accepted:
  assumes n: "numbered [] rows0 = combined"
    and asg: "assign_splits_g8 comps combined DEFAULT_SPLIT_SALT = Ok (asg, rep, infe)" "wf_dict comps"
    and m: "mapM (apply_split comps asg) combined = Ok rows"
    and ok: "\<forall>r \<in> set rows0. gold_row_ok r \<and> pattern_hits HARD_FAIL_PATTERNS (released_text r) = []"
  shows "check_dataset rows = Ok rows"
proof -
  have split: "list_all2 (\<lambda>r r'. apply_split comps asg r = Ok r') combined rows" using m by (simp add: mapM_Ok_iff)
  have ids: "map (\<lambda>r. jget r ''query_id'') rows = map (\<lambda>r. jget r ''query_id'') combined"
  proof (rule nth_equalityI)
    show "length (map (\<lambda>r. jget r ''query_id'') rows) = length (map (\<lambda>r. jget r ''query_id'') combined)"
      using list_all2_lengthD [OF split] by simp
    fix i assume "i < length (map (\<lambda>r. jget r ''query_id'') rows)"
    then have i: "i < length combined" "i < length rows" using list_all2_lengthD [OF split] by simp_all
    from apply_split_Ok(3) [OF list_all2_nthD [OF split i(1)], of "''query_id''"] i
    show "map (\<lambda>r. jget r ''query_id'') rows ! i = map (\<lambda>r. jget r ''query_id'') combined ! i" by (simp add: dict_get_def)
  qed
  have good: "gold_row_ok r \<and> pattern_hits HARD_FAIL_PATTERNS (released_text r) = []" if r: "r \<in> set rows" for r
  proof -
    obtain y where y: "y \<in> set combined" "apply_split comps asg y = Ok r" using list_all2_setD2 [OF split r] by blast
    obtain z where z: "z \<in> set rows0" "\<forall>k. k \<noteq> ''query_id'' \<longrightarrow> map_of y k = map_of z k"
      using list_all2_setD2 [OF numbered_keeps [of rows0 "[]", unfolded n] y(1)] by blast
    have "kept z r" using apply_split_Ok(3) [OF y(2)] z(2) by simp
    from kept_contract [OF this] ok z(1) show ?thesis by simp
  qed
  have names: "is_str (jget r ''query_id'') \<and> jget r ''query_id'' \<noteq> JStr []" if "r \<in> set rows" for r
  proof -
    have "jget r ''query_id'' \<in> set (map (\<lambda>r. jget r ''query_id'') combined)" using that unfolding ids [symmetric] by simp
    then obtain s k where "jget r ''query_id'' = JStr (stratum_id s k)" using numbered_ids [of "[]" rows0] unfolding n by auto
    then show ?thesis by (simp add: stratum_id_def)
  qed
  have one_split: "map_of r ''split'' = map_of r' ''split''"
    if "r \<in> set rows" "r' \<in> set rows" "jget r ''group_id'' = jget r' ''group_id''" for r r'
  proof -
    have row: "\<exists>g cid. map_of x ''group_id'' = Some (JStr g) \<and> map_of (group_to_comp comps) g = Some cid \<and>
        map_of x ''split'' = map_option JStr (map_of asg cid)" if x: "x \<in> set rows" for x
    proof -
      obtain y where "apply_split comps asg y = Ok x" using list_all2_setD2 [OF split x] by blast
      then show ?thesis by (auto simp: apply_split_def run_ok Let_def update_conv')
    qed
    from row [OF that(1)] row [OF that(2)] that(3) show ?thesis by (auto simp: dict_get_def)
  qed
  have "set (map (\<lambda>r. jget r ''group_id'') (filter (in_split ''dev'') rows)) \<inter>
      set (map (\<lambda>r. jget r ''group_id'') (filter (in_split ''test'') rows)) = {}"
  proof (rule ccontr)
    assume "\<not> ?thesis"
    then obtain r r' where "r \<in> set rows" "in_split ''dev'' r" "r' \<in> set rows" "in_split ''test'' r'"
      "jget r ''group_id'' = jget r' ''group_id''" by auto
    with one_split [of r r'] show False by (simp add: dict_get_def split: option.splits)
  qed
  moreover have "length (filter (in_split ''dev'') rows) = TOTAL_DEV" "length (filter (in_split ''test'') rows) = TOTAL_TEST"
    using assign_splits_g8_found [OF asg] in_split_rows [OF m] by simp_all
  moreover have "distinct (map (\<lambda>r. jget r ''query_id'') rows)" using numbered_ids [of "[]" rows0] by (simp add: ids n)
  moreover have "vocabulary_violations rows = []" using good by (simp add: vocabulary_violations_def vocabulary_report_Nil)
  ultimately show ?thesis using good names by (simp add: check_dataset_Ok list_all_iff)
qed

lemma gold_sample_same: "list_all2 same_place sample_rows gold_sample"
  by (auto simp: gold_sample_def list_all2_conv_all_nth map_add_def split: option.splits)

lemma gold_sample_built:
  obtains rows cj aj where
    "build_full_golden_dataset gold_sample [] [] edge_sample [] = Some (Ok (rows, cj, aj))"
    "list_all2 kept gold_sample rows"
proof -
  let ?combined = "numbered [] gold_sample"
  have same: "list_all2 same_place sample_rows ?combined"
  proof -
    have "list_all2 same_place gold_sample ?combined" by (rule numbered_same_place)
    with gold_sample_same show ?thesis by (auto simp: list_all2_conv_all_nth)
  qed
  have "build_g8_components sample_rows (Some [(''g2'', ''g3'')]) None = build_g8_components sample_rows (Some [(''g2:m1'', ''g3:m2'')]) None"
    by (simp add: build_g8_components_def edges_to_apply_def sample_groups base_group_def prefix_def)
  then have built: "build_g8_components ?combined (Some [(''g2'', ''g3'')]) None = Some (Ok sample_components)"
    by (simp only: build_same [OF same] sample_build)
  obtain asg rep where asg: "assign_splits_g8 sample_components ?combined DEFAULT_SPLIT_SALT = Ok (asg, rep, False)"
  proof -
    obtain asg rep where "assign_splits_g8 sample_components sample_rows ''phase-2-split-salt-v1'' = Ok (asg, rep, False)"
      by (rule sample_accepted)
    then have "assign_splits_g8 sample_components ?combined DEFAULT_SPLIT_SALT = Ok (asg, rep, False)"
      by (simp only: build_same [OF same] DEFAULT_SPLIT_SALT_def)
    then show ?thesis by (rule that)
  qed
  have "is_ok (apply_split sample_components asg r)" if r: "r \<in> set ?combined" for r
  proof -
    obtain z where z: "z \<in> set sample_rows" "same_place z r" using list_all2_setD2 [OF same r] by blast
    then obtain cid where cid: "row_comp sample_components r = Some cid"
      using sample_rows_ok(3) by (auto simp: row_comp_def)
    then have "cid \<in> set (dict_keys sample_components)"
      unfolding row_comp_def by (auto split: option.splits json.splits dest: group_to_comp_key simp del: list.set_map)
    then have "map_of asg cid \<noteq> None"
      using assign_splits_g8_found [OF asg sample_rows_ok(1)] by (metis map_of_eq_None_iff list.set_map)
    with cid show ?thesis by (rule apply_split_total)
  qed
  then have "mapM (apply_split sample_components asg) ?combined = Ok (map (\<lambda>r. result_value (apply_split sample_components asg r)) ?combined)"
    by (intro mapM_Ok_map) (metis is_ok_iff result.sel(1))
  then obtain rows where m: "mapM (apply_split sample_components asg) ?combined = Ok rows" by blast
  have "check_dataset rows = Ok rows"
  proof (rule dataset_accepted [OF refl asg sample_rows_ok(1) m])
    have "released_text r = ''what'' @ [CHR 0x0A] \<and> gold_row_ok r" if "r \<in> set gold_sample" for r
      using that by (auto simp: gold_sample_def sample_rows_def sample_row_def released_text_def gold_row_ok_def dict_get_def)
    moreover have "pattern_hits HARD_FAIL_PATTERNS (''what'' @ [CHR 0x0A]) = []" by code_simp
    ultimately show "\<forall>r \<in> set gold_sample. gold_row_ok r \<and> pattern_hits HARD_FAIL_PATTERNS (released_text r) = []" by simp
  qed
  moreover obtain sha where "read_edges edge_sample [] = Ok (sha, [(''g2'', ''g3'')])" using edge_sample_edges by blast
  moreover have "length gold_sample = TOTAL_QUERIES" using sample_rows_ok(2) by (simp add: gold_sample_def)
  moreover have "renumber gold_sample = Ok ?combined"
    by (auto simp: renumber_numbered list_all_iff gold_sample_def sample_rows_def sample_row_def dict_get_def)
  ultimately have "\<exists>cj aj. build_full_golden_dataset gold_sample [] [] edge_sample [] = Some (Ok (rows, cj, aj))"
    by (simp add: build_full_golden_dataset_def built split_dataset_def asg m)
  then obtain cj aj where run: "build_full_golden_dataset gold_sample [] [] edge_sample [] = Some (Ok (rows, cj, aj))" by blast
  from that [OF run] dataset_rows(4) [OF run] show ?thesis by simp
qed

theorem golden_dataset_sound_witness:
  "\<exists>rows cj aj. build_full_golden_dataset gold_sample [] [] edge_sample [] = Some (Ok (rows, cj, aj)) \<and>
    length (filter (in_split ''dev'') rows) = 416"
proof -
  obtain rows cj aj where run: "build_full_golden_dataset gold_sample [] [] edge_sample [] = Some (Ok (rows, cj, aj))"
    by (rule gold_sample_built)
  from golden_dataset_sound [OF run] run show ?thesis by (auto simp: TOTAL_DEV_def)
qed


end
