(* ===== verification/Release_Promote.thy ===== *)
theory Release_Promote
  imports Release_Safety Golden_Build
begin

text \<open>
  The two operations that publish a golden release (\<^verbatim>\<open>promote_candidate_to_approved_release\<close> and
  \<^verbatim>\<open>generate_and_freeze_golden_release\<close> of \<^verbatim>\<open>src/evaluation/golden/builder.py\<close>): both check what they
  publish first, stage it in a temporary directory and hand it to
  \<^verbatim>\<open>atomic_publish_versioned_release\<close>. The lemmas show that a pointer only changes after the checks,
  and what the published files hold. The temporary directory, the clock and the random token are fields
  of the publication.
\<close>

section \<open>Reads that are checked\<close>

definition json_lines :: "string \<Rightarrow> pyobj list result" where
  "json_lines text = mapM loads_object (filter (\<lambda>line. strip line \<noteq> []) (splitlines text))"

definition decode_utf8 :: "string \<Rightarrow> string result" where
  "decode_utf8 bytes = (case utf8_decode bytes of None \<Rightarrow> Raise (ValueError ''utf-8'') | Some t \<Rightarrow> Ok t)"

text \<open>\<^verbatim>\<open>msgs[m["message_id"]] = m\<close> over the corpus.\<close>

definition messages_by_id :: "fs \<Rightarrow> path \<Rightarrow> (string, json) dict result" where
  "messages_by_id fs p =
     rbind (read_messages fs p) (\<lambda>messages.
     rbind (mapM (\<lambda>m. str_item m ''message_id'') messages) (\<lambda>mids.
       Ok (dict_of (zip mids (map JObj messages)))))"

section \<open>Promotion\<close>

text \<open>Which release is promoted: the current one, or the one that is named.\<close>

definition find_candidate :: "fs \<Rightarrow> path \<Rightarrow> string option \<Rightarrow> (json \<times> path) result" where
  "find_candidate fs output candidate_release_id =
     (case candidate_release_id of
        None \<Rightarrow> rbind (resolve_current_release fs output False) (\<lambda>r. Ok (r_release_id r, r_release_dir r))
      | Some rid \<Rightarrow>
          let dir = path_join (output @ [''releases'']) rid in
          rbind (ensure (fs_is_dir fs dir) (ReleaseGateError ''candidate directory'')) (\<lambda>_. Ok (JStr rid, dir)))"

definition dataset_artifacts :: "string list" where
  "dataset_artifacts =
    [''golden_1039.jsonl'', ''components@R.json'', ''assignment@R.json'', ''anti_leak_audit.json'',
     ''multi_hop_judgment.jsonl'']"

definition read_candidate :: "fs \<Rightarrow> path \<Rightarrow> (pyobj \<times> string \<times> string) result" where
  "read_candidate fs dir =
     rbind (ensure (fs_exists fs (dir @ [''golden_manifest.json''])) (ReleaseGateError ''missing manifest'')) (\<lambda>_.
     rbind (fs_read_text fs (dir @ [''golden_manifest.json''])) (\<lambda>text.
     rbind (loads_object text) (\<lambda>manifest.
     rbind (ensure (truthy (jget manifest ''sha256'')) (ReleaseGateError ''missing sha256'')) (\<lambda>_.
     rbind (ensure (fs_exists fs (dir @ [''golden_1039.jsonl''])) (ReleaseGateError ''missing gold rows'')) (\<lambda>_.
     rbind (fs_read fs (dir @ [''golden_1039.jsonl''])) (\<lambda>gold.
     rbind (ensure (py_eq (JStr (sha256_hex gold)) (jget manifest ''sha256'')) (ReleaseGateError ''checksum mismatch'')) (\<lambda>_.
     rbind (forM (\<lambda>n. ensure (fs_exists fs (dir @ [n])) (ReleaseGateError ''missing artifact'')) dataset_artifacts) (\<lambda>_.
       Ok (manifest, sha256_hex gold, gold)))))))))"

definition read_audit :: "fs \<Rightarrow> path \<Rightarrow> (string \<times> pyobj list) result" where
  "read_audit fs p =
     rbind (ensure (fs_exists fs p) (ReleaseGateError ''audit not found'')) (\<lambda>_.
     rbind (fs_read fs p) (\<lambda>bytes.
     rbind (decode_utf8 bytes) (\<lambda>text.
     rbind (ensure (filter (\<lambda>line. strip line \<noteq> []) (splitlines text) \<noteq> []) (ReleaseGateError ''audit is empty'')) (\<lambda>_.
     rbind (json_lines text) (\<lambda>records. Ok (bytes, records))))))"

record candidate =
  c_release_id :: json
  c_dir :: path
  c_manifest :: pyobj
  c_gold_sha256 :: string
  c_row_count :: nat
  c_audit :: string

definition check_candidate :: "path \<Rightarrow> path \<Rightarrow> string option \<Rightarrow> path \<Rightarrow> fs \<Rightarrow> candidate result" where
  "check_candidate base output candidate_release_id audit_path fs =
     rbind (find_candidate fs output candidate_release_id) (\<lambda>(rid, dir).
     rbind (read_candidate fs dir) (\<lambda>(manifest, gold_sha, gold).
     rbind (read_audit fs audit_path) (\<lambda>(audit, records).
     rbind (rbind (decode_utf8 gold) json_lines) (\<lambda>rows.
     rbind (if fs_exists fs (messages_file base)
            then rbind (messages_by_id fs (messages_file base)) (\<lambda>ms. Ok (Some ms)) else Ok None) (\<lambda>msgs.
     rbind (validate_multi_hop_audit records rows msgs ''codex'' (Some gold_sha)) (\<lambda>_.
       Ok \<lparr>c_release_id = rid, c_dir = dir, c_manifest = manifest, c_gold_sha256 = gold_sha,
           c_row_count = length rows, c_audit = audit\<rparr>))))))"

definition approved_manifest :: "candidate \<Rightarrow> string \<Rightarrow> pyobj" where
  "approved_manifest c promoted_at =
     foldl (\<lambda>m (k, v). set_field k v m) (c_manifest c)
       [(''release_stage'', JStr ''approved''),
        (''phase2_accepted'', JBool True),
        (''candidate_release_id'', c_release_id c),
        (''multi_hop_audit_ref'', JStr ''multi_hop_audit.jsonl''),
        (''multi_hop_audit_sha256'', JStr (sha256_hex (c_audit c))),
        (''promoted_at'', JStr promoted_at)]"

definition pretty_file :: "pyobj \<Rightarrow> string" where
  "pretty_file x = utf8_encode (dumps js_pretty (JObj x)) @ [CHR 0x0A]"

definition stage_candidate :: "publication \<Rightarrow> candidate \<Rightarrow> string \<Rightarrow> unit io" where
  "stage_candidate a c promoted_at =
     io_seq (io_for (\<lambda>n. io_bind (io_read (c_dir c @ [n])) (io_write (p_staging a @ [n]))) dataset_artifacts)
     (io_seq (io_bind (io_read (p_staging a @ [''golden_1039.jsonl'']))
        (\<lambda>b. io_of_result (ensure (sha256_hex b = c_gold_sha256 c) AssertionError)))
     (io_seq (io_write (p_staging a @ [''multi_hop_audit.jsonl'']) (c_audit c))
     (io_write (p_staging a @ [''golden_manifest.json'']) (pretty_file (approved_manifest c promoted_at)))))"

definition promoted_publication :: "publication \<Rightarrow> candidate \<Rightarrow> string \<Rightarrow> publication" where
  "promoted_publication a c manifest_sha = a\<lparr>
     p_names := dataset_artifacts @ [''multi_hop_audit.jsonl'', ''golden_manifest.json''],
     p_gold_sha256 := c_gold_sha256 c, p_manifest_sha256 := manifest_sha,
     p_row_count := int (c_row_count c), p_stage := ''approved'', p_accepted := True,
     p_candidate := c_release_id c\<rparr>"

text \<open>\<^verbatim>\<open>with tempfile.TemporaryDirectory()\<close>; its removal may fail half-way.\<close>

definition io_remove_temporary :: "path \<Rightarrow> unit io" where
  "io_remove_temporary p = fs_op (\<lambda>k fs. fs_remove_tree p (take k fs) @ drop k fs) (\<lambda>fs. Ok ((), fs_remove_tree p fs))"

definition in_staging :: "publication \<Rightarrow> 'a io \<Rightarrow> 'a io" where
  "in_staging a m = io_seq (io_mkdirs (p_staging a)) (io_finally m (io_remove_temporary (p_staging a)))"

definition publish_candidate :: "publication \<Rightarrow> candidate \<Rightarrow> string \<Rightarrow> (string \<times> path) io" where
  "publish_candidate a c promoted_at = in_staging a
     (io_seq (stage_candidate a c promoted_at)
     (io_bind (io_read (p_staging a @ [''golden_manifest.json''])) (\<lambda>manifest.
        atomic_publish_versioned_release (promoted_publication a c (sha256_hex manifest)))))"

definition promote_candidate_to_approved_release ::
  "publication \<Rightarrow> path \<Rightarrow> string option \<Rightarrow> path option \<Rightarrow> string \<Rightarrow> (path \<times> path) io" where
  "promote_candidate_to_approved_release a base candidate_release_id audit_path promoted_at =
     io_seq (io_mkdirs (p_output a))
     (io_bind (io_check (check_candidate base (p_output a) candidate_release_id
        (case audit_path of Some p \<Rightarrow> p | None \<Rightarrow> p_output a @ [''multi_hop_audit.jsonl'']))) (\<lambda>c.
     io_bind (publish_candidate a c promoted_at) (\<lambda>(_, dir).
       io_return (dir @ [''golden_1039.jsonl''], dir @ [''golden_manifest.json'']))))"

section \<open>What is published was checked\<close>

text \<open>
  What the candidate check establishes on a file system: the gold file of the candidate is the one its
  manifest records, and the audit file holds one sound record by \<^verbatim>\<open>codex\<close> for each of its multi-hop
  rows, made for exactly these gold bytes and, where the corpus is there, against its messages.
\<close>

definition audited :: "path \<Rightarrow> path \<Rightarrow> string option \<Rightarrow> path \<Rightarrow> fs \<Rightarrow> bool" where
  "audited base output rid audit fs \<longleftrightarrow>
     (\<exists>cid dir gold manifest rows bytes records msgs.
        find_candidate fs output rid = Ok (cid, dir) \<and>
        fs_read fs (dir @ [''golden_1039.jsonl'']) = Ok gold \<and>
        rbind (fs_read_text fs (dir @ [''golden_manifest.json''])) loads_object = Ok manifest \<and>
        jget manifest ''sha256'' = JStr (sha256_hex gold) \<and>
        rbind (decode_utf8 gold) json_lines = Ok rows \<and>
        fs_read fs audit = Ok bytes \<and> rbind (decode_utf8 bytes) json_lines = Ok records \<and>
        covers records (multi_hop_rows rows) \<and>
        list_all (\<lambda>rec. list_ex (\<lambda>row. record_sound msgs row rec) (multi_hop_rows rows) \<and>
          jget rec ''reviewer_key'' = JStr ''codex'' \<and> jget rec ''gold_sha256'' = JStr (sha256_hex gold)) records \<and>
        (fs_exists fs (messages_file base) \<longrightarrow>
          (\<exists>ms. messages_by_id fs (messages_file base) = Ok ms \<and> msgs = Some ms)))"

lemma check_candidate_audited:
  assumes "check_candidate base output rid audit fs = Ok c"
  shows "audited base output rid audit fs"
proof -
  from assms obtain cid dir manifest gold bytes records rows msgs sha where
    "find_candidate fs output rid = Ok (cid, dir)"
    and cand: "read_candidate fs dir = Ok (manifest, sha, gold)"
    and aud: "read_audit fs audit = Ok (bytes, records)"
    and "rbind (decode_utf8 gold) json_lines = Ok rows"
    and msgs: "(if fs_exists fs (messages_file base)
            then rbind (messages_by_id fs (messages_file base)) (\<lambda>ms. Ok (Some ms)) else Ok None) = Ok msgs"
    and v: "validate_multi_hop_audit records rows msgs ''codex'' (Some sha) = Ok ()"
    by (auto simp: check_candidate_def rbind_Ok_iff)
  moreover have "fs_read fs (dir @ [''golden_1039.jsonl'']) = Ok gold" "sha = sha256_hex gold"
    "rbind (fs_read_text fs (dir @ [''golden_manifest.json''])) loads_object = Ok manifest"
    "jget manifest ''sha256'' = JStr (sha256_hex gold)"
    using cand by (auto simp: read_candidate_def rbind_Ok_iff ensure_Ok_iff)
  moreover have "fs_read fs audit = Ok bytes" "rbind (decode_utf8 bytes) json_lines = Ok records"
    using aud by (auto simp: read_audit_def rbind_Ok_iff)
  moreover have "fs_exists fs (messages_file base) \<longrightarrow>
      (\<exists>ms. messages_by_id fs (messages_file base) = Ok ms \<and> msgs = Some ms)"
    using msgs by (auto simp: rbind_Ok_iff)
  moreover have "covers records (multi_hop_rows rows)"
    "list_all (\<lambda>rec. list_ex (\<lambda>row. record_sound msgs row rec) (multi_hop_rows rows) \<and>
      jget rec ''reviewer_key'' = JStr ''codex'' \<and> jget rec ''gold_sha256'' = JStr sha) records"
    using v by (auto simp: audit_Ok_iff judgment_Ok_iff list_all_iff list_ex_iff)
  ultimately show ?thesis unfolding audited_def by blast
qed

lemma triple_check:
  assumes "\<And>fs x. A fs \<Longrightarrow> B fs \<Longrightarrow> f fs = Ok x \<Longrightarrow> Q x fs"
  shows "triple (holds c A B) (io_check f) (\<lambda>x. holds c A (Q x)) (holds c A B)"
  unfolding io_check_def
proof (rule triple_seq)
  show "triple (holds c A B) io_call (\<lambda>_. holds c A B) (holds c A B)"
    by (rule triple_conseq [OF triple_call]) auto
  show "triple (holds c A B) (io_bind (io_ask f) io_of_result) (\<lambda>x. holds c A (Q x)) (holds c A B)"
    using assms by (auto simp: triple_def io_bind_def io_ask_def io_of_result_def io_return_def io_raise_def
      holds_def states_def split: result.splits)
qed

lemma current_mkdirs: "map_of (fs_mkdirs (take k (p_output a)) fs) (current_file a) = map_of fs (current_file a)"
proof -
  have "length (current_file a) = Suc (length (p_output a))" by (simp add: current_file_def)
  then have "\<not> prefix (current_file a) (take k (p_output a))" using prefix_length_le by fastforce
  then show ?thesis by (simp add: lookup_mkdirs)
qed

lemma promote_keeps_current:
  assumes no: "\<not> audited base (p_output a) rid
      (case audit of Some p \<Rightarrow> p | None \<Rightarrow> p_output a @ [''multi_hop_audit.jsonl'']) (fs_mkdirs (p_output a) fs0)"
  shows "triple (holds False (\<lambda>fs. map_of fs (current_file a) = map_of fs0 (current_file a)) (\<lambda>fs. fs = fs0))
    (promote_candidate_to_approved_release a base rid audit promoted_at)
    (\<lambda>_ _. False) (holds False (\<lambda>fs. map_of fs (current_file a) = map_of fs0 (current_file a)) (\<lambda>_. True))"
  unfolding promote_candidate_to_approved_release_def
proof (rule triple_seq)
  let ?A = "\<lambda>fs. map_of fs (current_file a) = map_of fs0 (current_file a)"
  let ?B = "\<lambda>fs. fs = fs_mkdirs (p_output a) fs0"
  show "triple (holds False ?A (\<lambda>fs. fs = fs0)) (io_mkdirs (p_output a)) (\<lambda>_. holds False ?A ?B)
      (holds False ?A (\<lambda>_. True))"
    by (rule triple_conseq [OF triple_mkdirs [where Q = ?B and E = "\<lambda>_. True"]])
      (auto simp: current_mkdirs)
  show "triple (holds False ?A ?B) (io_bind (io_check (check_candidate base (p_output a) rid
        (case audit of Some p \<Rightarrow> p | None \<Rightarrow> p_output a @ [''multi_hop_audit.jsonl''])))
      (\<lambda>c. io_bind (publish_candidate a c promoted_at) (\<lambda>(_, dir).
        io_return (dir @ [''golden_1039.jsonl''], dir @ [''golden_manifest.json'']))))
      (\<lambda>_ _. False) (holds False ?A (\<lambda>_. True))"
  proof (rule triple_bind)
    show "triple (holds False ?A ?B) (io_check (check_candidate base (p_output a) rid
        (case audit of Some p \<Rightarrow> p | None \<Rightarrow> p_output a @ [''multi_hop_audit.jsonl''])))
      (\<lambda>_ _. False) (holds False ?A (\<lambda>_. True))"
      by (rule triple_conseq [OF triple_check [where A = ?A and B = ?B and c = False and Q = "\<lambda>_ _. False"]])
        (use no check_candidate_audited in \<open>auto simp: holds_def\<close>)
  qed (simp add: triple_def)
qed

text \<open>
  C32: Whatever fails during a promotion, the CURRENT pointer is different from before in no
  observable file system unless the candidate passed every check: its gold bytes have the
  checksum of its manifest, and the audit file holds one sound record by codex for every multi-
  hop row, made for these gold bytes and checked against the message corpus when there is one.
\<close>

theorem promotion_requires_audit:
  assumes "promote_candidate_to_approved_release a base rid audit promoted_at (start fs0 fl) = (res, w)"
    and "fs \<in> set (states w)"
  shows "map_of fs (current_file a) = map_of fs0 (current_file a) \<or>
    audited base (p_output a) rid
      (case audit of Some p \<Rightarrow> p | None \<Rightarrow> p_output a @ [''multi_hop_audit.jsonl'']) (fs_mkdirs (p_output a) fs0)"
proof (rule disjCI)
  assume no: "\<not> audited base (p_output a) rid
      (case audit of Some p \<Rightarrow> p | None \<Rightarrow> p_output a @ [''multi_hop_audit.jsonl'']) (fs_mkdirs (p_output a) fs0)"
  have pre: "holds False (\<lambda>fs. map_of fs (current_file a) = map_of fs0 (current_file a)) (\<lambda>fs. fs = fs0) (start fs0 fl)"
    by (simp add: holds_def start_def states_def)
  note t = promote_keeps_current [OF no, of promoted_at]
  show "map_of fs (current_file a) = map_of fs0 (current_file a)"
    using tripleD [OF t pre] assms by (cases res) (auto simp: holds_def list_all_iff)
qed


text \<open>Without an audit file the pointer of the published sample stays.\<close>

theorem promotion_requires_audit_witness:
  "\<exists>res w. promote_candidate_to_approved_release (sample_publication ''2'') [''r''] None None ''t''
      (start sample_published []) = (res, w) \<and>
    (\<forall>fs \<in> set (states w). map_of fs [''g'', ''CURRENT''] = map_of sample_published [''g'', ''CURRENT''])"
proof -
  let ?a = "sample_publication ''2''"
  obtain res w where run: "promote_candidate_to_approved_release ?a [''r''] None None ''t'' (start sample_published []) = (res, w)"
    by fastforce
  have "fs_read (fs_mkdirs (p_output ?a) sample_published) (p_output ?a @ [''multi_hop_audit.jsonl'']) \<noteq> Ok b" for b
    by (simp add: fs_read_Ok lookup_mkdirs sample_publication_def)
      (simp add: sample_published_def sample_staging_def candidate_artifacts_def)
  then have "\<not> audited [''r''] (p_output ?a) None (p_output ?a @ [''multi_hop_audit.jsonl''])
      (fs_mkdirs (p_output ?a) sample_published)" by (simp add: audited_def)
  then have "map_of fs [''g'', ''CURRENT''] = map_of sample_published [''g'', ''CURRENT'']" if "fs \<in> set (states w)" for fs
    using promotion_requires_audit [OF run that] by (simp add: current_file_def sample_publication_def)
  with run show ?thesis by blast
qed

end
