(* ===== verification/Release_Generate.thy ===== *)
theory Release_Generate
  imports Release_Promote
begin

text \<open>
  The generation of a candidate release (\<^verbatim>\<open>generate_and_freeze_golden_release\<close> of
  \<^verbatim>\<open>src/evaluation/golden/builder.py\<close>): the dataset is built and gated, the multi-hop judgments are
  made from the review file and checked, and the six artifacts are staged and published.
\<close>

section \<open>Judgment records\<close>

text \<open>\<^verbatim>\<open>a or b\<close>\<close>

definition json_or :: "json \<Rightarrow> json \<Rightarrow> json" where
  "json_or a b = (if truthy a then a else b)"

definition text_snippet :: "json \<Rightarrow> string result" where
  "text_snippet v = (case v of
     JStr s \<Rightarrow> Ok (map (\<lambda>c. if c = CHR 0x0A then CHR '' '' else c) (take 80 s))
   | JArr _ \<Rightarrow> Raise (AttributeError ''replace'')
   | _ \<Rightarrow> Raise (TypeError ''not subscriptable''))"

definition evidence_binding :: "(string, json) dict \<Rightarrow> json \<Rightarrow> json result" where
  "evidence_binding msgs mid =
     rbind (get_message msgs mid) (\<lambda>m_obj.
     rbind (ensure (truthy m_obj) (ReleaseGateError ''evidence message not found'')) (\<lambda>_.
     rbind (obj_fields m_obj) (\<lambda>m.
     rbind (text_snippet (dict_get m ''text'' (JStr []))) (\<lambda>snippet.
       Ok (JObj [(''message_id'', mid), (''message_hash'', JStr (message_hash m_obj)),
         (''session_index'', dict_get m ''session_index'' (JInt 0)), (''text_snippet'', JStr snippet)])))))"

definition needed :: "json \<Rightarrow> json result" where
  "needed v = (if truthy v then Ok v else gate_error ''review record misses a field'')"

definition judgment_record :: "(json, pyobj) dict \<Rightarrow> (string, json) dict \<Rightarrow> pyobj \<Rightarrow> pyobj result" where
  "judgment_record rev_by_qid msgs r =
     rbind (jitem r ''query_id'') (\<lambda>qid.
     rbind (case map_of rev_by_qid (py_norm qid) of Some review \<Rightarrow> Ok review | None \<Rightarrow> Raise (KeyError ''query_id'')) (\<lambda>review.
     rbind (jitem r ''gold_evidence_message_ids'') (\<lambda>ids.
     rbind (py_iter ids) (\<lambda>mids.
     rbind (mapM (evidence_binding msgs) mids) (\<lambda>evidence_bindings.
     rbind (needed (json_or (jget review ''authored_verdict'') (jget review ''answer_sufficiency''))) (\<lambda>verdict.
     rbind (needed (json_or (jget review ''reviewed_by'') (jget review ''reviewer''))) (\<lambda>reviewer_key.
     rbind (needed (jget review ''reviewed_at'')) (\<lambda>reviewed_at.
     rbind (needed (jget review ''reasoning_rationale'')) (\<lambda>rationale.
     rbind (jitem r ''output_hash'') (\<lambda>output_hash.
       Ok [(''query_id'', qid), (''output_hash'', output_hash), (''evidence_bindings'', JArr evidence_bindings),
           (''verdict'', verdict), (''reviewer_key'', reviewer_key), (''reviewed_at'', reviewed_at),
           (''entailment_triage_score'', dict_get review ''entailment_triage_score'' (JFloat 1)),
           (''reasoning_rationale'', rationale)]))))))))))"

text \<open>\<^verbatim>\<open>rev_by_qid\<close>: the multi-hop records of the review file, the last one of an id.\<close>

definition reviews_by_qid :: "fs \<Rightarrow> path \<Rightarrow> (json, pyobj) dict result" where
  "reviews_by_qid fs review_path =
     rbind (fs_read_text fs review_path) (\<lambda>text.
     rbind (loads text) (\<lambda>v.
     rbind (obj_fields v) (\<lambda>rdata.
     rbind (py_iter (dict_get rdata ''records'' (JArr []))) (\<lambda>vs.
     rbind (mapM obj_fields vs) (\<lambda>records.
     let reviews = filter (\<lambda>r. py_eq (jget r ''stratum'') (JStr ''multi_hop_evidence'')) records in
     rbind (mapM (\<lambda>r. jitem r ''query_id'') reviews) (\<lambda>qids.
     rbind (as_keys qids) (\<lambda>keys. Ok (dict_of (zip keys reviews)))))))))"

definition judge_rows :: "fs \<Rightarrow> path \<Rightarrow> path \<Rightarrow> pyobj list \<Rightarrow> pyobj list result" where
  "judge_rows fs base review_path rows =
     rbind (mapM (\<lambda>r. jitem r ''stratum'') rows) (\<lambda>_.
     let mh_rows = multi_hop_rows rows in
     rbind (rbind (mapM (\<lambda>r. jitem r ''query_id'') mh_rows) as_keys) (\<lambda>mh_qids.
     rbind (reviews_by_qid fs review_path) (\<lambda>rev_by_qid.
     rbind (ensure (set (dict_keys rev_by_qid) = set mh_qids) (ReleaseGateError ''query_id mismatch'')) (\<lambda>_.
     rbind (messages_by_id fs (messages_file base)) (\<lambda>msgs.
     rbind (mapM (judgment_record rev_by_qid msgs) mh_rows) (\<lambda>judgment_records.
     rbind (validate_multi_hop_judgment judgment_records rows (Some msgs)) (\<lambda>_. Ok judgment_records)))))))"

section \<open>The artifacts\<close>

definition jsonl_file :: "pyobj list \<Rightarrow> string" where
  "jsonl_file rows =
     utf8_encode (join [CHR 0x0A] (map (\<lambda>r. dumps js_canonical (JObj r)) rows) @ [CHR 0x0A])"

text \<open>\<^verbatim>\<open>strata_counts[s][key] += 1\<close>, on the three keys a stratum starts with.\<close>

definition count_key :: "string \<Rightarrow> (string, nat) dict \<Rightarrow> (string, nat) dict result" where
  "count_key k counts = rbind (dict_item counts k) (\<lambda>n. Ok (AList.update k (n + 1) counts))"

definition count_strata :: "pyobj list \<Rightarrow> (string, (string, nat) dict) dict result" where
  "count_strata rows = foldM (\<lambda>strata r.
     rbind (str_item r ''stratum'') (\<lambda>s.
     rbind (str_item r ''split'') (\<lambda>split.
     rbind (count_key ''total'' (dict_get strata s [(''total'', 0), (''dev'', 0), (''test'', 0)])) (\<lambda>counts.
     rbind (count_key split counts) (\<lambda>counts'. Ok (AList.update s counts' strata)))))) [] rows"

definition candidate_manifest ::
  "pyobj list \<Rightarrow> pyobj \<Rightarrow> (string, (string, nat) dict) dict \<Rightarrow> string \<Rightarrow> string \<Rightarrow> pyobj" where
  "candidate_manifest rows anti_leak_summary strata gold_sha judgment_sha =
     [(''artifact_type'', JStr ''golden_dataset_release''),
      (''release_stage'', JStr ''candidate''),
      (''phase2_accepted'', JBool False),
      (''row_count'', JInt (int (length rows))),
      (''sha256'', JStr gold_sha),
      (''splits'', JObj [(''dev'', JInt (int (length (filter (in_split ''dev'') rows)))),
                        (''test'', JInt (int (length (filter (in_split ''test'') rows))))]),
      (''anti_leak_gate'', JObj anti_leak_summary),
      (''provenance_ref'', JStr PROVENANCE_REF),
      (''strata'', JObj (map (\<lambda>(s, counts). (s, JObj (map (\<lambda>(k, n). (k, JInt (int n))) counts))) strata)),
      (''components_ref'', JStr ''components@R.json''),
      (''assignment_ref'', JStr ''assignment@R.json''),
      (''anti_leak_audit_ref'', JStr ''anti_leak_audit.json''),
      (''multi_hop_judgment_ref'', JStr ''multi_hop_judgment.jsonl''),
      (''multi_hop_judgment_sha256'', JStr judgment_sha),
      (''entailment_authoring'', JStr ''antigravity_direct_read'')]"

text \<open>
  The six files of a candidate release, by name. The strata are counted here, before the first write and
  not between two of them: rows of a built dataset have a stratum and one of the two splits.
\<close>

definition candidate_files ::
  "pyobj list \<Rightarrow> pyobj \<Rightarrow> pyobj \<Rightarrow> pyobj \<Rightarrow> pyobj \<Rightarrow> pyobj list \<Rightarrow> (string, string) dict result" where
  "candidate_files rows components assignment summary audit judgments =
     (let gold = jsonl_file rows; judgment = jsonl_file judgments in
      rbind (count_strata rows) (\<lambda>strata.
        Ok [(''golden_1039.jsonl'', gold),
            (''components@R.json'', pretty_file components),
            (''assignment@R.json'', pretty_file (set_field ''gold_sha256'' (JStr (sha256_hex gold)) assignment)),
            (''anti_leak_audit.json'', pretty_file audit),
            (''multi_hop_judgment.jsonl'', judgment),
            (''golden_manifest.json'',
              pretty_file (candidate_manifest rows summary strata (sha256_hex gold) (sha256_hex judgment)))]))"

section \<open>Generation\<close>

text \<open>Everything before the first write. \<open>None\<close> would be a run that does not end.\<close>

definition gated_dataset ::
  "retriever \<Rightarrow> path \<Rightarrow> path \<Rightarrow> pyobj list \<Rightarrow> pyobj list \<Rightarrow> pyobj list \<Rightarrow> fs \<Rightarrow>
    (pyobj list \<times> (string, string) dict) result option" where
  "gated_dataset retrieve base review_path tier_a tier_b tier_c fs =
     (if \<not> fs_exists fs review_path then Some (gate_error ''Required review artifact missing'')
      else if \<not> fs_exists fs (messages_file base) then Some (gate_error ''Required messages corpus missing'')
      else map_option (\<lambda>built.
        rbind built (\<lambda>(rows0, components, assignment).
        rbind (run_anti_leak_gate retrieve fs base rows0) (\<lambda>(rows, summary, audit).
        rbind (judge_rows fs base review_path rows) (\<lambda>judgments.
        rbind (candidate_files rows components assignment summary audit judgments) (\<lambda>files.
          Ok (rows, files))))))
        (build_full_golden_dataset tier_a tier_b tier_c fs base))"

definition candidate_publication :: "publication \<Rightarrow> pyobj list \<Rightarrow> (string, string) dict \<Rightarrow> string \<Rightarrow> publication" where
  "candidate_publication a rows files manifest_sha = a\<lparr>
     p_names := [''golden_1039.jsonl'', ''components@R.json'', ''assignment@R.json'', ''anti_leak_audit.json'',
       ''multi_hop_judgment.jsonl'', ''golden_manifest.json''],
     p_gold_sha256 := sha256_hex (dict_get files ''golden_1039.jsonl'' []), p_manifest_sha256 := manifest_sha,
     p_row_count := int (length rows), p_stage := ''candidate'', p_accepted := False, p_candidate := JNull\<rparr>"

definition publish_dataset :: "publication \<Rightarrow> pyobj list \<Rightarrow> (string, string) dict \<Rightarrow> (string \<times> path) io" where
  "publish_dataset a rows files = in_staging a
     (io_seq (io_for (\<lambda>(n, b). io_write (p_staging a @ [n]) b) files)
     (io_bind (io_read (p_staging a @ [''golden_manifest.json''])) (\<lambda>manifest.
        atomic_publish_versioned_release (candidate_publication a rows files (sha256_hex manifest)))))"

definition generate_and_freeze_golden_release ::
  "publication \<Rightarrow> retriever \<Rightarrow> path \<Rightarrow> path option \<Rightarrow> pyobj list \<Rightarrow> pyobj list \<Rightarrow> pyobj list \<Rightarrow>
    world \<Rightarrow> ((path \<times> path) result \<times> world) option" where
  "generate_and_freeze_golden_release a retrieve base review_path tier_a tier_b tier_c w =
     map_option (\<lambda>gated.
       io_bind (io_seq io_call (io_of_result gated)) (\<lambda>(rows, files).
       io_bind (publish_dataset a rows files) (\<lambda>(_, dir).
         io_return (dir @ [''golden_1039.jsonl''], dir @ [''golden_manifest.json'']))) w)
       (gated_dataset retrieve base
         (case review_path of Some p \<Rightarrow> p | None \<Rightarrow> p_output a @ [''tier_c_review.json''])
         tier_a tier_b tier_c (present w))"

section \<open>Every run ends\<close>

lemma groups_or_error: "edges_to_apply (Some es) None = Ok es"
  by (simp add: edges_to_apply_def)

lemma build_components_total: "build_g8_components rows (Some es) None \<noteq> None"
proof (cases "groups_of rows")
  case (Ok groups)
  from build_g8_components_partition [OF this groups_or_error] show ?thesis by force
next
  case (Raise e)
  then show ?thesis by (simp add: build_g8_components_def)
qed

lemma build_dataset_total: "build_full_golden_dataset tier_a tier_b tier_c fs base \<noteq> None"
  by (simp add: build_full_golden_dataset_def Let_def build_components_total bind_eq_None_conv not_None_eq [symmetric]
      split: result.splits del: not_None_eq)

lemma gated_dataset_total: "gated_dataset retrieve base review_path tier_a tier_b tier_c fs \<noteq> None"
  using build_dataset_total by (simp add: gated_dataset_def del: not_None_eq)

lemma generation_total:
  "generate_and_freeze_golden_release a retrieve base review_path tier_a tier_b tier_c w \<noteq> None"
  using gated_dataset_total by (simp add: generate_and_freeze_golden_release_def del: not_None_eq)


section \<open>What is published passed the gates\<close>

definition gates_passed ::
  "retriever \<Rightarrow> path \<Rightarrow> path \<Rightarrow> pyobj list \<Rightarrow> pyobj list \<Rightarrow> pyobj list \<Rightarrow> fs \<Rightarrow> bool" where
  "gates_passed retrieve base review_path tier_a tier_b tier_c fs \<longleftrightarrow>
     (\<exists>rows0 components assignment rows summary audit judgments msgs.
        build_full_golden_dataset tier_a tier_b tier_c fs base = Some (Ok (rows0, components, assignment)) \<and>
        run_anti_leak_gate retrieve fs base rows0 = Ok (rows, summary, audit) \<and>
        judge_rows fs base review_path rows = Ok judgments \<and> messages_by_id fs (messages_file base) = Ok msgs \<and>
        covers judgments (multi_hop_rows rows) \<and>
        list_all (\<lambda>rec. list_ex (\<lambda>row. record_sound (Some msgs) row rec) (multi_hop_rows rows)) judgments)"

lemma gated_dataset_passed:
  assumes "gated_dataset retrieve base review_path tier_a tier_b tier_c fs = Some (Ok x)"
  shows "gates_passed retrieve base review_path tier_a tier_b tier_c fs"
proof -
  from assms obtain built where b: "build_full_golden_dataset tier_a tier_b tier_c fs base = Some built"
    and run: "rbind built (\<lambda>(rows0, components, assignment).
        rbind (run_anti_leak_gate retrieve fs base rows0) (\<lambda>(rows, summary, audit).
        rbind (judge_rows fs base review_path rows) (\<lambda>judgments.
        rbind (candidate_files rows components assignment summary audit judgments) (\<lambda>files.
          Ok (rows, files))))) = Ok x"
    by (auto simp: gated_dataset_def split: if_splits)
  then obtain rows0 components assignment rows summary audit judgments where
    g: "built = Ok (rows0, components, assignment)" "run_anti_leak_gate retrieve fs base rows0 = Ok (rows, summary, audit)"
      "judge_rows fs base review_path rows = Ok judgments"
    by (auto simp: rbind_Ok_iff)
  from g(3) obtain msgs where "messages_by_id fs (messages_file base) = Ok msgs"
    "validate_multi_hop_judgment judgments rows (Some msgs) = Ok ()"
    by (auto simp: judge_rows_def Let_def rbind_Ok_iff)
  then show ?thesis
    using b g unfolding gates_passed_def judgment_Ok_iff list_all_iff list_ex_iff
    by (intro exI conjI) (assumption | simp)+
qed

text \<open>
  C34: A generation changes no file unless the dataset was built, passed the anti-leak gate, and
  every multi-hop row got one judgment that is sound against the message corpus.
\<close>

theorem generation_requires_gates:
  assumes "generate_and_freeze_golden_release a retrieve base review_path tier_a tier_b tier_c (start fs0 fl) = Some (res, w)"
    and "fs \<in> set (states w)"
  shows "fs = fs0 \<or> gates_passed retrieve base
    (case review_path of Some p \<Rightarrow> p | None \<Rightarrow> p_output a @ [''tier_c_review.json'']) tier_a tier_b tier_c fs0"
proof (rule disjCI)
  let ?gated = "gated_dataset retrieve base
    (case review_path of Some p \<Rightarrow> p | None \<Rightarrow> p_output a @ [''tier_c_review.json'']) tier_a tier_b tier_c fs0"
  assume no: "\<not> gates_passed retrieve base
    (case review_path of Some p \<Rightarrow> p | None \<Rightarrow> p_output a @ [''tier_c_review.json'']) tier_a tier_b tier_c fs0"
  obtain e where e: "?gated = Some (Raise e)"
    using gated_dataset_total gated_dataset_passed no by (metis option.exhaust result.exhaust)
  have "triple (holds False (\<lambda>fs. fs = fs0) (\<lambda>fs. fs = fs0)) (io_seq io_call (io_of_result (Raise e :: (pyobj list \<times> (string, string) dict) result)))
      (\<lambda>_ _. False) (holds False (\<lambda>fs. fs = fs0) (\<lambda>fs. fs = fs0))"
  proof (rule triple_seq)
    show "triple (holds False (\<lambda>fs. fs = fs0) (\<lambda>fs. fs = fs0)) io_call (\<lambda>_. holds False (\<lambda>fs. fs = fs0) (\<lambda>fs. fs = fs0))
      (holds False (\<lambda>fs. fs = fs0) (\<lambda>fs. fs = fs0))" by (rule triple_conseq [OF triple_call]) auto
  qed (simp add: io_of_result_def triple_def io_raise_def)
  note t = triple_bind [OF this, of "\<lambda>(rows, files). io_bind (publish_dataset a rows files) (\<lambda>(_, dir).
         io_return (dir @ [''golden_1039.jsonl''], dir @ [''golden_manifest.json'']))" "\<lambda>_ _. False"]
  have t: "triple (holds False (\<lambda>fs. fs = fs0) (\<lambda>fs. fs = fs0))
      (io_bind (io_seq io_call (io_of_result (Raise e))) (\<lambda>(rows, files). io_bind (publish_dataset a rows files) (\<lambda>(_, dir).
         io_return (dir @ [''golden_1039.jsonl''], dir @ [''golden_manifest.json'']))))
      (\<lambda>_ _. False) (holds False (\<lambda>fs. fs = fs0) (\<lambda>fs. fs = fs0))"
    by (rule t) (simp add: triple_def)
  have pre: "holds False (\<lambda>fs. fs = fs0) (\<lambda>fs. fs = fs0) (start fs0 fl)" by (simp add: holds_def start_def states_def)
  have run: "io_bind (io_seq io_call (io_of_result (Raise e))) (\<lambda>(rows, files). io_bind (publish_dataset a rows files) (\<lambda>(_, dir).
         io_return (dir @ [''golden_1039.jsonl''], dir @ [''golden_manifest.json'']))) (start fs0 fl) = (res, w)"
    using assms(1) e by (simp add: generate_and_freeze_golden_release_def start_def)
  show "fs = fs0"
    using tripleD [OF t pre] run assms(2) by (cases res) (auto simp: holds_def list_all_iff)
qed

theorem generation_requires_gates_witness:
  "\<exists>res w. generate_and_freeze_golden_release (sample_publication ''1'') sample_retriever [''r''] None gold_sample [] []
      (start edge_sample []) = Some (res, w) \<and> (\<forall>fs \<in> set (states w). fs = edge_sample)"
proof -
  obtain res w where run: "generate_and_freeze_golden_release (sample_publication ''1'') sample_retriever [''r''] None
      gold_sample [] [] (start edge_sample []) = Some (res, w)"
    using generation_total by fastforce
  have "messages_by_id edge_sample (messages_file [''r'']) \<noteq> Ok ms" for ms
    by (simp add: messages_by_id_def read_messages_def fs_read_def edge_sample_def)
  then have "\<not> gates_passed sample_retriever [''r''] p gold_sample [] [] edge_sample" for p
    by (simp add: gates_passed_def)
  then have "fs = edge_sample" if "fs \<in> set (states w)" for fs
    using generation_requires_gates [OF run that] by blast
  with run show ?thesis by blast
qed

end
