(* ===== verification/Visual_Clusters.thy ===== *)
theory Visual_Clusters
  imports Union_Find Py_Files Sha256 "HOL-Library.Word"
begin

text \<open>
  The visual artifact (\<^verbatim>\<open>src/artifacts/visual/pipeline.py\<close>): its media rows and the hash that binds an
  artifact to them, the perceptual hash's bits and their distance, and the near-duplicate clusters.
  The lemmas show that the hash input depends on the set of media only, and that two media share a
  cluster exactly when near-duplicate edges connect them.
\<close>

unbundle bit_operations_syntax

section \<open>Media rows\<close>

record media_row =
  media_id :: string
  channel_id :: string
  parent_message_id :: string
  content_sha256 :: string
  storage_object_ref :: string

definition read_jsonl :: "fs \<Rightarrow> path \<Rightarrow> pyobj list result" where
  "read_jsonl fs p =
     rbind (fs_read_text fs p) (\<lambda>content. mapM loads_object (filter (\<lambda>line. line \<noteq> []) (splitlines content)))"

definition media_row_of :: "pyobj \<Rightarrow> media_row result" where
  "media_row_of row =
     rbind (str_item row ''media_id'') (\<lambda>mid.
     rbind (str_item row ''channel_id'') (\<lambda>cid.
     rbind (str_item row ''parent_message_id'') (\<lambda>pid.
     rbind (str_item row ''content_sha256'') (\<lambda>sha.
     rbind (str_item row ''storage_object_ref'') (\<lambda>ref.
       Ok \<lparr>media_id = mid, channel_id = cid, parent_message_id = pid, content_sha256 = sha,
           storage_object_ref = ref\<rparr>)))))"

definition media_rows :: "fs \<Rightarrow> path \<Rightarrow> media_row list result" where
  "media_rows fs processed_dir =
     rbind (read_jsonl fs (processed_dir @ [''media.jsonl''])) (\<lambda>objs.
     rbind (mapM media_row_of objs) (\<lambda>rows. Ok (sort_key media_id rows)))"

definition media_payload :: "media_row list \<Rightarrow> json" where
  "media_payload rows =
     JArr (map (\<lambda>r. JArr [JStr (media_id r), JStr (content_sha256 r), JStr (storage_object_ref r)])
       (sort_key media_id rows))"

definition media_input_manifest_sha256 :: "media_row list \<Rightarrow> string" where
  "media_input_manifest_sha256 rows = sha256_hex (utf8_encode (dumps js_compact (media_payload rows)))"

text \<open>The hash input holds the media ids, contents and references, and nothing of their order.\<close>

abbreviation identity :: "media_row \<Rightarrow> string \<times> string \<times> string" where
  "identity r \<equiv> (media_id r, content_sha256 r, storage_object_ref r)"

lemma media_payload_perm:
  assumes "distinct (map media_id rows)" "distinct (map media_id rows')"
    "set (map identity rows) = set (map identity rows')"
  shows "media_payload rows = media_payload rows'"
proof -
  have d: "distinct (map identity xs)" if "distinct (map media_id xs)" for xs
    using that by (induction xs) auto
  have s: "map identity (sort_key media_id xs) = sort_key fst (map identity xs)" for xs
    by (rule map_sort_key) simp
  have "mset (map identity rows) = mset (map identity rows')"
    by (rule set_eq_iff_mset_eq_distinct [THEN iffD1, OF d d]) (rule assms)+
  then have "mset (map identity rows) = mset (sort_key fst (map identity rows'))" by simp
  moreover have "inj_on fst (set (map identity rows))"
    using assms(1) by (auto simp: inj_on_def distinct_map)
  ultimately have "sort_key fst (map identity rows) = sort_key fst (map identity rows')"
    by (rule sort_key_inj_key_eq) simp
  then have "map identity (sort_key media_id rows) = map identity (sort_key media_id rows')" by (simp only: s)
  then have "map (\<lambda>p. JArr [JStr (fst p), JStr (fst (snd p)), JStr (snd (snd p))]) (map identity (sort_key media_id rows)) =
      map (\<lambda>p. JArr [JStr (fst p), JStr (fst (snd p)), JStr (snd (snd p))]) (map identity (sort_key media_id rows'))"
    by (simp only:)
  then show ?thesis unfolding media_payload_def map_map by (simp only: comp_def fst_conv snd_conv)
qed

lemma media_payload_inj:
  assumes "media_payload rows = media_payload rows'"
  shows "set (map identity rows) = set (map identity rows')"
proof -
  let ?cell = "\<lambda>p. JArr [JStr (fst p), JStr (fst (snd p)), JStr (snd (snd p))]"
  have payload: "media_payload xs = JArr (map ?cell (map identity (sort_key media_id xs)))" for xs
    by (simp add: media_payload_def)
  have inj: "inj ?cell" by (rule injI) (simp add: prod_eq_iff)
  have "map ?cell (map identity (sort_key media_id rows)) = map ?cell (map identity (sort_key media_id rows'))"
    using assms unfolding payload by (simp only: json.inject)
  then have "map identity (sort_key media_id rows) = map identity (sort_key media_id rows')"
    by (rule inj_map_eq_map [THEN iffD1, OF inj])
  then have "set (map identity (sort_key media_id rows)) = set (map identity (sort_key media_id rows'))" by (simp only:)
  then show ?thesis by (simp only: set_map set_sort)
qed

section \<open>Perceptual hashes\<close>

text \<open>
  The hash from the 64 low frequencies of the transformed image, row by row: one bit for each
  frequency above the median of all but the first.
\<close>

definition median_low :: "rat list \<Rightarrow> rat" where
  "median_low low = sort (tl low) ! (length (tl low) div 2)"

definition phash_bits :: "rat list \<Rightarrow> bool list" where
  "phash_bits low = map (\<lambda>x. median_low low < x) low"

definition bits_value :: "bool list \<Rightarrow> nat" where
  "bits_value bits = foldl (\<lambda>value bit. push_bit 1 value OR of_bool bit) 0 bits"

definition low_hash :: "rat list \<Rightarrow> nat" where
  "low_hash low = bits_value (phash_bits low)"

fun bit_count :: "nat \<Rightarrow> nat" where
  "bit_count n = (if n = 0 then 0 else of_bool (odd n) + bit_count (n div 2))"

declare bit_count.simps [simp del]

definition hamming :: "nat \<Rightarrow> nat \<Rightarrow> nat" where
  "hamming left right = bit_count (left XOR right)"

lemma shift_in_bit: "push_bit 1 v OR of_bool b = 2 * v + (of_bool b :: nat)"
proof (cases b)
  case True
  then have "push_bit 1 v OR of_bool b = 2 * v OR 1" by (simp add: push_bit_eq_mult mult.commute)
  also have "\<dots> = 2 * v + of_bool (even (2 * v))" by (rule or_one_eq)
  finally show ?thesis using True by simp
qed (simp add: push_bit_eq_mult mult.commute)

lemma bits_value_snoc: "bits_value (bits @ [b]) = 2 * bits_value bits + of_bool b"
  unfolding bits_value_def foldl_append foldl.simps by (rule shift_in_bit)

lemma bits_value_bound: "bits_value bits < 2 ^ length bits"
proof (induction bits rule: rev_induct)
  case Nil
  then show ?case by (simp add: bits_value_def)
next
  case (snoc b bits)
  then show ?case by (cases b) (simp_all add: bits_value_snoc)
qed

lemma bit_count_rec: "bit_count (2 * n + of_bool b) = bit_count n + of_bool b"
  by (cases "n = 0"; cases b) (simp_all add: bit_count.simps [of "2 * n"] bit_count.simps [of "Suc (2 * n)"] bit_count.simps)

lemma xor_rec: "(2 * m + of_bool a) XOR (2 * n + of_bool b) = 2 * (m XOR n) + (of_bool (a \<noteq> b) :: nat)"
  by (cases a; cases b) (simp_all add: xor_rec [of "2 * m" "2 * n"] xor_rec [of "Suc (2 * m)" "2 * n"]
    xor_rec [of "2 * m" "Suc (2 * n)"] xor_rec [of "Suc (2 * m)" "Suc (2 * n)"])

lemma hamming_bits:
  "length as = length bs \<Longrightarrow>
    hamming (bits_value as) (bits_value bs) = length (filter (\<lambda>(a, b). a \<noteq> b) (zip as bs))"
proof (induction as arbitrary: bs rule: rev_induct)
  case Nil
  then show ?case by (simp add: hamming_def bits_value_def bit_count.simps)
next
  case (snoc a as)
  then obtain b bs' where bs: "bs = bs' @ [b]" by (cases bs rule: rev_cases) auto
  with snoc have IH: "hamming (bits_value as) (bits_value bs') = length (filter (\<lambda>(a, b). a \<noteq> b) (zip as bs'))" by simp
  have "hamming (bits_value (as @ [a])) (bits_value (bs' @ [b])) = hamming (bits_value as) (bits_value bs') + of_bool (a \<noteq> b)"
    by (simp only: hamming_def bits_value_snoc xor_rec bit_count_rec)
  then show ?case using IH snoc.prems by (simp add: bs)
qed

section \<open>Near-duplicate clusters\<close>

record visual_edge =
  left_media_id :: string
  right_media_id :: string
  cosine :: rat
  phash_distance :: nat
  sources :: "string list"

record cluster_stats =
  cluster_size_histogram :: "(nat, nat) dict"
  cosine_edges :: nat
  phash_edges :: nat
  both_edges :: nat
  singletons :: nat

definition edge_sources :: "rat \<Rightarrow> nat \<Rightarrow> rat \<Rightarrow> int \<Rightarrow> string list" where
  "edge_sources score distance dup_threshold phash_threshold =
     (if dup_threshold \<le> score then [''cosine''] else []) @
     (if int distance \<le> phash_threshold then [''phash''] else [])"

definition index_pairs :: "nat \<Rightarrow> (nat \<times> nat) list" where
  "index_pairs n = concat (map (\<lambda>left. map (\<lambda>right. (left, right)) [Suc left..<n]) [0..<n])"

text \<open>
  The double loop: \<open>similarity\<close> is the matrix product \<^verbatim>\<open>matrix @ matrix.T\<close> of the encoder's rows.
\<close>

definition visual_edges ::
  "media_row list \<Rightarrow> (nat \<Rightarrow> nat \<Rightarrow> rat) \<Rightarrow> nat list \<Rightarrow> rat \<Rightarrow> int \<Rightarrow> visual_edge list" where
  "visual_edges rows similarity phashes dup_threshold phash_threshold =
     concat (map (\<lambda>(left, right).
        let score = similarity left right; distance = hamming (phashes ! left) (phashes ! right);
            srcs = edge_sources score distance dup_threshold phash_threshold in
        if srcs = [] then []
        else [\<lparr>left_media_id = media_id (rows ! left), right_media_id = media_id (rows ! right),
               cosine = score, phash_distance = distance, sources = srcs\<rparr>]) (index_pairs (length rows)))"

text \<open>The members of each class in the order of their least id, numbered from one.\<close>

definition cluster_ids :: "(string, string list) dict \<Rightarrow> (string, string) dict" where
  "cluster_ids members =
     dict_of (concat (map (\<lambda>(number, media_ids).
         map (\<lambda>media_id. (media_id, ''visual-cluster-'' @ zero_pad 5 number)) (sort media_ids))
       (List.enumerate 1 (sort_key (\<lambda>values. Min (set values)) (map snd members)))))"

definition stats_of :: "(string, string) dict \<Rightarrow> visual_edge list \<Rightarrow> cluster_stats" where
  "stats_of ids edges =
     (let histogram = counter_of (map snd ids) in
      \<lparr>cluster_size_histogram = sort_key fst (counter_of (map snd histogram)),
       cosine_edges = length (filter (\<lambda>e. ''cosine'' \<in> set (sources e)) edges),
       phash_edges = length (filter (\<lambda>e. ''phash'' \<in> set (sources e)) edges),
       both_edges = length (filter (\<lambda>e. length (sources e) = 2) edges),
       singletons = length (filter (\<lambda>(_, size). size = 1) histogram)\<rparr>)"

definition clusters_and_edges ::
  "media_row list \<Rightarrow> (nat \<Rightarrow> nat \<Rightarrow> rat) \<Rightarrow> nat list \<Rightarrow> rat \<Rightarrow> int \<Rightarrow>
    ((string \<times> string) list \<times> visual_edge list \<times> cluster_stats) result option" where
  "clusters_and_edges rows similarity phashes dup_threshold phash_threshold =
     (if length phashes < length rows \<and> 1 < length rows then Some (Raise IndexError)
      else
        let edges = visual_edges rows similarity phashes dup_threshold phash_threshold;
            ids = map media_id rows in
        Option.bind (union_all visual_union (visual_init ids) (map (\<lambda>e. (left_media_id e, right_media_id e)) edges))
          (\<lambda>r. case r of
             Raise err \<Rightarrow> Some (Raise err)
           | Ok uf \<Rightarrow> Option.bind (classes_of visual_find uf [] ids) (\<lambda>r'. Some
               (rbind r' (\<lambda>members.
                  let by_media = cluster_ids members in
                  rbind (mapM (\<lambda>i. rbind (dict_item by_media i) (\<lambda>c. Ok (i, c))) ids) (\<lambda>clusters.
                    Ok (clusters, edges, stats_of by_media edges)))))))"

text \<open>Two media are near duplicates when their vectors or their hashes are close.\<close>

definition near_duplicate ::
  "media_row list \<Rightarrow> (nat \<Rightarrow> nat \<Rightarrow> rat) \<Rightarrow> nat list \<Rightarrow> rat \<Rightarrow> int \<Rightarrow> nat \<Rightarrow> nat \<Rightarrow> bool" where
  "near_duplicate rows similarity phashes dup_threshold phash_threshold left right \<longleftrightarrow>
     left < right \<and> right < length rows \<and>
     (dup_threshold \<le> similarity left right \<or>
      int (hamming (phashes ! left) (phashes ! right)) \<le> phash_threshold)"

lemma in_index_pairs: "(l, r) \<in> set (index_pairs n) \<longleftrightarrow> l < r \<and> r < n"
  by (force simp: index_pairs_def)

lemma in_visual_edges:
  "(a, b) \<in> set (map (\<lambda>e. (left_media_id e, right_media_id e)) (visual_edges rows sim phashes dup phash)) \<longleftrightarrow>
    (\<exists>l r. near_duplicate rows sim phashes dup phash l r \<and> a = media_id (rows ! l) \<and> b = media_id (rows ! r))"
proof -
  have "(a, b) \<in> set (map (\<lambda>e. (left_media_id e, right_media_id e)) (visual_edges rows sim phashes dup phash)) \<longleftrightarrow>
    (\<exists>l r. (l, r) \<in> set (index_pairs (length rows)) \<and>
      edge_sources (sim l r) (hamming (phashes ! l) (phashes ! r)) dup phash \<noteq> [] \<and>
      a = media_id (rows ! l) \<and> b = media_id (rows ! r))"
    by (force simp: visual_edges_def Let_def split: if_splits)
  also have "\<dots> \<longleftrightarrow> (\<exists>l r. near_duplicate rows sim phashes dup phash l r \<and> a = media_id (rows ! l) \<and> b = media_id (rows ! r))"
    by (auto simp: in_index_pairs near_duplicate_def edge_sources_def)
  finally show ?thesis .
qed

text \<open>Grouping keeps every element once.\<close>

lemma mset_dict_append:
  "wf_dict d \<Longrightarrow> mset (concat (map snd (dict_append k v d))) = add_mset v (mset (concat (map snd d)))"
proof (induction d)
  case Nil
  then show ?case by (simp add: dict_append_def dict_get_def)
next
  case (Cons p d)
  obtain k' vs where p: "p = (k', vs)" by (cases p)
  show ?case
  proof (cases "k' = k")
    case True
    then show ?thesis by (simp add: p dict_append_def dict_get_def)
  next
    case False
    then have "dict_append k v ((k', vs) # d) = (k', vs) # dict_append k v d"
      by (simp add: dict_append_def dict_get_def)
    with Cons show ?thesis by (simp add: p)
  qed
qed

lemma mset_group_by: "mset (concat (map snd (group_by f xs))) = mset xs"
proof (induction xs rule: rev_induct)
  case Nil
  then show ?case by (simp add: group_by_def)
next
  case (snoc x xs)
  then show ?case by (simp add: group_by_snoc mset_dict_append)
qed

lemma mset_concat_sort: "mset (concat (map sort (sort_key h xss))) = mset (concat xss)"
  by (simp add: mset_concat image_mset.compositionality comp_def flip: mset_map)
    (metis mset_map mset_sort sum_mset_sum_list)

lemma distinct_nth_concat:
  assumes "distinct (concat xss)" "i < length xss" "j < length xss" "x \<in> set (xss ! i)" "x \<in> set (xss ! j)"
  shows "i = j"
  using assms
proof (induction xss arbitrary: i j)
  case (Cons xs xss)
  then show ?case by (cases i; cases j) (auto, (metis IntI UN_I emptyE nth_mem)+)
qed simp

text \<open>The entries of a numbering of classes.\<close>

lemma keys_numbering:
  "map fst (concat (map (\<lambda>(n, ids). map (\<lambda>m. (m, g n)) (h ids)) (List.enumerate k xss))) = concat (map h xss)"
  by (induction xss arbitrary: k) (simp_all add: comp_def)

lemma in_numbering:
  "(m, v) \<in> set (concat (map (\<lambda>(n, ids). map (\<lambda>m. (m, g n)) (h ids)) (List.enumerate k xss))) \<longleftrightarrow>
    (\<exists>i < length xss. m \<in> set (h (xss ! i)) \<and> v = g (k + i))"
proof (induction xss arbitrary: k)
  case (Cons xs xss)
  then show ?case by (auto simp: less_Suc_eq_0_disj)
qed simp

text \<open>The number a class gets names it: members of one class share it, members of two do not.\<close>

lemma cluster_ids_spec:
  assumes dist: "distinct xs"
  obtains label where "\<And>x. x \<in> set xs \<Longrightarrow> map_of (cluster_ids (group_by f xs)) x = Some (label x)"
    "\<And>x y. x \<in> set xs \<Longrightarrow> y \<in> set xs \<Longrightarrow> label x = label y \<longleftrightarrow> f x = f y"
    "mset (dict_keys (cluster_ids (group_by f xs))) = mset xs"
proof -
  define ms where "ms = sort_key (\<lambda>vs. Min (set vs)) (map snd (group_by f xs))"
  define name where "name n = ''visual-cluster-'' @ zero_pad 5 n" for n
  define kvs where "kvs = concat (map (\<lambda>(n, ids). map (\<lambda>m. (m, name n)) (sort ids)) (List.enumerate 1 ms))"
  have name_inj: "name n = name n' \<longleftrightarrow> n = n'" for n n' by (simp add: name_def zero_pad_inj)
  have perm: "mset (concat (map sort ms)) = mset xs" unfolding ms_def by (simp only: mset_concat_sort mset_group_by)
  have keys: "map fst kvs = concat (map sort ms)" unfolding kvs_def by (rule keys_numbering)
  have wf: "wf_dict kvs" unfolding keys using dist perm by (metis mset_eq_imp_distinct_iff)
  have dist_ms: "distinct (concat (map sort ms))" using wf keys by simp
  have ids: "cluster_ids (group_by f xs) = kvs"
    using dict_of_id [OF wf] by (simp only: cluster_ids_def kvs_def name_def ms_def)
  have entry: "map_of kvs x = Some v \<longleftrightarrow> (\<exists>i < length ms. x \<in> set (ms ! i) \<and> v = name (Suc i))" for x v
    unfolding map_of_eq_Some_iff [OF wf] unfolding kvs_def in_numbering by simp
  have ex: "\<exists>i < length ms. x \<in> set (ms ! i)" if "x \<in> set xs" for x
  proof -
    have "x \<in> set (concat (map sort ms))" using that perm by (metis set_mset_mset)
    then show ?thesis by (auto simp: in_set_conv_nth [of _ ms])
  qed
  have one: "i = j" if "x \<in> set (ms ! i)" "x \<in> set (ms ! j)" "i < length ms" "j < length ms" for x i j
    using distinct_nth_concat [OF dist_ms, of i j x] that by simp
  have cls: "set (ms ! i) = {y \<in> set xs. f y = f x}" if "i < length ms" "x \<in> set (ms ! i)" for i x
  proof -
    have "ms ! i \<in> snd ` set (group_by f xs)" using nth_mem [OF that(1)] by (simp add: ms_def)
    then obtain k where "(k, ms ! i) \<in> set (group_by f xs)" by auto
    then have "ms ! i = filter (\<lambda>y. f y = k) xs" by (simp add: in_group_by_iff)
    then show ?thesis using that(2) by auto
  qed
  define label where "label x = the (map_of kvs x)" for x
  have label: "map_of kvs x = Some (label x)" if "x \<in> set xs" for x
    using ex [OF that] entry [of x] by (force simp: label_def)
  show ?thesis
  proof (rule that)
    show "map_of (cluster_ids (group_by f xs)) x = Some (label x)" if "x \<in> set xs" for x
      unfolding ids by (rule label [OF that])
    show "mset (dict_keys (cluster_ids (group_by f xs))) = mset xs" unfolding ids keys by (rule perm)
    fix x y assume xy: "x \<in> set xs" "y \<in> set xs"
    obtain i where i: "i < length ms" "x \<in> set (ms ! i)" "label x = name (Suc i)" using label [OF xy(1)] entry by blast
    obtain j where j: "j < length ms" "y \<in> set (ms ! j)" "label y = name (Suc j)" using label [OF xy(2)] entry by blast
    have "label x = label y \<longleftrightarrow> i = j" by (simp add: i(3) j(3) name_inj)
    also have "\<dots> \<longleftrightarrow> y \<in> set (ms ! i)" using one [OF _ j(2) i(1) j(1)] j(2) by auto
    also have "\<dots> \<longleftrightarrow> f x = f y" unfolding cls [OF i(1,2)] using xy(2) by auto
    finally show "label x = label y \<longleftrightarrow> f x = f y" .
  qed
qed

lemma clusters_total:
  assumes dist: "distinct (map media_id rows)" and len: "\<not> (length phashes < length rows \<and> 1 < length rows)"
  obtains clusters label where
    "clusters_and_edges rows sim phashes dup phash =
       Some (Ok (clusters, visual_edges rows sim phashes dup phash,
         stats_of (cluster_ids (group_by label (map media_id rows))) (visual_edges rows sim phashes dup phash)))"
    "map fst clusters = map media_id rows"
    "\<And>p q. p \<in> set clusters \<Longrightarrow> q \<in> set clusters \<Longrightarrow> snd p = snd q \<longleftrightarrow>
       connected (map (\<lambda>e. (left_media_id e, right_media_id e)) (visual_edges rows sim phashes dup phash)) (fst p) (fst q)"
proof -
  let ?ids = "map media_id rows"
  let ?es = "map (\<lambda>e. (left_media_id e, right_media_id e)) (visual_edges rows sim phashes dup phash)"
  have known: "\<forall>(u, v) \<in> set ?es. u \<in> set ?ids \<and> v \<in> set ?ids"
  proof (intro ballI, clarify)
    fix u v assume "(u, v) \<in> set ?es"
    then obtain l r where "near_duplicate rows sim phashes dup phash l r" "u = media_id (rows ! l)" "v = media_id (rows ! r)"
      unfolding in_visual_edges by blast
    then show "u \<in> set ?ids \<and> v \<in> set ?ids" by (simp add: near_duplicate_def)
  qed
  obtain s f where s: "union_all visual_union (visual_init ?ids) ?es = Some (Ok s)"
    "classes_of visual_find s [] ?ids = Some (Ok (group_by f ?ids))"
    "\<And>a b. a \<in> set ?ids \<Longrightarrow> b \<in> set ?ids \<Longrightarrow> f a = f b \<longleftrightarrow> connected ?es a b"
    by (rule visual.build_classes [OF known], rule that)
  obtain label where label: "\<And>x. x \<in> set ?ids \<Longrightarrow> map_of (cluster_ids (group_by f ?ids)) x = Some (label x)"
    "\<And>x y. x \<in> set ?ids \<Longrightarrow> y \<in> set ?ids \<Longrightarrow> label x = label y \<longleftrightarrow> f x = f y"
    by (rule cluster_ids_spec [OF dist, of f], rule that)
  have clusters: "mapM (\<lambda>i. rbind (dict_item (cluster_ids (group_by f ?ids)) i) (\<lambda>c. Ok (i, c))) ?ids =
      Ok (map (\<lambda>i. (i, label i)) ?ids)"
    by (rule mapM_Ok_map) (simp add: dict_item_def label(1))
  show ?thesis
  proof (rule that [of "map (\<lambda>i. (i, label i)) ?ids" f])
    show "clusters_and_edges rows sim phashes dup phash = Some (Ok (map (\<lambda>i. (i, label i)) ?ids,
        visual_edges rows sim phashes dup phash,
        stats_of (cluster_ids (group_by f ?ids)) (visual_edges rows sim phashes dup phash)))"
      unfolding clusters_and_edges_def Let_def using len clusters by (simp add: s(1,2))
    show "map fst (map (\<lambda>i. (i, label i)) ?ids) = ?ids" by (simp add: comp_def)
    fix p q assume "p \<in> set (map (\<lambda>i. (i, label i)) ?ids)" "q \<in> set (map (\<lambda>i. (i, label i)) ?ids)"
    then obtain a b where ab: "a \<in> set ?ids" "b \<in> set ?ids" "p = (a, label a)" "q = (b, label b)" by auto
    show "snd p = snd q \<longleftrightarrow> connected ?es (fst p) (fst q)"
      using label(2) [OF ab(1,2)] s(3) [OF ab(1,2)] by (simp add: ab)
  qed
qed

text \<open>
  C17: On distinct media ids the near-duplicate clustering returns, and two media have the same
  cluster id exactly when a chain of near-duplicate pairs (cosine or hash distance within the
  thresholds) joins them.
\<close>

theorem visual_clusters_connected:
  assumes "distinct (map media_id rows)" "length rows \<le> length phashes"
  shows "\<exists>clusters edges stats. clusters_and_edges rows sim phashes dup phash = Some (Ok (clusters, edges, stats)) \<and>
    map fst clusters = map media_id rows \<and>
    (\<forall>a b. (a, b) \<in> set (map (\<lambda>e. (left_media_id e, right_media_id e)) edges) \<longleftrightarrow>
      (\<exists>l r. near_duplicate rows sim phashes dup phash l r \<and> a = media_id (rows ! l) \<and> b = media_id (rows ! r))) \<and>
    (\<forall>p \<in> set clusters. \<forall>q \<in> set clusters. snd p = snd q \<longleftrightarrow>
      connected (map (\<lambda>e. (left_media_id e, right_media_id e)) edges) (fst p) (fst q))"
proof -
  obtain clusters label where c: "clusters_and_edges rows sim phashes dup phash =
       Some (Ok (clusters, visual_edges rows sim phashes dup phash,
         stats_of (cluster_ids (group_by label (map media_id rows))) (visual_edges rows sim phashes dup phash)))"
    "map fst clusters = map media_id rows"
    "\<And>p q. p \<in> set clusters \<Longrightarrow> q \<in> set clusters \<Longrightarrow> snd p = snd q \<longleftrightarrow>
       connected (map (\<lambda>e. (left_media_id e, right_media_id e)) (visual_edges rows sim phashes dup phash)) (fst p) (fst q)"
    by (rule clusters_total [OF assms(1), of phashes sim dup phash]) (use assms(2) in auto)
  show ?thesis
  proof (intro exI conjI allI ballI)
    fix p q assume "p \<in> set clusters" "q \<in> set clusters"
    then show "snd p = snd q \<longleftrightarrow>
       connected (map (\<lambda>e. (left_media_id e, right_media_id e)) (visual_edges rows sim phashes dup phash)) (fst p) (fst q)"
      by (rule c(3))
  qed (rule c(1,2) in_visual_edges)+
qed

text \<open>The statistics account for every medium once.\<close>

lemma sum_sort_key: "sum_list (map g (sort_key f xs)) = (sum_list (map g xs) :: nat)"
  by (metis mset_map mset_sort sum_mset_sum_list)

lemma stats_sum:
  "sum_list (map (\<lambda>(size, n). size * n) (cluster_size_histogram (stats_of ids edges))) = length ids"
proof -
  have one: "sum_list (map snd (counter_of (map snd ids))) = length ids"
    using sum_counter_of [of "\<lambda>_. 1" "map snd ids"] by (simp add: sum_list_triv comp_def case_prod_beta')
  have "sum_list (map (\<lambda>(size, n). size * n) (cluster_size_histogram (stats_of ids edges))) =
      sum_list (map (\<lambda>(k, n). k * n) (counter_of (map snd (counter_of (map snd ids)))))"
    by (simp add: stats_of_def Let_def sum_sort_key)
  also have "\<dots> = sum_list (map snd (counter_of (map snd ids)))"
    using sum_counter_of [of "\<lambda>k. k"] by simp
  finally show ?thesis using one by simp
qed

theorem cluster_histogram_counts_media:
  assumes "distinct (map media_id rows)" "clusters_and_edges rows sim phashes dup phash = Some (Ok (clusters, edges, stats))"
  shows "sum_list (map (\<lambda>(size, n). size * n) (cluster_size_histogram stats)) = length rows"
proof -
  let ?edges = "visual_edges rows sim phashes dup phash"
  have len: "\<not> (length phashes < length rows \<and> 1 < length rows)" using assms(2) by (auto simp: clusters_and_edges_def)
  obtain clusters' label where "clusters_and_edges rows sim phashes dup phash =
       Some (Ok (clusters', ?edges, stats_of (cluster_ids (group_by label (map media_id rows))) ?edges))"
    by (rule clusters_total [OF assms(1) len, of sim dup phash])
  then have stats: "stats = stats_of (cluster_ids (group_by label (map media_id rows))) ?edges"
    unfolding assms(2) option.inject result.inject prod.inject by blast
  have "mset (dict_keys (cluster_ids (group_by label (map media_id rows)))) = mset (map media_id rows)"
    by (rule cluster_ids_spec [OF assms(1), of label])
  then have "length (cluster_ids (group_by label (map media_id rows))) = length rows"
    by (metis length_map size_mset)
  then show ?thesis by (simp only: stats stats_sum)
qed

lemma media_payload_plain: "js_plain (media_payload rows)"
  by (simp add: media_payload_def list_all_iff)

theorem media_hash_input_identifies:
  assumes "distinct (map media_id rows)" "distinct (map media_id rows')"
  shows "dumps js_compact (media_payload rows) = dumps js_compact (media_payload rows') \<longleftrightarrow>
    set (map identity rows) = set (map identity rows')"
proof
  assume "dumps js_compact (media_payload rows) = dumps js_compact (media_payload rows')"
  from dumps_inj [OF js_separators_styles(2) media_payload_plain media_payload_plain this]
  have "media_payload rows = media_payload rows'" by (simp add: js_ordered_unsorted js_compact_def)
  then show "set (map identity rows) = set (map identity rows')" by (rule media_payload_inj)
next
  assume "set (map identity rows) = set (map identity rows')"
  from media_payload_perm [OF assms this]
  show "dumps js_compact (media_payload rows) = dumps js_compact (media_payload rows')" by (rule arg_cong)
qed

text \<open>
  C19: The perceptual hash of 64 frequencies fits in 64 bits, and the Hamming distance of two
  hashes is the number of positions at which their bits differ, at most 64.
\<close>

theorem phash_distance_bits:
  assumes "length a = 64" "length b = 64"
  shows "low_hash a < 2 ^ 64 \<and>
    hamming (low_hash a) (low_hash b) = length (filter (\<lambda>(x, y). x \<noteq> y) (zip (phash_bits a) (phash_bits b))) \<and>
    hamming (low_hash a) (low_hash b) \<le> 64"
proof -
  have len: "length (phash_bits a) = 64" "length (phash_bits b) = 64" using assms by (simp_all add: phash_bits_def)
  have "hamming (low_hash a) (low_hash b) = length (filter (\<lambda>(x, y). x \<noteq> y) (zip (phash_bits a) (phash_bits b)))"
    unfolding low_hash_def by (rule hamming_bits) (simp add: len)
  moreover have "low_hash a < 2 ^ 64" using bits_value_bound [of "phash_bits a"] by (simp add: low_hash_def len)
  moreover have "length (filter (\<lambda>(x, y). x \<noteq> y) (zip (phash_bits a) (phash_bits b))) \<le> 64"
    using length_filter_le [of "\<lambda>(x, y). x \<noteq> y" "zip (phash_bits a) (phash_bits b)"] len by simp
  ultimately show ?thesis by simp
qed

text \<open>Three images, two of them close by hash.\<close>

definition sample_media :: "media_row list" where
  "sample_media = map (\<lambda>i. \<lparr>media_id = i, channel_id = ''c'', parent_message_id = ''m'', content_sha256 = i @ ''1'',
     storage_object_ref = i\<rparr>) [''a'', ''b'', ''c'']"

lemma sample_media_facts: "distinct (map media_id sample_media)" "length sample_media = 3"
  "map media_id sample_media = [''a'', ''b'', ''c'']"
  by (simp_all add: sample_media_def)

theorem media_hash_input_identifies_witness:
  "dumps js_compact (media_payload sample_media) = dumps js_compact (media_payload (rev sample_media))"
proof -
  have "distinct (map media_id (rev sample_media))" "set (map identity sample_media) = set (map identity (rev sample_media))"
    using sample_media_facts(1) by (simp_all add: rev_map [symmetric])
  with media_hash_input_identifies [OF sample_media_facts(1), of "rev sample_media"] show ?thesis by blast
qed

theorem phash_distance_bits_witness:
  "low_hash (map of_nat [0..<64]) < 2 ^ 64 \<and> hamming (low_hash (map of_nat [0..<64])) (low_hash (map of_nat [0..<64])) \<le> 64"
  using phash_distance_bits [of "map of_nat [0..<64]" "map of_nat [0..<64]"] by simp

theorem visual_clusters_connected_witness:
  "\<exists>clusters edges stats. clusters_and_edges sample_media (\<lambda>_ _. 0) [1, 3, 255] (9/10) 2 = Some (Ok (clusters, edges, stats)) \<and>
    map fst clusters = [''a'', ''b'', ''c'']"
  using visual_clusters_connected [OF sample_media_facts(1), of "[1, 3, 255]" "\<lambda>_ _. 0" "9/10" 2] sample_media_facts(2,3)
  by auto

lemma sample_clusters_ok:
  obtains clusters edges stats where
    "clusters_and_edges sample_media (\<lambda>_ _. 0) [1, 3, 255] (9/10) 2 = Some (Ok (clusters, edges, stats))"
  by (rule clusters_total [OF sample_media_facts(1), of "[1, 3, 255]" "\<lambda>_ _. 0" "9/10" 2])
    (simp add: sample_media_facts(2), rule that)

theorem cluster_histogram_counts_media_witness:
  "\<exists>clusters edges stats. clusters_and_edges sample_media (\<lambda>_ _. 0) [1, 3, 255] (9/10) 2 = Some (Ok (clusters, edges, stats)) \<and>
    sum_list (map (\<lambda>(size, n). size * n) (cluster_size_histogram stats)) = 3"
proof -
  obtain clusters edges stats where
    c: "clusters_and_edges sample_media (\<lambda>_ _. 0) [1, 3, 255] (9/10) 2 = Some (Ok (clusters, edges, stats))"
    by (rule sample_clusters_ok)
  from cluster_histogram_counts_media [OF sample_media_facts(1) c] sample_media_facts(2)
  have "sum_list (map (\<lambda>(size, n). size * n) (cluster_size_histogram stats)) = 3" by (simp only:)
  with c show ?thesis by blast
qed

end
