(* ===== verification/Config.thy ===== *)
theory Config
  imports Py_Files Py_Regex Sha256
begin

text \<open>
  Configuration: its hash (\<^verbatim>\<open>src/config/hashing.py\<close>), the loading of a file with its base and overlay
  (\<^verbatim>\<open>src/config/loader.py\<close>) and the contract of a release configuration
  (\<^verbatim>\<open>AppConfig.validate_release_contract\<close> of \<^verbatim>\<open>src/config/schema.py\<close>). The lemmas show that the hash
  input identifies the configuration up to volatile fields and the order of keys, that an overlay wins
  where it speaks and leaves the rest untouched, and what a release configuration pins.
\<close>

section \<open>Hashing\<close>

definition VOLATILE_FIELDS :: "string list" where
  "VOLATILE_FIELDS = [''output_path'', ''run_id'', ''created_at'', ''timestamp'']"

fun canonicalize :: "json \<Rightarrow> json" where
  "canonicalize (JObj fs) =
     JObj (sort_key fst (filter (\<lambda>(k, _). k \<notin> set VOLATILE_FIELDS) (map (\<lambda>(k, v). (k, canonicalize v)) fs)))"
| "canonicalize (JArr xs) = JArr (map canonicalize xs)"
| "canonicalize (JFloat q) = JStr (format_12g q)"
| "canonicalize v = v"

definition hash_input :: "pyobj \<Rightarrow> string" where
  "hash_input config = dumps js_canonical (canonicalize (JObj config))"

definition config_hash :: "pyobj \<Rightarrow> string" where
  "config_hash config = sha256_hex (utf8_encode (hash_input config))"

text \<open>Values whose dictionaries have distinct keys, as Python's do.\<close>

fun wf_json :: "json \<Rightarrow> bool" where
  "wf_json (JArr xs) = list_all wf_json xs"
| "wf_json (JObj fs) = (distinct (map fst fs) \<and> list_all (\<lambda>(k, v). wf_json v) fs)"
| "wf_json v = True"

lemma canonicalize_plain: "wf_json v \<Longrightarrow> js_plain (canonicalize v)"
proof (induction v rule: canonicalize.induct)
  case (1 fs)
  have "distinct (map fst (filter (\<lambda>(k, _). k \<notin> set VOLATILE_FIELDS) (map (\<lambda>(k, v). (k, canonicalize v)) fs)))"
    using 1(2) by (intro distinct_map_filter) (simp add: comp_def case_prod_beta')
  moreover have "js_plain (canonicalize v)" if "(k, v) \<in> set fs" for k v
    using 1(1) [of "(k, v)" k v] that 1(2) by (auto simp: list_all_iff)
  ultimately show ?case by (auto simp: list_all_iff)
qed (auto simp: list_all_iff)

lemma canonicalize_ordered: "js_ordered js_canonical (canonicalize v) = canonicalize v"
proof (induction v rule: canonicalize.induct)
  case (1 fs)
  let ?kept = "filter (\<lambda>(k, _). k \<notin> set VOLATILE_FIELDS) (map (\<lambda>(k, v). (k, canonicalize v)) fs)"
  have "map (\<lambda>(k, v). (k, js_ordered js_canonical v)) (sort_key fst ?kept) = sort_key fst ?kept"
  proof (rule map_idI)
    fix p assume "p \<in> set (sort_key fst ?kept)"
    then obtain k v where "(k, v) \<in> set fs" "p = (k, canonicalize v)" by auto
    then show "(\<lambda>(k, v). (k, js_ordered js_canonical v)) p = p" using 1 by auto
  qed
  then show ?case by (simp add: key_order_def js_canonical_def)
qed (simp_all add: map_idI)

lemma canonicalize_idem: "canonicalize (canonicalize v) = canonicalize v"
proof (induction v rule: canonicalize.induct)
  case (1 fs)
  let ?kept = "filter (\<lambda>(k, _). k \<notin> set VOLATILE_FIELDS) (map (\<lambda>(k, v). (k, canonicalize v)) fs)"
  have "map (\<lambda>(k, v). (k, canonicalize v)) (sort_key fst ?kept) = sort_key fst ?kept"
  proof (rule map_idI)
    fix p assume "p \<in> set (sort_key fst ?kept)"
    then obtain k v where "(k, v) \<in> set fs" "p = (k, canonicalize v)" by auto
    then show "(\<lambda>(k, v). (k, canonicalize v)) p = p" using 1 by auto
  qed
  moreover have "filter (\<lambda>(k, _). k \<notin> set VOLATILE_FIELDS) (sort_key fst ?kept) = sort_key fst ?kept"
    by (rule filter_True) auto
  ultimately show ?case by simp
qed simp_all

lemma hash_input_eq_iff:
  assumes "wf_json (JObj c)" "wf_json (JObj d)"
  shows "hash_input c = hash_input d \<longleftrightarrow> canonicalize (JObj c) = canonicalize (JObj d)"
proof
  assume "hash_input c = hash_input d"
  then have "dumps js_canonical (canonicalize (JObj c)) = dumps js_canonical (canonicalize (JObj d))"
    by (simp only: hash_input_def)
  from dumps_inj [OF js_separators_styles(1) canonicalize_plain [OF assms(1)] canonicalize_plain [OF assms(2)] this]
  show "canonicalize (JObj c) = canonicalize (JObj d)" by (simp only: canonicalize_ordered)
qed (simp only: hash_input_def)

lemma canonicalize_perm:
  assumes "distinct (map fst c)" "mset c = mset d"
  shows "canonicalize (JObj c) = canonicalize (JObj d)"
proof -
  let ?kept = "\<lambda>fs. filter (\<lambda>(k, _). k \<notin> set VOLATILE_FIELDS) (map (\<lambda>(k, v). (k, canonicalize v)) fs)"
  have dist: "distinct (map fst (?kept c))"
    using assms(1) by (intro distinct_map_filter) (simp add: comp_def case_prod_beta')
  have "mset (?kept c) = mset (sort_key fst (?kept d))" using assms(2) by simp
  moreover have "inj_on fst (set (?kept c))" using dist by (simp only: distinct_map)
  ultimately have "sort_key fst (?kept c) = sort_key fst (?kept d)" by (rule sort_key_inj_key_eq) simp
  then show ?thesis by simp
qed

text \<open>Volatile fields do not reach the hash.\<close>

lemma canonicalize_volatile:
  "canonicalize (JObj (filter (\<lambda>(k, _). k \<notin> set VOLATILE_FIELDS) c)) = canonicalize (JObj c)"
proof -
  have "filter (\<lambda>(k, _). k \<notin> set VOLATILE_FIELDS)
      (map (\<lambda>(k, v). (k, canonicalize v)) (filter (\<lambda>(k, _). k \<notin> set VOLATILE_FIELDS) c)) =
    filter (\<lambda>(k, _). k \<notin> set VOLATILE_FIELDS) (map (\<lambda>(k, v). (k, canonicalize v)) c)"
    by (induction c) auto
  then show ?thesis by simp
qed

section \<open>Loading\<close>

text \<open>
  \<open>yaml\<close> is the YAML parser, \<open>bm25s_version\<close> the version of the installed retrieval package,
  \<open>validate\<close> the schema's constructor.
\<close>

definition read_yaml :: "(string \<Rightarrow> json result) \<Rightarrow> fs \<Rightarrow> path \<Rightarrow> pyobj result" where
  "read_yaml yaml fs p =
     rbind (fs_read_text fs p) (\<lambda>source.
     rbind (yaml source) (\<lambda>v.
       if \<not> truthy v then Ok []
       else (case v of JObj obj \<Rightarrow> Ok obj | _ \<Rightarrow> Raise (TypeError ''Expected a mapping''))))"

function merge_config :: "pyobj \<Rightarrow> pyobj \<Rightarrow> pyobj" where
  "merge_config base [] = base"
| "merge_config base ((key, v) # override) =
     merge_config
       (AList.update key
         (case v of
            JObj vs \<Rightarrow> (case map_of base key of Some (JObj bs) \<Rightarrow> JObj (merge_config bs vs) | _ \<Rightarrow> v)
          | _ \<Rightarrow> v) base)
       override"
  by pat_completeness auto
termination by (relation "measure (\<lambda>(base, override). js_size (JObj override))") auto

definition merge_value :: "json option \<Rightarrow> json \<Rightarrow> json" where
  "merge_value old v =
     (case v of
        JObj vs \<Rightarrow> (case old of Some (JObj bs) \<Rightarrow> JObj (merge_config bs vs) | _ \<Rightarrow> v)
      | _ \<Rightarrow> v)"

definition path_up :: "path \<Rightarrow> path" where
  "path_up p = foldl (\<lambda>acc x. if x = ''..'' then butlast acc else acc @ [x]) [] p"

definition load_config ::
  "(string \<Rightarrow> json result) \<Rightarrow> string \<Rightarrow> (pyobj \<Rightarrow> 'c result) \<Rightarrow> fs \<Rightarrow> path \<Rightarrow> 'c result" where
  "load_config yaml bm25s_version validate fs config_path =
     rbind (read_yaml yaml fs config_path) (\<lambda>raw0.
       let extends = jget raw0 ''extends''; raw1 = AList.delete ''extends'' raw0 in
       rbind (if truthy extends
         then rbind (str_of extends) (\<lambda>e.
              let base_path = path_up (path_join (butlast config_path) e) in
              rbind (read_yaml yaml fs base_path) (\<lambda>base.
                Ok (merge_config base raw1, butlast base_path)))
         else Ok (raw1, butlast config_path)) (\<lambda>(raw2, llm_base_dir).
       let llm_file = jget raw2 ''llm_contract_file''; raw3 = AList.delete ''llm_contract_file'' raw2 in
       rbind (if truthy llm_file
         then rbind (str_of llm_file) (\<lambda>f. rbind (read_yaml yaml fs (path_join llm_base_dir f)) (\<lambda>llm.
                Ok (AList.update ''llm'' (JObj llm) raw3)))
         else Ok raw3) (\<lambda>raw4.
       validate (case map_of raw4 ''retrieval'' of
           Some (JObj retrieval) \<Rightarrow>
             (case map_of retrieval ''bm25s'' of
                Some (JObj bm25s) \<Rightarrow> AList.update ''retrieval'' (JObj (AList.update ''bm25s''
                  (JObj (AList.update ''version'' (JStr bm25s_version) bm25s)) retrieval)) raw4
              | _ \<Rightarrow> raw4)
         | _ \<Rightarrow> raw4))))"

lemma merge_config_lookup:
  assumes "wf_dict over"
  shows "map_of (merge_config base over) k =
    (case map_of over k of None \<Rightarrow> map_of base k | Some v \<Rightarrow> Some (merge_value (map_of base k) v))"
  using assms
proof (induction over arbitrary: base)
  case Nil
  then show ?case by simp
next
  case (Cons p over)
  obtain key v where p: "p = (key, v)" by (cases p)
  have step: "merge_config base (p # over) = merge_config (AList.update key (merge_value (map_of base key) v) base) over"
    by (simp add: p merge_value_def)
  have "map_of over key = None" using Cons.prems by (simp add: p map_of_eq_None_iff)
  with Cons.IH [of "AList.update key (merge_value (map_of base key) v) base"] Cons.prems show ?case
    unfolding step by (auto simp: p update_conv' split: option.splits)
qed

text \<open>A value found along keys.\<close>

fun deep_get :: "json \<Rightarrow> string list \<Rightarrow> json option" where
  "deep_get v [] = Some v"
| "deep_get (JObj fs) (k # ks) = (case map_of fs k of None \<Rightarrow> None | Some v \<Rightarrow> deep_get v ks)"
| "deep_get _ (k # ks) = None"

text \<open>The overlay does not speak about a value: at some key on the way it has no entry.\<close>

fun silent :: "pyobj \<Rightarrow> string list \<Rightarrow> bool" where
  "silent over [] = False"
| "silent over (k # ks) =
     (case map_of over k of None \<Rightarrow> True | Some (JObj vs) \<Rightarrow> silent vs ks | Some _ \<Rightarrow> False)"

lemma merge_overlay_wins:
  assumes "wf_json (JObj over)" "ks \<noteq> []" "deep_get (JObj over) ks = Some v" "\<forall>fs. v \<noteq> JObj fs"
  shows "deep_get (JObj (merge_config base over)) ks = Some v"
  using assms
proof (induction ks arbitrary: over base)
  case (Cons k ks)
  from Cons.prems(1) have wf: "wf_dict over" "\<And>k v. map_of over k = Some v \<Longrightarrow> wf_json v"
    by (auto simp: list_all_iff dest: map_of_SomeD)
  from Cons.prems(3) obtain u where u: "map_of over k = Some u" "deep_get u ks = Some v"
    by (auto split: option.splits)
  have look: "map_of (merge_config base over) k = Some (merge_value (map_of base k) u)"
    by (simp add: merge_config_lookup [OF wf(1)] u(1))
  have "deep_get (merge_value (map_of base k) u) ks = Some v"
  proof (cases "\<exists>vs bs. u = JObj vs \<and> map_of base k = Some (JObj bs)")
    case True
    then obtain vs bs where e: "u = JObj vs" "map_of base k = Some (JObj bs)" by blast
    have "ks \<noteq> []" using u(2) e(1) Cons.prems(4) by auto
    then show ?thesis using Cons.IH [of vs bs] wf(2) [OF u(1)] u(2) Cons.prems(4) by (simp add: e merge_value_def)
  next
    case False
    then have "merge_value (map_of base k) u = u" by (auto simp: merge_value_def split: json.splits option.splits)
    then show ?thesis using u(2) by simp
  qed
  then show ?case by (simp add: look)
qed simp

lemma merge_keeps_untouched:
  assumes "wf_json (JObj over)" "silent over ks" "deep_get (JObj base) ks = Some v"
  shows "deep_get (JObj (merge_config base over)) ks = Some v"
  using assms
proof (induction ks arbitrary: over base)
  case (Cons k ks)
  from Cons.prems(1) have wf: "wf_dict over" "\<And>k v. map_of over k = Some v \<Longrightarrow> wf_json v"
    by (auto simp: list_all_iff dest: map_of_SomeD)
  from Cons.prems(3) obtain u where u: "map_of base k = Some u" "deep_get u ks = Some v"
    by (auto split: option.splits)
  show ?case
  proof (cases "map_of over k")
    case None
    then show ?thesis using u by (simp add: merge_config_lookup [OF wf(1)])
  next
    case (Some w)
    then obtain vs where vs: "w = JObj vs" "silent vs ks" using Cons.prems(2) by (auto split: json.splits)
    then obtain k' ks' where ks: "ks = k' # ks'" by (cases ks) auto
    then obtain bs where bs: "u = JObj bs" using u(2) by (cases u) auto
    have "deep_get (JObj (merge_config bs vs)) ks = Some v"
      using Cons.IH [of vs bs] wf(2) [OF Some] vs u(2) by (simp add: bs)
    then show ?thesis using Some u(1) by (simp add: merge_config_lookup [OF wf(1)] merge_value_def vs(1) bs)
  qed
qed simp


theorem config_hash_ignores_order_and_volatile:
  assumes "distinct (map fst c)" "mset c = mset d"
  shows "config_hash c = config_hash (filter (\<lambda>(k, _). k \<notin> set VOLATILE_FIELDS) d)"
proof -
  have "canonicalize (JObj c) = canonicalize (JObj d)" by (rule canonicalize_perm [OF assms])
  then show ?thesis unfolding config_hash_def hash_input_def canonicalize_volatile by (simp only:)
qed

text \<open>
  C21: Merging an overlay into a base configuration sets every scalar the overlay has at any
  depth and keeps every value the overlay does not speak about.
\<close>

theorem overlay_wins_and_keeps:
  assumes "wf_json (JObj over)"
  shows "(ks \<noteq> [] \<and> deep_get (JObj over) ks = Some v \<and> (\<forall>fs. v \<noteq> JObj fs) \<longrightarrow>
      deep_get (JObj (merge_config base over)) ks = Some v) \<and>
    (silent over ks \<and> deep_get (JObj base) ks = Some v \<longrightarrow>
      deep_get (JObj (merge_config base over)) ks = Some v)"
  using merge_overlay_wins [OF assms] merge_keeps_untouched [OF assms] by blast

section \<open>The contract of a release configuration\<close>

record provider_policy =
  order :: "string list"
  allow_fallbacks :: bool
  require_parameters :: bool

record role_model =
  model_id :: string
  requires_dated_model_id :: bool
  structured_output_required :: bool
  provider :: provider_policy

record app_config =
  mode :: string
  comparable :: bool
  roles :: "(string, role_model) dict"

definition is_tag_head :: "char \<Rightarrow> bool" where
  "is_tag_head c \<longleftrightarrow> is_lower c \<or> is_digit c"

definition is_tag_char :: "char \<Rightarrow> bool" where
  "is_tag_char c \<longleftrightarrow> is_lower c \<or> is_digit c \<or> c = CHR ''-''"

definition tag_segment :: regex where
  "tag_segment = Seq (Chr is_tag_head) (Star (Chr is_tag_char))"

definition ENDPOINT_TAG :: regex where
  "ENDPOINT_TAG = rx_seq [Bos, tag_segment, rx_upto 2 (Seq (rx_lit ''/'') tag_segment), Eos]"

definition DATED_MODEL_ID :: regex where
  "DATED_MODEL_ID = rx_seq [rx_plus (Chr (\<lambda>c. c \<noteq> CHR 0x0A)), rx_lit ''-'', rx_times 8 (Chr is_digit), Eos]"

definition has_exact_endpoint :: "provider_policy \<Rightarrow> bool" where
  "has_exact_endpoint p \<longleftrightarrow> length (order p) = 1 \<and> rx_fullmatch ENDPOINT_TAG (order p ! 0)"

definition check_role :: "role_model \<Rightarrow> unit result" where
  "check_role role =
     (let p = provider role in
      if structured_output_required role \<and> \<not> require_parameters p
      then Raise (ValueError ''requires provider.require_parameters'')
      else if allow_fallbacks p then Raise (ValueError ''requires allow_fallbacks=false'')
      else if \<not> has_exact_endpoint p then Raise (ValueError ''requires one exact provider endpoint'')
      else if requires_dated_model_id role \<and> \<not> rx_fullmatch DATED_MODEL_ID (model_id role)
      then Raise (ValueError ''requires a dated model id'')
      else Ok ())"

definition validate_release_contract :: "app_config \<Rightarrow> unit result" where
  "validate_release_contract cfg =
     (if mode cfg \<noteq> ''release'' then Ok ()
      else if \<not> comparable cfg then Raise (ValueError ''requires comparable=true'')
      else forM (\<lambda>(_, role). check_role role) (roles cfg))"

text \<open>The shapes the two patterns stand for.\<close>

definition tag_word :: "string \<Rightarrow> bool" where
  "tag_word w \<longleftrightarrow> w \<noteq> [] \<and> is_tag_head (hd w) \<and> list_all is_tag_char (tl w)"

lemma tag_word_Cons: "tag_word (c # w) \<longleftrightarrow> is_tag_head c \<and> list_all is_tag_char w"
  by (simp add: tag_word_def)

lemma rx_can_segment [rx_run]:
  "rx_can tag_segment (p, s, g) Q \<longleftrightarrow> (\<exists>w t. s = w @ t \<and> tag_word w \<and> Q (rev w @ p, t, g))"
proof -
  have "rx_can tag_segment (p, s, g) Q \<longleftrightarrow>
      (\<exists>c t. s = c # t \<and> is_tag_head c \<and> (\<exists>m u. t = m @ u \<and> list_all is_tag_char m \<and> Q (rev m @ c # p, u, g)))"
    unfolding tag_segment_def by (simp only: rx_run)
  also have "\<dots> \<longleftrightarrow> (\<exists>w t. s = w @ t \<and> tag_word w \<and> Q (rev w @ p, t, g))" (is "?L \<longleftrightarrow> ?R")
  proof
    assume ?L
    then obtain c m u where "s = c # m @ u" "is_tag_head c" "list_all is_tag_char m" "Q (rev m @ c # p, u, g)" by blast
    then show ?R by (intro exI [of _ "c # m"] exI [of _ u]) (simp add: tag_word_Cons)
  next
    assume ?R
    then obtain w t where "s = w @ t" "tag_word w" "Q (rev w @ p, t, g)" by blast
    then show ?L by (cases w) (auto simp: tag_word_def)
  qed
  finally show ?thesis .
qed

lemma endpoint_tag_iff:
  "rx_fullmatch ENDPOINT_TAG s \<longleftrightarrow>
    (\<exists>ws. ws \<noteq> [] \<and> length ws \<le> 3 \<and> list_all tag_word ws \<and> s = join ''/'' ws)" (is "_ \<longleftrightarrow> ?words")
proof -
  have eos: "((t = [] \<or> t = [CHR 0x0A]) \<and> t = []) \<longleftrightarrow> t = []" for t :: string by auto
  have "rx_fullmatch ENDPOINT_TAG s \<longleftrightarrow> (\<exists>w t. s = w @ t \<and> tag_word w \<and>
      ((\<exists>t1. t = ''/'' @ t1 \<and> (\<exists>w1 t2. t1 = w1 @ t2 \<and> tag_word w1 \<and>
        ((\<exists>t3. t2 = ''/'' @ t3 \<and> (\<exists>w2 t4. t3 = w2 @ t4 \<and> tag_word w2 \<and> t4 = [])) \<or> t2 = []))) \<or> t = []))"
    unfolding rx_fullmatch_can ENDPOINT_TAG_def rx_seq.simps numeral_2_eq_2 rx_upto.simps
    by (simp only: rx_run prod.case eos simp_thms)
  also have "\<dots> \<longleftrightarrow> ?words"
  proof
    assume "\<exists>w t. s = w @ t \<and> tag_word w \<and>
      ((\<exists>t1. t = ''/'' @ t1 \<and> (\<exists>w1 t2. t1 = w1 @ t2 \<and> tag_word w1 \<and>
        ((\<exists>t3. t2 = ''/'' @ t3 \<and> (\<exists>w2 t4. t3 = w2 @ t4 \<and> tag_word w2 \<and> t4 = [])) \<or> t2 = []))) \<or> t = [])"
    then consider w where "s = w" "tag_word w"
      | w v where "s = w @ ''/'' @ v" "tag_word w" "tag_word v"
      | w v u where "s = w @ ''/'' @ v @ ''/'' @ u" "tag_word w" "tag_word v" "tag_word u" by auto
    then show ?words
    proof cases
      case (1 w)
      then show ?thesis by (intro exI [of _ "[w]"]) simp
    next
      case (2 w v)
      then show ?thesis by (intro exI [of _ "[w, v]"]) simp
    next
      case (3 w v u)
      then show ?thesis by (intro exI [of _ "[w, v, u]"]) simp
    qed
  next
    assume ?words
    then obtain ws where ws: "ws \<noteq> []" "length ws \<le> 3" "list_all tag_word ws" "s = join ''/'' ws" by blast
    then consider w where "ws = [w]" | w v where "ws = [w, v]" | w v u where "ws = [w, v, u]"
      by (auto simp: neq_Nil_conv le_Suc_eq numeral_3_eq_3 length_Suc_conv)
    then show "\<exists>w t. s = w @ t \<and> tag_word w \<and>
      ((\<exists>t1. t = ''/'' @ t1 \<and> (\<exists>w1 t2. t1 = w1 @ t2 \<and> tag_word w1 \<and>
        ((\<exists>t3. t2 = ''/'' @ t3 \<and> (\<exists>w2 t4. t3 = w2 @ t4 \<and> tag_word w2 \<and> t4 = [])) \<or> t2 = []))) \<or> t = [])"
    proof cases
      case (1 w)
      then have "s = w @ []" "tag_word w" using ws(3,4) by simp_all
      then show ?thesis by blast
    next
      case (2 w v)
      then have "s = w @ (''/'' @ (v @ []))" "tag_word w" "tag_word v" using ws(3,4) by simp_all
      then show ?thesis by blast
    next
      case (3 w v u)
      then have "s = w @ (''/'' @ (v @ (''/'' @ (u @ []))))" "tag_word w" "tag_word v" "tag_word u" using ws(3,4) by simp_all
      then show ?thesis by blast
    qed
  qed
  finally show ?thesis .
qed

lemma dated_model_id_iff:
  "rx_fullmatch DATED_MODEL_ID s \<longleftrightarrow>
    (\<exists>base ds. s = base @ ''-'' @ ds \<and> base \<noteq> [] \<and> CHR 0x0A \<notin> set base \<and> length ds = 8 \<and> list_all is_digit ds)"
proof -
  have nl: "list_all (\<lambda>c. c \<noteq> CHR 0x0A) m \<longleftrightarrow> CHR 0x0A \<notin> set m" for m by (auto simp: list_all_iff)
  show ?thesis
    unfolding rx_fullmatch_can DATED_MODEL_ID_def rx_seq.simps
    by (simp only: rx_run prod.case nl) auto
qed

text \<open>A release configuration pins every role.\<close>

definition pinned :: "role_model \<Rightarrow> bool" where
  "pinned role \<longleftrightarrow>
     \<not> allow_fallbacks (provider role) \<and>
     (structured_output_required role \<longrightarrow> require_parameters (provider role)) \<and>
     (\<exists>ws. ws \<noteq> [] \<and> length ws \<le> 3 \<and> list_all tag_word ws \<and> order (provider role) = [join ''/'' ws]) \<and>
     (requires_dated_model_id role \<longrightarrow>
        (\<exists>base ds. model_id role = base @ ''-'' @ ds \<and> base \<noteq> [] \<and> CHR 0x0A \<notin> set base \<and>
           length ds = 8 \<and> list_all is_digit ds))"

lemma has_exact_endpoint_iff:
  "has_exact_endpoint p \<longleftrightarrow> (\<exists>ws. ws \<noteq> [] \<and> length ws \<le> 3 \<and> list_all tag_word ws \<and> order p = [join ''/'' ws])"
proof -
  have "has_exact_endpoint p \<longleftrightarrow> (\<exists>e. order p = [e] \<and> rx_fullmatch ENDPOINT_TAG e)"
    by (cases "order p"; cases "tl (order p)") (auto simp: has_exact_endpoint_def)
  then show ?thesis unfolding endpoint_tag_iff by blast
qed

lemma check_role_Ok: "check_role role = Ok () \<longleftrightarrow> pinned role"
  by (auto simp: check_role_def Let_def pinned_def has_exact_endpoint_iff dated_model_id_iff)

text \<open>
  C22: A configuration passes the release contract exactly when it is not in release mode, or is
  comparable and pins every role: no fallbacks, required parameters for structured output, one
  endpoint of one to three tag segments, and a dated model id where one is required.
\<close>

theorem release_contract_iff:
  "validate_release_contract cfg = Ok () \<longleftrightarrow>
    mode cfg \<noteq> ''release'' \<or> (comparable cfg \<and> list_all (\<lambda>(_, role). pinned role) (roles cfg))"
  by (auto simp: validate_release_contract_def forM_Ok_iff check_role_Ok list_all_iff)

section \<open>Instances\<close>


theorem config_hash_ignores_order_and_volatile_witness:
  "config_hash [(''a'', JInt 1), (''run_id'', JStr ''x''), (''b'', JNull)] =
   config_hash [(''b'', JNull), (''a'', JInt 1)]"
  using config_hash_ignores_order_and_volatile
    [of "[(''a'', JInt 1), (''run_id'', JStr ''x''), (''b'', JNull)]" "[(''b'', JNull), (''run_id'', JStr ''x''), (''a'', JInt 1)]"]
  by (simp add: VOLATILE_FIELDS_def)

theorem overlay_wins_and_keeps_witness:
  "deep_get (JObj (merge_config [(''r'', JObj [(''k'', JInt 1), (''b'', JInt 2)])] [(''r'', JObj [(''k'', JInt 9)])])) [''r'', ''k''] = Some (JInt 9) \<and>
   deep_get (JObj (merge_config [(''r'', JObj [(''k'', JInt 1), (''b'', JInt 2)])] [(''r'', JObj [(''k'', JInt 9)])])) [''r'', ''b''] = Some (JInt 2)"
  using overlay_wins_and_keeps [of "[(''r'', JObj [(''k'', JInt 9)])]" "[''r'', ''k'']" "JInt 9" "[(''r'', JObj [(''k'', JInt 1), (''b'', JInt 2)])]"]
    overlay_wins_and_keeps [of "[(''r'', JObj [(''k'', JInt 9)])]" "[''r'', ''b'']" "JInt 2" "[(''r'', JObj [(''k'', JInt 1), (''b'', JInt 2)])]"]
  by simp

definition release_sample :: app_config where
  "release_sample = \<lparr>mode = ''release'', comparable = True,
     roles = [(''reader'', \<lparr>model_id = ''m-20260101'', requires_dated_model_id = True, structured_output_required = True,
        provider = \<lparr>order = [''host/gpu''], allow_fallbacks = False, require_parameters = True\<rparr>\<rparr>)]\<rparr>"

theorem release_contract_iff_witness:
  "validate_release_contract release_sample = Ok () \<and> list_all (\<lambda>(_, role). pinned role) (roles release_sample)"
proof -
  have "validate_release_contract release_sample = Ok ()" by code_simp
  moreover have "mode release_sample = ''release''" by (simp add: release_sample_def)
  ultimately show ?thesis using release_contract_iff [of release_sample] by blast
qed

end
