(* ===== verification/Visual_Artifact.thy ===== *)
theory Visual_Artifact
  imports Visual_Clusters Config
begin

text \<open>
  The visual artifact (\<^verbatim>\<open>build_visual_embeddings\<close>, \<^verbatim>\<open>validate_visual_artifact\<close> and
  \<^verbatim>\<open>build_early_distractor_sanity\<close> of \<^verbatim>\<open>artifacts/visual/pipeline.py\<close>): a resumable build over batches of
  images, whose vectors, clusters and manifest a later phase accepts only when they still belong to its
  media. numpy and the encoder are records of functions, the image hash an argument.
\<close>

section \<open>Arrays and encoders\<close>

record array =
  shape :: "nat list"
  entries :: "rat list"

text \<open>
  What the program calls of numpy: reading and writing a file of one array, the norms of the rows of a
  matrix, its division by them, \<^verbatim>\<open>vstack\<close>, the product of two rows, the name of the element type, and
  the histogram of twenty bins between -1 and 1.
\<close>

record numpy =
  np_load :: "string \<Rightarrow> array result"
  np_save :: "array \<Rightarrow> string"
  np_norms :: "array \<Rightarrow> rat list"
  np_divide :: "array \<Rightarrow> rat list \<Rightarrow> array"
  np_vstack :: "array list \<Rightarrow> array result"
  np_product :: "array \<Rightarrow> nat \<Rightarrow> nat \<Rightarrow> rat"
  np_dtype :: "array \<Rightarrow> string"
  np_histogram :: "rat list \<Rightarrow> int list"

record encoder =
  model_name :: string
  model_version :: string
  preprocessing :: pyobj
  device :: string
  encode :: "string list \<Rightarrow> array result"

text \<open>\<^verbatim>\<open>a.shape[i]\<close>\<close>

definition shape_at :: "array \<Rightarrow> nat \<Rightarrow> nat result" where
  "shape_at a i = (if i < length (shape a) then Ok (shape a ! i) else Raise IndexError)"

definition normalize_rows :: "numpy \<Rightarrow> array \<Rightarrow> array result" where
  "normalize_rows np m =
     rbind (ensure (length (shape m) = 2 \<and> hd (shape m) \<noteq> 0) (ValueError ''non-empty two-dimensional matrix'')) (\<lambda>_.
     rbind (ensure (0 \<notin> set (np_norms np m)) (ValueError ''all-zero visual vector'')) (\<lambda>_.
       Ok (np_divide np m (np_norms np m))))"

section \<open>The batches\<close>

definition image_path :: "path \<Rightarrow> media_row \<Rightarrow> path" where
  "image_path processed row = processed @ [''objects'', content_sha256 row]"

definition is_file :: "fs \<Rightarrow> path \<Rightarrow> bool" where
  "is_file fs p \<longleftrightarrow> (case map_of fs p of Some (File b) \<Rightarrow> True | _ \<Rightarrow> False)"

definition chunk_dir :: "path \<Rightarrow> path" where
  "chunk_dir output = output @ [''.embedding_chunks'']"

definition chunk_path :: "path \<Rightarrow> nat \<Rightarrow> path" where
  "chunk_path output start_index = chunk_dir output @ [zero_pad 6 start_index @ ''.npy'']"

text \<open>\<^verbatim>\<open>range(0, len(rows), batch_size)\<close> with the batch at every start.\<close>

definition batches :: "nat \<Rightarrow> 'a list \<Rightarrow> (nat \<times> 'a list) list" where
  "batches batch_size rows =
     map (\<lambda>k. (k * batch_size, take batch_size (drop (k * batch_size) rows)))
       [0..<(length rows + batch_size - 1) div batch_size]"

definition load_array :: "numpy \<Rightarrow> path \<Rightarrow> array io" where
  "load_array np p = io_bind (io_read p) (\<lambda>b. io_of_result (np_load np b))"

definition save_array :: "numpy \<Rightarrow> path \<Rightarrow> array \<Rightarrow> unit io" where
  "save_array np p a = io_write p (np_save np a)"

text \<open>The vectors of a batch: the chunk of an earlier run when there is one, else the encoder's.\<close>

definition chunk_vectors :: "numpy \<Rightarrow> encoder \<Rightarrow> path \<Rightarrow> path list \<Rightarrow> array io" where
  "chunk_vectors np enc chunk image_paths =
     io_bind (io_ask (\<lambda>fs. fs_exists fs chunk)) (\<lambda>present_already.
       if present_already then load_array np chunk
       else io_bind (io_map io_read image_paths) (\<lambda>images.
            io_bind (io_of_result (rbind (encode enc images) (normalize_rows np))) (\<lambda>encoded.
            io_seq (save_array np chunk encoded) (io_return encoded))))"

definition embed_batch ::
  "numpy \<Rightarrow> encoder \<Rightarrow> (string \<Rightarrow> nat result) \<Rightarrow> path \<Rightarrow> path \<Rightarrow> nat \<times> media_row list \<Rightarrow> (path \<times> nat list) io" where
  "embed_batch np enc image_hasher processed output item = (case item of (start_index, batch) \<Rightarrow>
     let image_paths = map (image_path processed) batch; chunk = chunk_path output start_index in
     io_seq (io_check (\<lambda>fs. ensure (list_all (is_file fs) image_paths) (FileNotFoundError ''missing media object'')))
     (io_bind (chunk_vectors np enc chunk image_paths) (\<lambda>encoded.
      io_bind (io_of_result (shape_at encoded 0)) (\<lambda>n.
      io_seq (io_of_result (ensure (n = length batch) (ValueError ''encoder output count'')))
      (io_bind (io_map io_read image_paths) (\<lambda>images.
       io_bind (io_of_result (mapM image_hasher images)) (\<lambda>phashes. io_return (chunk, phashes))))))))"

section \<open>The build\<close>

definition write_json :: "path \<Rightarrow> json \<Rightarrow> unit io" where
  "write_json p v = io_write p (utf8_encode (dumps js_pretty v @ [CHR 0x0A]))"

definition write_rows_jsonl :: "path \<Rightarrow> json list \<Rightarrow> unit io" where
  "write_rows_jsonl p rows = io_write p (utf8_encode (concat (map (\<lambda>r. dumps js_lines r @ [CHR 0x0A]) rows)))"

definition cluster_json :: "string \<times> string \<Rightarrow> json" where
  "cluster_json c = JObj [(''media_id'', JStr (fst c)), (''near_dup_cluster_id'', JStr (snd c))]"

definition edge_json :: "visual_edge \<Rightarrow> json" where
  "edge_json e =
     JObj [(''left_media_id'', JStr (left_media_id e)), (''right_media_id'', JStr (right_media_id e)),
       (''cosine'', JFloat (cosine e)), (''phash_distance'', JInt (int (phash_distance e))),
       (''sources'', JArr (map JStr (sources e)))]"

text \<open>
  The statistics with their keys in the order they are written: the sizes are integers when they are
  sorted and strings afterwards, so that they stand in the order of the numbers.
\<close>

definition stats_json :: "cluster_stats \<Rightarrow> json" where
  "stats_json s =
     JObj [(''cluster_size_histogram'', JObj (map (\<lambda>(size, n). (nat_str size, JInt (int n))) (cluster_size_histogram s))),
       (''edge_counts'', JObj [(''both'', JInt (int (both_edges s))), (''cosine'', JInt (int (cosine_edges s))),
         (''phash'', JInt (int (phash_edges s)))]),
       (''singletons'', JInt (int (singletons s)))]"

definition write_stats :: "path \<Rightarrow> cluster_stats \<Rightarrow> unit io" where
  "write_stats p s = io_write p (utf8_encode (dumps (js_pretty\<lparr>js_sort := False\<rparr>) (stats_json s) @ [CHR 0x0A]))"

definition PHASH_VERSION :: string where
  "PHASH_VERSION = ''vsf-dct64-v1''"

definition visual_manifest :: "numpy \<Rightarrow> encoder \<Rightarrow> media_row list \<Rightarrow> array \<Rightarrow> nat \<Rightarrow> string \<Rightarrow> pyobj" where
  "visual_manifest np enc rows matrix dimension matrix_bytes =
     [(''artifact_type'', JStr ''visual_embeddings''), (''model_name'', JStr (model_name enc)),
      (''model_version'', JStr (model_version enc)), (''media_count'', JInt (int (length rows))),
      (''preprocessing'', JObj (preprocessing enc)),
      (''tensor_spec'', JObj [(''dimension'', JInt (int dimension)), (''dtype'', JStr (np_dtype np matrix)),
        (''l2_normalized'', JBool True)]),
      (''device'', JStr (device enc)), (''phash_version'', JStr PHASH_VERSION),
      (''media_input_manifest_sha256'', JStr (media_input_manifest_sha256 rows)),
      (''matrix_sha256'', JStr (sha256_hex matrix_bytes))]"

text \<open>
  \<open>config\<close> reads the thresholds of the configuration, \<open>active_encoder\<close> is the encoder passed in or the
  one made from the configuration. A clustering that did not end would exceed Python's recursion limit.
\<close>

record visual_config =
  dup_threshold :: rat
  phash_threshold :: int

definition cluster_media ::
  "numpy \<Rightarrow> visual_config \<Rightarrow> media_row list \<Rightarrow> array \<Rightarrow> nat list \<Rightarrow>
    ((string \<times> string) list \<times> visual_edge list \<times> cluster_stats) result" where
  "cluster_media np config rows matrix phashes =
     (case clusters_and_edges rows (np_product np matrix) phashes (dup_threshold config) (phash_threshold config) of
        None \<Rightarrow> Raise (RuntimeError ''maximum recursion depth exceeded'')
      | Some r \<Rightarrow> r)"

text \<open>The rows in batches, and the chunks put together: the matrix and the hashes of all images.\<close>

definition embed_media ::
  "numpy \<Rightarrow> encoder \<Rightarrow> (string \<Rightarrow> nat result) \<Rightarrow> nat \<Rightarrow> path \<Rightarrow> path \<Rightarrow> media_row list \<Rightarrow> (array \<times> nat list) io" where
  "embed_media np enc image_hasher batch_size processed output rows =
     io_seq (io_of_result (ensure (batch_size \<noteq> 0) (ValueError ''range() arg 3 must not be zero'')))
     (io_bind (io_map (embed_batch np enc image_hasher processed output) (batches batch_size rows)) (\<lambda>chunks.
      io_bind (io_map (\<lambda>(chunk, _). load_array np chunk) chunks) (\<lambda>parts.
      io_bind (io_of_result (np_vstack np parts)) (\<lambda>matrix. io_return (matrix, concat (map snd chunks))))))"

text \<open>The manifest over the matrix file as it was written, and the cleanup of the chunks.\<close>

definition seal_artifact :: "numpy \<Rightarrow> encoder \<Rightarrow> media_row list \<Rightarrow> array \<Rightarrow> path \<Rightarrow> path io" where
  "seal_artifact np enc rows matrix output =
     io_bind (io_of_result (shape_at matrix 1)) (\<lambda>dimension.
     io_bind (io_read (output @ [''visual_embeddings.npy''])) (\<lambda>matrix_bytes.
     io_seq (write_json (output @ [''visual_embeddings_manifest.json''])
       (JObj (visual_manifest np enc rows matrix dimension matrix_bytes)))
     (io_seq (io_rmtree (chunk_dir output)) (io_return output))))"

definition write_artifact ::
  "numpy \<Rightarrow> visual_config \<Rightarrow> encoder \<Rightarrow> media_row list \<Rightarrow> path \<Rightarrow> array \<times> nat list \<Rightarrow> path io" where
  "write_artifact np config enc rows output vectors = (case vectors of (matrix, phashes) \<Rightarrow>
     io_seq (save_array np (output @ [''visual_embeddings.npy'']) matrix)
     (io_seq (write_json (output @ [''visual_embedding_index.json'']) (JArr (map (\<lambda>r. JStr (media_id r)) rows)))
     (io_bind (io_of_result (cluster_media np config rows matrix phashes)) (\<lambda>(clusters, edges, stats).
      io_seq (write_rows_jsonl (output @ [''near_dup_clusters.jsonl'']) (map cluster_json clusters))
      (io_seq (write_rows_jsonl (output @ [''visual_embedding_edges.jsonl'']) (map edge_json edges))
      (io_seq (write_stats (output @ [''visual_embedding_stats.json'']) stats)
      (seal_artifact np enc rows matrix output)))))))"

definition build_visual_embeddings ::
  "numpy \<Rightarrow> (string \<Rightarrow> nat result) \<Rightarrow> (fs \<Rightarrow> visual_config result) \<Rightarrow> (visual_config \<Rightarrow> encoder result) \<Rightarrow> nat \<Rightarrow>
    path \<Rightarrow> path \<Rightarrow> path io" where
  "build_visual_embeddings np image_hasher load active_encoder batch_size processed output =
     io_bind (io_check (\<lambda>fs. media_rows fs processed)) (\<lambda>rows.
     io_bind (io_check load) (\<lambda>config.
     io_bind (io_of_result (active_encoder config)) (\<lambda>enc.
     io_seq (io_mkdirs output)
     (io_seq (io_mkdirs (chunk_dir output))
     (io_bind (embed_media np enc image_hasher batch_size processed output rows)
       (write_artifact np config enc rows output))))))"

section \<open>Validation\<close>

definition check_visual :: "bool \<Rightarrow> string \<Rightarrow> unit result" where
  "check_visual ok reason = ensure ok (VisualArtifactMismatch reason)"

definition validate_visual_artifact ::
  "numpy \<Rightarrow> path \<Rightarrow> path \<Rightarrow> string \<Rightarrow> string \<Rightarrow> pyobj \<Rightarrow> string \<Rightarrow> fs \<Rightarrow> pyobj result" where
  "validate_visual_artifact np processed artifact name version preproc expected_device fs =
     rbind (fs_read_text fs (artifact @ [''visual_embeddings_manifest.json''])) (\<lambda>text.
     rbind (loads_object text) (\<lambda>manifest.
     rbind (jitem manifest ''media_input_manifest_sha256'') (\<lambda>input_sha.
     rbind (media_rows fs processed) (\<lambda>rows.
     rbind (check_visual (input_sha = JStr (media_input_manifest_sha256 rows)) ''MEDIA_INPUT_SET_MISMATCH'') (\<lambda>_.
     rbind (jitem manifest ''model_name'') (\<lambda>found_name.
     rbind (check_visual (found_name = JStr name) ''VISUAL_MODEL_MISMATCH'') (\<lambda>_.
     rbind (jitem manifest ''model_version'') (\<lambda>found_version.
     rbind (check_visual (found_version = JStr version) ''VISUAL_MODEL_MISMATCH'') (\<lambda>_.
     rbind (jitem manifest ''preprocessing'') (\<lambda>found_preproc.
     rbind (check_visual (py_eq found_preproc (JObj preproc)) ''VISUAL_PREPROCESSING_MISMATCH'') (\<lambda>_.
     rbind (jitem manifest ''device'') (\<lambda>found_device.
     rbind (check_visual (found_device = JStr expected_device) ''VISUAL_DEVICE_MISMATCH'') (\<lambda>_.
     rbind (jitem manifest ''matrix_sha256'') (\<lambda>matrix_sha.
     rbind (fs_read fs (artifact @ [''visual_embeddings.npy''])) (\<lambda>matrix_bytes.
     rbind (check_visual (matrix_sha = JStr (sha256_hex matrix_bytes)) ''MATRIX_SHA256_MISMATCH'') (\<lambda>_.
     rbind (np_load np matrix_bytes) (\<lambda>matrix.
     rbind (shape_at matrix 0) (\<lambda>n.
     rbind (jitem manifest ''media_count'') (\<lambda>count.
     rbind (check_visual (py_eq count (JInt (int n))) ''MEDIA_COUNT_MISMATCH'') (\<lambda>_.
       Ok manifest))))))))))))))))))))"

section \<open>What a build leaves\<close>

text \<open>The documented behaviour of numpy the build relies on.\<close>

definition numpy_ok :: "numpy \<Rightarrow> bool" where
  "numpy_ok np \<longleftrightarrow>
     (\<forall>a. np_load np (np_save np a) = Ok a) \<and>
     (\<forall>a ns. shape (np_divide np a ns) = shape a) \<and>
     (\<forall>parts m. np_vstack np parts = Ok m \<longrightarrow> (\<forall>a \<in> set parts. length (shape a) = 2) \<longrightarrow>
        shape_at m 0 = Ok (sum_list (map (\<lambda>a. hd (shape a)) parts)))"

lemma concat_batches: "k \<noteq> 0 \<Longrightarrow> concat (map snd (batches k rows)) = rows"
proof -
  assume k: "k \<noteq> 0"
  have "concat (map (\<lambda>i. take k (drop (i * k) rows)) [0..<n]) = take (n * k) rows" for n
  proof (induction n)
    case (Suc n)
    have "take (Suc n * k) rows = take (n * k) rows @ take k (drop (n * k) rows)"
      by (metis add.commute mult_Suc take_add)
    with Suc show ?case by simp
  qed simp
  moreover have "length rows \<le> (length rows + k - 1) div k * k"
  proof -
    have "length rows + k - 1 < Suc ((length rows + k - 1) div k) * k" using k by (simp add: dividend_less_div_times)
    then show ?thesis using k by simp
  qed
  ultimately show ?thesis by (simp add: batches_def comp_def)
qed

text \<open>Files that hold given bytes, and the operations that leave them alone.\<close>

definition has_files :: "(path \<times> string) list \<Rightarrow> fs \<Rightarrow> bool" where
  "has_files ps fs \<longleftrightarrow> (\<forall>(p, b) \<in> set ps. map_of fs p = Some (File b))"

lemma has_files_simps [simp]:
  "has_files [] fs" "has_files ((p, b) # ps) fs \<longleftrightarrow> map_of fs p = Some (File b) \<and> has_files ps fs"
  by (simp_all add: has_files_def)

lemma has_files_cong: "(\<And>p. p \<in> fst ` set ps \<Longrightarrow> map_of fs' p = map_of fs p) \<Longrightarrow> has_files ps fs' \<longleftrightarrow> has_files ps fs"
  by (force simp: has_files_def)

lemma has_files_write: "p \<notin> fst ` set ps \<Longrightarrow> has_files ps (fs_write p b fs) \<longleftrightarrow> has_files ps fs"
  by (rule has_files_cong) auto

lemma has_files_mkdirs: "has_files ps fs \<Longrightarrow> has_files ps (fs_mkdirs p fs)"
  by (auto simp: has_files_def lookup_mkdirs)

text \<open>A chunk of an earlier run is a matrix.\<close>

definition chunks_ok :: "numpy \<Rightarrow> path \<Rightarrow> fs \<Rightarrow> bool" where
  "chunks_ok np output fs \<longleftrightarrow>
     (\<forall>p b a. prefix (chunk_dir output) p \<longrightarrow> map_of fs p = Some (File b) \<longrightarrow> np_load np b = Ok a \<longrightarrow> length (shape a) = 2)"

text \<open>The batches that are done have a chunk with a vector for each of their images.\<close>

definition chunks_done :: "numpy \<Rightarrow> path \<Rightarrow> (nat \<times> media_row list) list \<Rightarrow> fs \<Rightarrow> bool" where
  "chunks_done np output bs fs \<longleftrightarrow>
     (\<forall>(s, batch) \<in> set bs. \<exists>b a. map_of fs (chunk_path output s) = Some (File b) \<and> np_load np b = Ok a \<and>
        shape_at a 0 = Ok (length batch))"

definition building :: "numpy \<Rightarrow> path \<Rightarrow> (path \<times> string) list \<Rightarrow> (nat \<times> media_row list) list \<Rightarrow> fs \<Rightarrow> bool" where
  "building np output ps bs fs \<longleftrightarrow> has_files ps fs \<and> chunks_ok np output fs \<and> chunks_done np output bs fs"

lemma prefix_chunk: "prefix (chunk_dir output) (chunk_path output s)"
  by (simp add: chunk_path_def)

lemma normalize_rows_shape: "numpy_ok np \<Longrightarrow> normalize_rows np a = Ok a' \<Longrightarrow> length (shape a') = 2"
  by (auto simp: normalize_rows_def numpy_ok_def rbind_Ok_iff ensure_Ok_iff)

lemma yields_chunk_vectors:
  assumes "numpy_ok np" "chunk_path output s \<notin> fst ` set ps"
  shows "yields (building np output ps bs) (chunk_vectors np enc (chunk_path output s) image_paths)
    (\<lambda>a fs. building np output ps bs fs \<and> (\<exists>b. map_of fs (chunk_path output s) = Some (File b) \<and> np_load np b = Ok a))"
proof -
  let ?I = "building np output ps bs" and ?c = "chunk_path output s"
  let ?Q = "\<lambda>a fs. ?I fs \<and> (\<exists>b. map_of fs ?c = Some (File b) \<and> np_load np b = Ok a)"
  have old: "yields ?I (load_array np ?c) ?Q"
    unfolding load_array_def
    by (rule yields_bind [OF yields_read [where Q = "\<lambda>b fs. ?I fs \<and> map_of fs ?c = Some (File b)"]])
      (auto intro: yields_result)
  have new: "?Q a (fs_write ?c (np_save np a) fs)" if fs: "?I fs" "\<not> fs_exists fs ?c" "length (shape a) = 2" for fs a
  proof -
    have free: "map_of fs ?c = None" using fs(2) by (simp add: fs_exists_def)
    have "chunks_ok np output (fs_write ?c (np_save np a) fs)"
      using fs(1,3) assms(1) by (auto simp: building_def chunks_ok_def numpy_ok_def)
    moreover have "chunks_done np output bs (fs_write ?c (np_save np a) fs)"
      using fs(1) free unfolding building_def chunks_done_def by fastforce
    ultimately show ?thesis
      using fs(1) assms by (simp add: building_def has_files_write numpy_ok_def)
  qed
  have "yields (\<lambda>fs. ?I fs \<and> \<not> fs_exists fs ?c)
    (io_bind (io_map io_read image_paths) (\<lambda>images.
       io_bind (io_of_result (rbind (encode enc images) (normalize_rows np))) (\<lambda>encoded.
       io_seq (save_array np ?c encoded) (io_return encoded)))) ?Q"
  proof (rule yields_bind)
    show "yields (\<lambda>fs. ?I fs \<and> \<not> fs_exists fs ?c) (io_map io_read image_paths)
        (\<lambda>images fs. list_all2 (\<lambda>_ _. True) image_paths images \<and> (?I fs \<and> \<not> fs_exists fs ?c))"
      by (rule yields_map [where I = "\<lambda>_ fs. ?I fs \<and> \<not> fs_exists fs ?c"]) (auto intro: yields_read)
    fix images
    show "yields (\<lambda>fs. list_all2 (\<lambda>_ _. True) image_paths images \<and> ?I fs \<and> \<not> fs_exists fs ?c)
      (io_bind (io_of_result (rbind (encode enc images) (normalize_rows np))) (\<lambda>encoded.
       io_seq (save_array np ?c encoded) (io_return encoded))) ?Q"
    proof (rule yields_bind)
      show "yields (\<lambda>fs. list_all2 (\<lambda>_ _. True) image_paths images \<and> ?I fs \<and> \<not> fs_exists fs ?c)
        (io_of_result (rbind (encode enc images) (normalize_rows np)))
        (\<lambda>a fs. ?I fs \<and> \<not> fs_exists fs ?c \<and> length (shape a) = 2)"
        by (rule yields_result) (auto simp: rbind_Ok_iff normalize_rows_shape [OF assms(1)])
      show "yields (\<lambda>fs. ?I fs \<and> \<not> fs_exists fs ?c \<and> length (shape a) = 2) (io_seq (save_array np ?c a) (io_return a)) ?Q" for a
        unfolding save_array_def
        by (rule yields_seq [where R = "?Q a"], rule yields_write, rule new) (auto intro: yields_return)
    qed
  qed
  note fresh = this
  show ?thesis
    unfolding chunk_vectors_def
  proof (rule yields_bind)
    show "yields ?I (io_ask (\<lambda>fs. fs_exists fs ?c)) (\<lambda>x fs. ?I fs \<and> x = fs_exists fs ?c)"
      by (rule yields_ask) simp
    fix x
    show "yields (\<lambda>fs. ?I fs \<and> x = fs_exists fs ?c)
      (if x then load_array np ?c
       else io_bind (io_map io_read image_paths) (\<lambda>images.
         io_bind (io_of_result (rbind (encode enc images) (normalize_rows np))) (\<lambda>encoded.
         io_seq (save_array np ?c encoded) (io_return encoded)))) ?Q"
    proof (cases x)
      case True
      then show ?thesis by (simp only: if_True) (rule yields_conseq [OF old]; simp)
    next
      case False
      then show ?thesis by (simp only: if_False) (rule yields_conseq [OF fresh]; simp)
    qed
  qed
qed

lemma yields_embed_batch:
  assumes "numpy_ok np" "chunk_path output (fst item) \<notin> fst ` set ps"
  shows "yields (building np output ps bs) (embed_batch np enc image_hasher processed output item)
    (\<lambda>y fs. fst y = chunk_path output (fst item) \<and> building np output ps (bs @ [item]) fs)"
proof -
  obtain s batch where item: "item = (s, batch)" by (cases item)
  let ?I = "building np output ps bs" and ?c = "chunk_path output s"
  let ?Q = "\<lambda>a fs. ?I fs \<and> (\<exists>b. map_of fs ?c = Some (File b) \<and> np_load np b = Ok a)"
  note vectors = yields_chunk_vectors [OF assms(1)]
  have kept: "yields P (io_map io_read ps') (\<lambda>_. P)" for P ps'
    by (rule yields_conseq [OF yields_map [where I = "\<lambda>_. P" and R = "\<lambda>_ _. True"]]) (auto intro: yields_read)
  show ?thesis
    unfolding embed_batch_def item split Let_def
  proof (rule yields_seq [OF yields_check [where Q = "\<lambda>_. ?I"]], simp, rule yields_bind [OF vectors])
    show "?c \<notin> fst ` set ps" using assms(2) by (simp add: item)
    fix encoded
    let ?R = "\<lambda>fs. ?I fs \<and> (\<exists>b. map_of fs ?c = Some (File b) \<and> np_load np b = Ok encoded) \<and> shape_at encoded 0 = Ok (length batch)"
    have last: "yields ?R (io_bind (io_map io_read (map (image_path processed) batch)) (\<lambda>images.
        io_bind (io_of_result (mapM image_hasher images)) (\<lambda>phashes. io_return (?c, phashes))))
      (\<lambda>y fs. fst y = ?c \<and> building np output ps (bs @ [(s, batch)]) fs)"
      by (rule yields_bind [OF kept], rule yields_bind [OF yields_result [where Q = "\<lambda>_. ?R"]], simp, rule yields_return)
        (auto simp: building_def chunks_done_def)
    show "yields (?Q encoded) (io_bind (io_of_result (shape_at encoded 0)) (\<lambda>n.
        io_seq (io_of_result (ensure (n = length batch) (ValueError ''encoder output count'')))
        (io_bind (io_map io_read (map (image_path processed) batch)) (\<lambda>images.
         io_bind (io_of_result (mapM image_hasher images)) (\<lambda>phashes. io_return (?c, phashes))))))
      (\<lambda>y fs. fst y = chunk_path output (fst (s, batch)) \<and> building np output ps (bs @ [(s, batch)]) fs)"
      by (rule yields_bind [OF yields_result [where Q = "\<lambda>n fs. ?Q encoded fs \<and> shape_at encoded 0 = Ok n"]], simp,
          rule yields_seq [OF yields_result [where Q = "\<lambda>_. ?R"]])
        (use last in \<open>auto simp: ensure_Ok_iff\<close>)
  qed
qed

text \<open>The chunks read back: matrices with one row for every image.\<close>

lemma yields_parts:
  assumes "list_all2 (\<lambda>x y. fst y = chunk_path output (fst x)) bs chunks"
  shows "yields (building np output ps bs) (io_map (\<lambda>(chunk, _). load_array np chunk) chunks)
    (\<lambda>parts fs. list_all2 (\<lambda>x a. length (shape a) = 2 \<and> hd (shape a) = length (snd x)) bs parts \<and> building np output ps bs fs)"
proof -
  let ?I = "building np output ps bs"
  let ?R = "\<lambda>c a. length (shape a) = 2 \<and> (\<forall>(s, batch) \<in> set bs. fst c = chunk_path output s \<longrightarrow> hd (shape a) = length batch)"
  have loaded: "yields ?I (io_map (\<lambda>(chunk, _). load_array np chunk) chunks) (\<lambda>parts fs. list_all2 ?R chunks parts \<and> ?I fs)"
  proof (rule yields_map [where I = "\<lambda>_. ?I"])
    fix ys c zs assume c: "chunks = ys @ c # zs"
    have pre: "prefix (chunk_dir output) (fst c)"
      using assms c prefix_chunk by (auto simp: list_all2_append2 list_all2_Cons2)
    have R: "?R c a" if fs: "?I fs" "map_of fs (fst c) = Some (File b)" "np_load np b = Ok a" for fs b a
    proof -
      have two: "length (shape a) = 2" using fs pre unfolding building_def chunks_ok_def by blast
      have "hd (shape a) = length batch" if "(s, batch) \<in> set bs" "fst c = chunk_path output s" for s batch
      proof -
        have "\<forall>(s, batch) \<in> set bs. \<exists>b a. map_of fs (chunk_path output s) = Some (File b) \<and> np_load np b = Ok a \<and>
            shape_at a 0 = Ok (length batch)" using fs(1) by (simp add: building_def chunks_done_def)
        with that(1) obtain b' a' where "map_of fs (chunk_path output s) = Some (File b')" "np_load np b' = Ok a'"
          "shape_at a' 0 = Ok (length batch)" by blast
        with fs(2,3) that(2) have "shape_at a 0 = Ok (length batch)" by simp
        with two show ?thesis by (cases "shape a") (simp_all add: shape_at_def)
      qed
      with two show ?thesis by blast
    qed
    show "yields ?I (case c of (chunk, _) \<Rightarrow> load_array np chunk) (\<lambda>a fs. ?R c a \<and> ?I fs)"
      unfolding case_prod_beta load_array_def
      by (rule yields_bind [OF yields_read [where Q = "\<lambda>b fs. ?I fs \<and> map_of fs (fst c) = Some (File b)"]], simp,
          rule yields_result) (use R [unfolded case_prod_beta] in blast)
  qed
  have conv: "list_all2 (\<lambda>x a. length (shape a) = 2 \<and> hd (shape a) = length (snd x)) bs parts"
    if "list_all2 ?R chunks parts" for parts
    using assms that by (fastforce simp: list_all2_conv_all_nth)
  show ?thesis by (rule yields_conseq [OF loaded]) (use conv in blast)+
qed

lemma building_mkdirs: "building np output ps [] fs \<Longrightarrow> building np output ps [] (fs_mkdirs p fs)"
  unfolding building_def chunks_ok_def chunks_done_def
  by (auto simp: has_files_mkdirs lookup_mkdirs split: if_splits)

lemma yields_embed_media:
  assumes "numpy_ok np" "\<And>p. p \<in> fst ` set ps \<Longrightarrow> \<not> prefix output p"
  shows "yields (building np output ps []) (embed_media np enc image_hasher batch_size processed output rows)
    (\<lambda>x fs. shape_at (fst x) 0 = Ok (length rows) \<and> has_files ps fs)"
  unfolding embed_media_def
proof (rule yields_seq [OF yields_result [where Q = "\<lambda>_ fs. batch_size \<noteq> 0 \<and> building np output ps [] fs"]])
  let ?bs = "batches batch_size rows" and ?I = "\<lambda>bs. building np output ps bs"
  show "batch_size \<noteq> 0 \<and> ?I [] fs" if "?I [] fs" "ensure (batch_size \<noteq> 0) e = Ok u" for fs u e
    using that by (simp add: ensure_Ok_iff)
  have free: "chunk_path output s \<notin> fst ` set ps" for s
    using assms(2) [of "chunk_path output s"] by (auto simp: chunk_path_def chunk_dir_def)
  have chunks: "yields (?I []) (io_map (embed_batch np enc image_hasher processed output) ?bs)
      (\<lambda>cs fs. list_all2 (\<lambda>x y. fst y = chunk_path output (fst x)) ?bs cs \<and> ?I ?bs fs)"
    by (rule yields_map) (rule yields_embed_batch [OF assms(1) free])
  have rest: "yields (\<lambda>fs. batch_size \<noteq> 0 \<and> list_all2 (\<lambda>x y. fst y = chunk_path output (fst x)) ?bs cs \<and> ?I ?bs fs)
      (io_bind (io_map (\<lambda>(chunk, _). load_array np chunk) cs) (\<lambda>parts.
       io_bind (io_of_result (np_vstack np parts)) (\<lambda>matrix. io_return (matrix, concat (map snd cs)))))
      (\<lambda>x fs. shape_at (fst x) 0 = Ok (length rows) \<and> has_files ps fs)" for cs
  proof (cases "batch_size \<noteq> 0 \<and> list_all2 (\<lambda>x y. fst y = chunk_path output (fst x)) ?bs cs")
    case True
    have sum: "shape_at m 0 = Ok (length rows)"
      if p: "list_all2 (\<lambda>x a. length (shape a) = 2 \<and> hd (shape a) = length (snd x)) ?bs parts" "np_vstack np parts = Ok m" for parts m
    proof -
      have "map (\<lambda>a. hd (shape a)) parts = map (\<lambda>x. length (snd x)) ?bs"
        using p(1) by (induction rule: list_all2_induct) auto
      moreover have "sum_list (map (\<lambda>x. length (snd x)) ?bs) = length rows"
      proof -
        have "length (concat (map snd ?bs)) = length rows" using concat_batches [of batch_size rows] True by simp
        then show ?thesis by (simp add: length_concat comp_def)
      qed
      moreover have "\<forall>a \<in> set parts. length (shape a) = 2"
        using p(1) by (auto simp: list_all2_conv_all_nth in_set_conv_nth)
      ultimately show ?thesis using assms(1) p(2) by (simp add: numpy_ok_def)
    qed
    have "yields (?I ?bs)
      (io_bind (io_map (\<lambda>(chunk, _). load_array np chunk) cs) (\<lambda>parts.
       io_bind (io_of_result (np_vstack np parts)) (\<lambda>matrix. io_return (matrix, concat (map snd cs)))))
      (\<lambda>x fs. shape_at (fst x) 0 = Ok (length rows) \<and> has_files ps fs)"
      by (rule yields_bind [OF yields_parts], use True in blast,
          rule yields_bind [OF yields_result [where Q = "\<lambda>m fs. shape_at m 0 = Ok (length rows) \<and> has_files ps fs"]])
        (use sum in \<open>auto simp: building_def intro: yields_return\<close>)
    then show ?thesis by (rule yields_conseq) auto
  qed (auto simp: yields_def)
  show "yields (\<lambda>fs. batch_size \<noteq> 0 \<and> ?I [] fs)
    (io_bind (io_map (embed_batch np enc image_hasher processed output) ?bs) (\<lambda>cs.
      io_bind (io_map (\<lambda>(chunk, _). load_array np chunk) cs) (\<lambda>parts.
      io_bind (io_of_result (np_vstack np parts)) (\<lambda>matrix. io_return (matrix, concat (map snd cs))))))
    (\<lambda>x fs. shape_at (fst x) 0 = Ok (length rows) \<and> has_files ps fs)"
  proof (cases "batch_size = 0")
    case False
    have "yields (\<lambda>fs. batch_size \<noteq> 0 \<and> ?I [] fs) (io_map (embed_batch np enc image_hasher processed output) ?bs)
      (\<lambda>cs fs. batch_size \<noteq> 0 \<and> list_all2 (\<lambda>x y. fst y = chunk_path output (fst x)) ?bs cs \<and> ?I ?bs fs)"
      by (rule yields_conseq [OF chunks]) (use False in auto)
    then show ?thesis by (rule yields_bind) (rule rest)
  qed (simp add: yields_def)
qed

lemma yields_quiet_write: "p \<notin> fst ` set ps \<Longrightarrow> yields (has_files ps) (io_write p b) (\<lambda>_. has_files ps)"
  by (rule yields_write) (simp add: has_files_write)

lemma yields_new_write: "p \<notin> fst ` set ps \<Longrightarrow> yields (has_files ps) (io_write p b) (\<lambda>_. has_files ((p, b) # ps))"
  by (rule yields_write) (simp add: has_files_write)

abbreviation matrix_file :: "path \<Rightarrow> path" where
  "matrix_file output \<equiv> output @ [''visual_embeddings.npy'']"

abbreviation manifest_file :: "path \<Rightarrow> path" where
  "manifest_file output \<equiv> output @ [''visual_embeddings_manifest.json'']"

text \<open>What a finished artifact consists of, as far as its validation is concerned.\<close>

definition sealed :: "numpy \<Rightarrow> encoder \<Rightarrow> media_row list \<Rightarrow> path \<Rightarrow> (path \<times> string) list \<Rightarrow> array \<Rightarrow> fs \<Rightarrow> bool" where
  "sealed np enc rows output ps matrix fs \<longleftrightarrow>
     (\<exists>dimension. has_files ((manifest_file output, utf8_encode (dumps js_pretty
         (JObj (visual_manifest np enc rows matrix dimension (np_save np matrix))) @ [CHR 0x0A])) #
       (matrix_file output, np_save np matrix) # ps) fs)"

lemma yields_seal:
  assumes "\<And>p. p \<in> fst ` set ps \<Longrightarrow> \<not> prefix output p"
  shows "yields (has_files ((matrix_file output, np_save np matrix) # ps)) (seal_artifact np enc rows matrix output)
    (\<lambda>_. sealed np enc rows output ps matrix)"
proof -
  let ?ps = "(matrix_file output, np_save np matrix) # ps"
  have out: "output @ x \<notin> fst ` set ps" for x using assms [of "output @ x"] by auto
  have "yields (sealed np enc rows output ps matrix) (io_seq (io_rmtree (chunk_dir output)) (io_return output))
    (\<lambda>_. sealed np enc rows output ps matrix)"
  proof (rule yields_seq [OF yields_rmtree [where Q = "\<lambda>_. sealed np enc rows output ps matrix"]])
    fix fs fs' assume fs: "sealed np enc rows output ps matrix fs"
      and kept: "\<And>q. \<not> prefix (chunk_dir output) q \<Longrightarrow> map_of fs' q = map_of fs q"
    have "map_of fs' p = map_of fs p" if "p \<in> fst ` set ps \<or> p = matrix_file output \<or> p = manifest_file output" for p
    proof (rule kept)
      have "prefix output (chunk_dir output)" by (simp add: chunk_dir_def)
      then have "prefix (chunk_dir output) p \<Longrightarrow> prefix output p" by (rule prefix_order.trans)
      then show "\<not> prefix (chunk_dir output) p"
        using that assms [of p] by (auto simp: chunk_dir_def)
    qed
    then have "has_files ((manifest_file output, m) # ?ps) fs' \<longleftrightarrow> has_files ((manifest_file output, m) # ?ps) fs" for m
      by (intro has_files_cong) auto
    with fs show "sealed np enc rows output ps matrix fs'" by (simp only: sealed_def)
  qed (simp add: yields_return)
  note cleanup = this
  have wr: "yields (has_files ?ps) (io_seq (write_json (manifest_file output)
      (JObj (visual_manifest np enc rows matrix d (np_save np matrix))))
      (io_seq (io_rmtree (chunk_dir output)) (io_return output))) (\<lambda>_. sealed np enc rows output ps matrix)" for d
    unfolding write_json_def
    by (rule yields_seq [OF yields_conseq [OF yields_new_write [of _ ?ps]] cleanup]) (use out in \<open>auto simp: sealed_def\<close>)
  show ?thesis
    unfolding seal_artifact_def
  proof (rule yields_bind [OF yields_result [where Q = "\<lambda>_. has_files ?ps"]], simp,
      rule yields_bind [OF yields_read [where Q = "\<lambda>b fs. b = np_save np matrix \<and> has_files ?ps fs"]])
    fix b d
    show "yields (\<lambda>fs. b = np_save np matrix \<and> has_files ?ps fs) (io_seq (write_json (manifest_file output)
      (JObj (visual_manifest np enc rows matrix d b))) (io_seq (io_rmtree (chunk_dir output)) (io_return output)))
      (\<lambda>_. sealed np enc rows output ps matrix)"
      by (cases "b = np_save np matrix") (use wr in \<open>simp_all add: yields_def\<close>)
  qed simp
qed

lemma yields_write_artifact:
  assumes "\<And>p. p \<in> fst ` set ps \<Longrightarrow> \<not> prefix output p"
  shows "yields (has_files ps) (write_artifact np config enc rows output (matrix, phashes))
    (\<lambda>_. sealed np enc rows output ps matrix)"
proof -
  let ?ps = "(matrix_file output, np_save np matrix) # ps"
  have out: "output @ x \<notin> fst ` set ps" for x using assms [of "output @ x"] by auto
  have quiet: "x \<noteq> [''visual_embeddings.npy''] \<Longrightarrow> yields (has_files ?ps) (io_write (output @ x) b) (\<lambda>_. has_files ?ps)" for x b
    by (rule yields_quiet_write) (use out [of x] in auto)
  show ?thesis
    unfolding write_artifact_def split save_array_def write_json_def write_rows_jsonl_def write_stats_def
  proof (rule yields_seq [OF yields_new_write [OF out]], rule yields_seq [OF quiet], simp,
      rule yields_bind [OF yields_result [where Q = "\<lambda>_. has_files ?ps"]], simp)
    fix r :: "(string \<times> string) list \<times> visual_edge list \<times> cluster_stats"
    show "yields (has_files ?ps) (case r of (clusters, edges, stats) \<Rightarrow>
        io_seq (io_write (output @ [''near_dup_clusters.jsonl''])
          (utf8_encode (concat (map (\<lambda>r. dumps js_lines r @ [CHR 0x0A]) (map cluster_json clusters)))))
        (io_seq (io_write (output @ [''visual_embedding_edges.jsonl''])
          (utf8_encode (concat (map (\<lambda>r. dumps js_lines r @ [CHR 0x0A]) (map edge_json edges)))))
        (io_seq (io_write (output @ [''visual_embedding_stats.json''])
          (utf8_encode (dumps (js_pretty\<lparr>js_sort := False\<rparr>) (stats_json stats) @ [CHR 0x0A])))
        (seal_artifact np enc rows matrix output))))
      (\<lambda>_. sealed np enc rows output ps matrix)"
      unfolding case_prod_beta
      by (rule yields_seq [OF quiet], simp, rule yields_seq [OF quiet], simp, rule yields_seq [OF quiet], simp)
        (rule yields_seal [OF assms])
  qed
qed

lemma yields_build:
  assumes "numpy_ok np" "\<And>p. p \<in> fst ` set ps \<Longrightarrow> \<not> prefix output p" "\<And>config. active_encoder config = Ok enc"
    "has_files ps fs0" "chunks_ok np output fs0" "media_rows fs0 processed = Ok rows"
  shows "yields (\<lambda>fs. fs = fs0) (build_visual_embeddings np image_hasher load active_encoder batch_size processed output)
    (\<lambda>_ fs. \<exists>matrix. shape_at matrix 0 = Ok (length rows) \<and> sealed np enc rows output ps matrix fs)"
  unfolding build_visual_embeddings_def
proof (rule yields_bind [OF yields_check [where Q = "\<lambda>r fs. r = rows \<and> fs = fs0"]])
  let ?Q = "\<lambda>fs. \<exists>matrix. shape_at matrix 0 = Ok (length rows) \<and> sealed np enc rows output ps matrix fs"
  have embed: "yields (building np output ps []) (io_bind (embed_media np enc image_hasher batch_size processed output rows)
      (write_artifact np config enc rows output)) (\<lambda>_. ?Q)" for config
  proof (rule yields_bind [OF yields_embed_media [OF assms(1,2)]])
    fix x :: "array \<times> nat list"
    obtain matrix phashes where x: "x = (matrix, phashes)" by (cases x)
    show "yields (\<lambda>fs. shape_at (fst x) 0 = Ok (length rows) \<and> has_files ps fs) (write_artifact np config enc rows output x) (\<lambda>_. ?Q)"
      using yields_write_artifact [OF assms(2), of ps np config enc rows matrix phashes] unfolding x yields_def by fastforce
  qed
  have ready: "building np output ps [] fs0" using assms(4,5) by (simp add: building_def chunks_done_def)
  have "yields (\<lambda>fs. fs = fs0)
    (io_bind (io_check load) (\<lambda>config. io_bind (io_of_result (active_encoder config)) (\<lambda>enc.
      io_seq (io_mkdirs output) (io_seq (io_mkdirs (chunk_dir output))
      (io_bind (embed_media np enc image_hasher batch_size processed output rows)
       (write_artifact np config enc rows output)))))) (\<lambda>_. ?Q)"
    unfolding assms(3)
  proof (rule yields_bind [OF yields_check [where Q = "\<lambda>_. building np output ps []"]])
    fix config
    show "yields (building np output ps []) (io_bind (io_of_result (Ok enc)) (\<lambda>enc.
      io_seq (io_mkdirs output) (io_seq (io_mkdirs (chunk_dir output))
      (io_bind (embed_media np enc image_hasher batch_size processed output rows)
       (write_artifact np config enc rows output))))) (\<lambda>_. ?Q)"
    proof (rule yields_bind [OF yields_result [where Q = "\<lambda>e fs. e = enc \<and> building np output ps [] fs"]])
      fix e
      have "yields (building np output ps []) (io_seq (io_mkdirs output) (io_seq (io_mkdirs (chunk_dir output))
        (io_bind (embed_media np enc image_hasher batch_size processed output rows)
          (write_artifact np config enc rows output)))) (\<lambda>_. ?Q)"
        by (rule yields_seq [OF yields_mkdirs [where Q = "\<lambda>_. building np output ps []"]], rule building_mkdirs, assumption,
            rule yields_seq [OF yields_mkdirs [where Q = "\<lambda>_. building np output ps []"]], rule building_mkdirs, assumption)
          (rule embed)
      then show "yields (\<lambda>fs. e = enc \<and> building np output ps [] fs) (io_seq (io_mkdirs output) (io_seq (io_mkdirs (chunk_dir output))
        (io_bind (embed_media np e image_hasher batch_size processed output rows)
          (write_artifact np config e rows output)))) (\<lambda>_. ?Q)"
        by (cases "e = enc") (simp_all add: yields_def)
    qed simp
  qed (simp add: ready)
  then show "yields (\<lambda>fs. r = rows \<and> fs = fs0)
    (io_bind (io_check load) (\<lambda>config. io_bind (io_of_result (active_encoder config)) (\<lambda>enc.
      io_seq (io_mkdirs output) (io_seq (io_mkdirs (chunk_dir output))
      (io_bind (embed_media np enc image_hasher batch_size processed output r)
       (write_artifact np config enc r output)))))) (\<lambda>_. ?Q)" for r
    by (cases "r = rows") (simp_all add: yields_def)
qed (use assms(6) in simp)

lemma py_norm_ordered: "py_norm (js_ordered st v) = py_norm v"
proof (induction v rule: json.induct)
  case (JArr xs)
  then show ?case by (simp add: comp_def)
next
  case (JObj fs)
  then have eq: "map (\<lambda>(k, v). (k, py_norm (js_ordered st v))) fs = map (\<lambda>(k, v). (k, py_norm v)) fs"
    by (auto simp: prod_set_defs)
  have "map (\<lambda>(k, v). (k, py_norm v)) (key_order st (map (\<lambda>(k, v). (k, js_ordered st v)) fs)) =
      key_order st (map (\<lambda>(k, v). (k, py_norm v)) fs)"
    unfolding key_order_map map_map comp_def case_prod_beta fst_conv snd_conv
    using eq by (simp add: case_prod_beta key_order_map [symmetric, unfolded case_prod_beta] comp_def)
  then show ?case by (simp add: key_order_def)
qed simp_all

lemma media_rows_file:
  "map_of fs (processed @ [''media.jsonl'']) = map_of fs' (processed @ [''media.jsonl'']) \<Longrightarrow>
    media_rows fs processed = media_rows fs' processed"
  by (simp add: media_rows_def read_jsonl_def fs_read_text_def fs_read_def)

lemma visual_manifest_plain:
  assumes "js_plain (JObj (preprocessing enc))"
  shows "js_plain (JObj (visual_manifest np enc rows matrix d bytes))"
  using assms by (simp add: visual_manifest_def)

lemma visual_manifest_keys: "distinct (map fst (visual_manifest np enc rows matrix d bytes))"
  by (simp add: visual_manifest_def)

text \<open>The manifest as the validation reads it.\<close>

lemma read_manifest_sealed:
  assumes "map_of fs (manifest_file output) = Some (File (utf8_encode (dumps js_pretty (JObj m) @ [CHR 0x0A])))"
    "js_plain (JObj m)"
  obtains content gs where "fs_read_text fs (manifest_file output) = Ok content" "loads_object content = Ok gs"
    "\<And>k. map_of gs k = map_option (js_ordered js_pretty) (map_of m k)"
proof -
  have "distinct (map fst m)" using assms(2) by simp
  then obtain gs where gs: "js_ordered js_pretty (JObj m) = JObj gs" "\<And>k. map_of gs k = map_option (js_ordered js_pretty) (map_of m k)"
    by (rule js_ordered_fields [where st = js_pretty]) (rule that)
  let ?text = "dumps js_pretty (JObj m) @ [CHR 0x0A]"
  have "fs_read_text fs (manifest_file output) = Ok ?text"
    using assms dumps_text(2) [OF js_text_pretty assms(2)] by (simp add: fs_read_text_def fs_read_def)
  moreover have "loads_object ?text = Ok gs"
    using loads_dumps [OF js_separators_styles(3) assms(2), of "[CHR 0x0A]"] gs(1) by (simp add: loads_object_def is_ws_def)
  ultimately show ?thesis using that gs(2) by blast
qed

lemma validate_sealed:
  assumes "sealed np enc rows output [(processed @ [''media.jsonl''], media)] matrix fs" "numpy_ok np"
    "media_rows fs processed = Ok rows" "shape_at matrix 0 = Ok (length rows)" "js_plain (JObj (preprocessing enc))"
  shows "is_ok (validate_visual_artifact np processed output name version preproc expected_device fs) \<longleftrightarrow>
    name = model_name enc \<and> version = model_version enc \<and> py_eq (JObj (preprocessing enc)) (JObj preproc) \<and>
    expected_device = device enc"
proof -
  from assms(1) obtain d where files: "map_of fs (matrix_file output) = Some (File (np_save np matrix))"
    "map_of fs (manifest_file output) = Some (File (utf8_encode (dumps js_pretty
         (JObj (visual_manifest np enc rows matrix d (np_save np matrix))) @ [CHR 0x0A])))"
    by (auto simp: sealed_def)
  obtain content gs where gs: "fs_read_text fs (manifest_file output) = Ok content" "loads_object content = Ok gs"
    "\<And>k. map_of gs k = map_option (js_ordered js_pretty) (map_of (visual_manifest np enc rows matrix d (np_save np matrix)) k)"
    using read_manifest_sealed [OF files(2) visual_manifest_plain [OF assms(5)]] by blast
  have ordered: "py_eq (js_ordered js_pretty v) w \<longleftrightarrow> py_eq v w" for v w by (simp add: py_eq_def py_norm_ordered)
  have items: "jitem gs ''media_input_manifest_sha256'' = Ok (JStr (media_input_manifest_sha256 rows))"
    "jitem gs ''model_name'' = Ok (JStr (model_name enc))" "jitem gs ''model_version'' = Ok (JStr (model_version enc))"
    "jitem gs ''preprocessing'' = Ok (js_ordered js_pretty (JObj (preprocessing enc)))"
    "jitem gs ''device'' = Ok (JStr (device enc))" "jitem gs ''matrix_sha256'' = Ok (JStr (sha256_hex (np_save np matrix)))"
    "jitem gs ''media_count'' = Ok (JInt (int (length rows)))"
    by (simp_all add: dict_item_def gs(3) visual_manifest_def)
  have "np_load np (np_save np matrix) = Ok matrix" using assms(2) by (simp add: numpy_ok_def)
  then have "validate_visual_artifact np processed output name version preproc expected_device fs =
     rbind (check_visual (model_name enc = name) ''VISUAL_MODEL_MISMATCH'') (\<lambda>_.
     rbind (check_visual (model_version enc = version) ''VISUAL_MODEL_MISMATCH'') (\<lambda>_.
     rbind (check_visual (py_eq (JObj (preprocessing enc)) (JObj preproc)) ''VISUAL_PREPROCESSING_MISMATCH'') (\<lambda>_.
     rbind (check_visual (device enc = expected_device) ''VISUAL_DEVICE_MISMATCH'') (\<lambda>_. Ok gs))))"
    by (simp del: js_ordered.simps add: validate_visual_artifact_def gs(1,2) items assms(3,4) files(1) fs_read_def ordered
      check_visual_def)
  then show ?thesis by (auto simp: is_ok_iff rbind_Ok_iff check_visual_def ensure_Ok_iff)
qed

text \<open>
  C18: A visual artifact that was built, resumed from matrices of an earlier run or not and
  whatever failed on the way, is accepted by the validation over the same media exactly when it
  asks for the model, version, preprocessing and device of the encoder it was built with.
\<close>

theorem visual_build_validates:
  assumes "numpy_ok np" "\<And>config. active_encoder config = Ok enc" "js_plain (JObj (preprocessing enc))"
    and "media_rows fs processed = Ok rows" "\<not> prefix output (processed @ [''media.jsonl''])" "chunks_ok np output fs"
    and "build_visual_embeddings np image_hasher load active_encoder batch_size processed output (start fs fl) = (Ok dir, w)"
  shows "is_ok (validate_visual_artifact np processed output name version preproc expected_device (present w)) \<longleftrightarrow>
    name = model_name enc \<and> version = model_version enc \<and> py_eq (JObj (preprocessing enc)) (JObj preproc) \<and>
    expected_device = device enc"
proof -
  let ?media = "processed @ [''media.jsonl'']"
  obtain bytes where bytes: "map_of fs ?media = Some (File bytes)"
    using assms(4) by (auto simp: media_rows_def read_jsonl_def fs_read_text_def rbind_Ok_iff fs_read_Ok)
  have "yields (\<lambda>fs'. fs' = fs) (build_visual_embeddings np image_hasher load active_encoder batch_size processed output)
    (\<lambda>_ fs. \<exists>matrix. shape_at matrix 0 = Ok (length rows) \<and> sealed np enc rows output [(?media, bytes)] matrix fs)"
    by (rule yields_build [OF assms(1) _ assms(2) _ assms(6,4)]) (use assms(5) bytes in auto)
  from yieldsD [OF this _ assms(7)] obtain matrix where m: "shape_at matrix 0 = Ok (length rows)"
    "sealed np enc rows output [(?media, bytes)] matrix (present w)"
    by (auto simp: start_def)
  from m(2) have "map_of (present w) ?media = Some (File bytes)" by (auto simp: sealed_def)
  then have "media_rows (present w) processed = Ok rows" using media_rows_file [of "present w" processed fs] bytes assms(4) by simp
  from validate_sealed [OF m(2) assms(1) this m(1) assms(3)] show ?thesis .
qed

section \<open>A build of one image\<close>

text \<open>Arrays stored as JSON: their shape and the numerators and denominators of their entries.\<close>

definition sample_store :: "array \<Rightarrow> json" where
  "sample_store a = JArr [JArr (map (\<lambda>n. JInt (int n)) (shape a)),
     JArr (map (\<lambda>q. JArr [JInt (fst (quotient_of q)), JInt (snd (quotient_of q))]) (entries a))]"

definition json_int :: "json \<Rightarrow> int" where
  "json_int v = (case v of JInt i \<Rightarrow> i | _ \<Rightarrow> 0)"

definition json_items :: "json \<Rightarrow> json list" where
  "json_items v = (case v of JArr xs \<Rightarrow> xs | _ \<Rightarrow> [])"

definition sample_fetch :: "json \<Rightarrow> array" where
  "sample_fetch v =
     \<lparr>shape = map (nat \<circ> json_int) (json_items (json_items v ! 0)),
      entries = map (\<lambda>x. Fract (json_int (json_items x ! 0)) (json_int (json_items x ! 1))) (json_items (json_items v ! 1))\<rparr>"

definition sample_numpy :: numpy where
  "sample_numpy =
     \<lparr>np_load = (\<lambda>b. rbind (loads b) (\<lambda>v. Ok (sample_fetch v))), np_save = (\<lambda>a. dumps js_compact (sample_store a)),
      np_norms = (\<lambda>a. [1]), np_divide = (\<lambda>a ns. a),
      np_vstack = (\<lambda>parts. Ok \<lparr>shape = [sum_list (map (\<lambda>a. hd (shape a)) parts), 1], entries = concat (map entries parts)\<rparr>),
      np_product = (\<lambda>a l r. 1), np_dtype = (\<lambda>a. ''float32''), np_histogram = (\<lambda>xs. [])\<rparr>"

lemma sample_numpy_ok: "numpy_ok sample_numpy"
proof -
  have fetch: "sample_fetch (sample_store a) = a" for a
    by (cases a) (simp add: sample_fetch_def sample_store_def json_items_def json_int_def comp_def quotient_of_div [symmetric]
      Fract_of_int_quotient quotient_of_div)
  have "js_plain (sample_store a)" for a by (simp add: sample_store_def list_all_iff)
  moreover have "\<not> js_sort js_compact" by (simp add: js_compact_def)
  ultimately have "loads (dumps js_compact (sample_store a)) = Ok (sample_store a)" for a
    using loads_dumps [OF js_separators_styles(2), of "sample_store a" "[]"] by simp
  with fetch show ?thesis by (simp add: numpy_ok_def sample_numpy_def shape_at_def)
qed

definition sample_encoder :: encoder where
  "sample_encoder = \<lparr>model_name = ''siglip'', model_version = ''v1'', preprocessing = [(''size'', JInt 384)], device = ''cpu'',
     encode = (\<lambda>images. Ok \<lparr>shape = [length images, 1], entries = replicate (length images) 1\<rparr>)\<rparr>"

definition sample_media_row :: pyobj where
  "sample_media_row = [(''channel_id'', JStr ''a''), (''content_sha256'', JStr ''c''), (''media_id'', JStr ''m''),
     (''parent_message_id'', JStr ''p''), (''storage_object_ref'', JStr ''s'')]"

definition visual_files :: fs where
  "visual_files = [([''p''], Dir), ([''p'', ''media.jsonl''], File (utf8_encode (dumps js_lines (JObj sample_media_row) @ [CHR 0x0A]))),
     ([''p'', ''objects''], Dir), ([''p'', ''objects'', ''c''], File ''image'')]"

definition visual_row :: media_row where
  "visual_row = \<lparr>media_id = ''m'', channel_id = ''a'', parent_message_id = ''p'', content_sha256 = ''c'', storage_object_ref = ''s''\<rparr>"

lemma sample_media_rows: "media_rows visual_files [''p''] = Ok [visual_row]"
proof -
  have row: "js_row js_lines (JObj sample_media_row)"
    unfolding js_row_def sample_media_row_def by (rule conjI) (simp, code_simp)
  then have plain: "js_plain (JObj sample_media_row)" by (simp add: js_row_def)
  have inline: "js_text js_lines" by (auto simp: js_text_def js_lines_def)
  have "splitlines (dumps js_lines (JObj sample_media_row) @ [CHR 0x0A]) = [dumps js_lines (JObj sample_media_row)]"
    using lines.splitlines_rows [of "[JObj sample_media_row]"] row by (simp add: write_rows_def)
  moreover have "loads (dumps js_lines (JObj sample_media_row)) = Ok (JObj sample_media_row)" by (rule lines.dec_enc [OF row])
  moreover have "dumps js_lines (JObj sample_media_row) \<noteq> []" by (simp add: dumps_def bracketed_def)
  ultimately show ?thesis
    using dumps_text(2) [OF inline plain]
    by (simp add: media_rows_def read_jsonl_def fs_read_text_def fs_read_def visual_files_def loads_object_def media_row_of_def
      str_item_def dict_item_def sample_media_row_def visual_row_def)
qed


lemma sample_batches: "batches (Suc 0) [x] = [(0, [x])]"
  by (simp add: batches_def)

lemma sample_cluster_media: "\<exists>c. cluster_media np config [visual_row] matrix [h] = Ok c"
proof -
  obtain c e s where "clusters_and_edges [visual_row] (np_product np matrix) [h] (dup_threshold config) (phash_threshold config) = Some (Ok (c, e, s))"
    by (rule clusters_total [of "[visual_row]" "[h]"]) simp_all
  then show ?thesis by (simp add: cluster_media_def)
qed

definition sample_load :: "fs \<Rightarrow> visual_config result" where
  "sample_load fs = Ok \<lparr>dup_threshold = 9 / 10, phash_threshold = 2\<rparr>"

text \<open>An operation that succeeds.\<close>

lemma step_op: "faults w = [] \<Longrightarrow> f (present w) = Ok (x, fs') \<Longrightarrow> fs_op torn f w = (Ok x, change fs' w)"
  by (cases w) (simp add: fs_op_def change_def states_def)

lemma faults_change [simp]: "faults (change fs w) = faults w" "present (change fs w) = fs"
  by (simp_all add: change_def)

lemma step_write: "faults w = [] \<Longrightarrow> parent_ok (present w) p \<Longrightarrow> \<not> fs_is_dir (present w) p \<Longrightarrow>
    io_write p b w = (Ok (), change (fs_write p b (present w)) w)"
  unfolding io_write_def by (rule step_op) simp_all

lemma step_read: "faults w = [] \<Longrightarrow> map_of (present w) p = Some (File b) \<Longrightarrow> io_read p w = (Ok b, change (present w) w)"
  unfolding io_read_def by (rule step_op) (simp_all add: fs_read_def)

lemma step_mkdirs: "faults w = [] \<Longrightarrow> list_all (\<lambda>q. fs_exists (present w) q \<longrightarrow> fs_is_dir (present w) q) (prefixes p) \<Longrightarrow>
    io_mkdirs p w = (Ok (), change (fs_mkdirs p (present w)) w)"
  unfolding io_mkdirs_def by (rule step_op) (auto simp: list_all_iff list_ex_iff)

lemma step_check: "faults w = [] \<Longrightarrow> f (present w) = Ok x \<Longrightarrow> io_check f w = (Ok x, change (present w) w)"
  by (simp add: io_check_def io_seq_def io_bind_def io_call_def step_op io_ask_def io_of_result_def io_return_def)

definition visual_ready :: "fs \<Rightarrow> bool" where
  "visual_ready fs \<longleftrightarrow> map_of fs [''o''] = Some Dir \<and> map_of fs [''o'', ''.embedding_chunks''] = Some Dir \<and>
     map_of fs [''p'', ''objects'', ''c''] = Some (File ''image'') \<and>
     (\<forall>x. x \<noteq> ''.embedding_chunks'' \<longrightarrow> map_of fs [''o'', x] \<noteq> Some Dir) \<and> (\<forall>x. map_of fs [''o'', ''.embedding_chunks'', x] \<noteq> Some Dir)"

lemma visual_ready_write: "visual_ready fs \<Longrightarrow> x \<noteq> ''.embedding_chunks'' \<Longrightarrow> visual_ready (fs_write [''o'', x] b fs)"
  "visual_ready fs \<Longrightarrow> visual_ready (fs_write [''o'', ''.embedding_chunks'', x] b fs)"
  by (auto simp: visual_ready_def)

lemma step_out: "faults w = [] \<Longrightarrow> visual_ready (present w) \<Longrightarrow> x \<noteq> ''.embedding_chunks'' \<Longrightarrow>
    io_write [''o'', x] b w = (Ok (), change (fs_write [''o'', x] b (present w)) w)"
  by (rule step_write) (simp_all add: visual_ready_def parent_ok_def fs_is_dir_def)

lemma sample_embed:
  assumes "faults w = []" "visual_ready (present w)" "\<And>x. map_of (present w) [''o'', ''.embedding_chunks'', x] = None"
  shows "\<exists>matrix w'. embed_media sample_numpy sample_encoder (\<lambda>b. Ok 5) 1 [''p''] [''o''] [visual_row] w = (Ok (matrix, [5]), w') \<and>
    faults w' = [] \<and> visual_ready (present w') \<and> length (shape matrix) = 2"
proof -
  let ?a = "\<lparr>shape = [1, 1], entries = [1]\<rparr> :: array"
  let ?c = "chunk_path [''o''] 0"
  have c: "?c = [''o'', ''.embedding_chunks'', zero_pad 6 0 @ ''.npy'']" by (simp add: chunk_path_def chunk_dir_def)
  have img: "map_of (present w) [''p'', ''objects'', ''c''] = Some (File ''image'')" using assms(2) by (simp add: visual_ready_def)
  have dir: "map_of (present w) [''o'', ''.embedding_chunks''] = Some Dir" using assms(2) by (simp add: visual_ready_def)
  have load: "np_load sample_numpy (np_save sample_numpy ?a) = Ok ?a" using sample_numpy_ok by (simp add: numpy_ok_def)
  have enc: "rbind (encode sample_encoder [''image'']) (normalize_rows sample_numpy) = Ok ?a"
    by (simp add: sample_encoder_def normalize_rows_def sample_numpy_def)
  have stack: "np_vstack sample_numpy [?a] = Ok ?a" by (simp add: sample_numpy_def)
  let ?fs = "fs_write ?c (np_save sample_numpy ?a) (present w)"
  have ready: "visual_ready ?fs" unfolding c by (rule visual_ready_write(2) [OF assms(2)])
  have w1: "chunk_vectors sample_numpy sample_encoder ?c [[''p'', ''objects'', ''c'']] w0 = (Ok ?a, change ?fs (change (present w0) w0))"
    if "faults w0 = []" "present w0 = present w" for w0
    using that assms(3) img dir enc
    by (simp add: chunk_vectors_def io_bind_def io_ask_def fs_exists_def c io_map.simps step_read io_return_def io_of_result_def
      save_array_def io_seq_def step_write parent_ok_def fs_is_dir_def)
  have w2: "\<exists>w'. embed_batch sample_numpy sample_encoder (\<lambda>b. Ok 5) [''p''] [''o''] (0, [visual_row]) w = (Ok (?c, [5]), w') \<and>
      faults w' = [] \<and> present w' = ?fs"
  proof -
    have "is_file (present w) [''p'', ''objects'', ''c'']" using img by (simp add: is_file_def)
    then have check: "io_check (\<lambda>fs. ensure (is_file fs [''p'', ''objects'', ''c'']) e) w = (Ok (), change (present w) w)" for e
      using assms(1) by (intro step_check) simp_all
    have img': "map_of ?fs [''p'', ''objects'', ''c''] = Some (File ''image'')" using img by (simp add: c)
    have path: "image_path [''p''] visual_row = [''p'', ''objects'', ''c'']" by (simp add: image_path_def visual_row_def)
    show ?thesis
      using assms(1) img' [unfolded c]
      by (simp add: embed_batch_def path c Let_def io_seq_def io_bind_def check w1 [unfolded c] io_of_result_def shape_at_def io_return_def
        io_map.simps step_read)
  qed
  then obtain w' where w': "embed_batch sample_numpy sample_encoder (\<lambda>b. Ok 5) [''p''] [''o''] (0, [visual_row]) w = (Ok (?c, [5]), w')"
    "faults w' = []" "present w' = ?fs" by blast
  have "load_array sample_numpy ?c w' = (Ok ?a, change ?fs w')"
    using w' load by (simp add: load_array_def io_bind_def step_read io_of_result_def io_return_def)
  with w' show ?thesis
    using ready stack by (simp add: embed_media_def io_seq_def io_bind_def io_of_result_def io_return_def sample_batches io_map.simps)
qed

lemma sample_seal:
  assumes "faults w = []" "visual_ready (present w)" "map_of (present w) [''o'', ''visual_embeddings.npy''] = Some (File b)"
    "length (shape matrix) = 2"
  shows "\<exists>w'. seal_artifact sample_numpy sample_encoder [visual_row] matrix [''o''] w = (Ok [''o''], w')"
proof -
  obtain d where d: "shape_at matrix (Suc 0) = Ok d" using assms(4) by (simp add: shape_at_def)
  have "io_rmtree p w0 = (Ok (), change (fs_remove_tree p (present w0)) w0)" if "faults w0 = []" for p w0
    using step_op [OF that, of "\<lambda>fs. Ok ((), fs_remove_tree p fs)"]
    by (simp add: io_rmtree_def io_ignore_def io_catch_def io_return_def)
  then show ?thesis
    using assms(1-3)
    by (simp add: seal_artifact_def io_bind_def io_seq_def d io_of_result_def io_return_def step_read write_json_def step_out)
qed

lemma sample_artifact_build:
  "\<exists>w. build_visual_embeddings sample_numpy (\<lambda>b. Ok 5) sample_load (\<lambda>_. Ok sample_encoder) 1 [''p''] [''o''] (start visual_files []) =
    (Ok [''o''], w)"
proof -
  define v0 where "v0 = start visual_files []"
  define v1 where "v1 = change visual_files v0"
  define v2 where "v2 = change visual_files v1"
  define v3 where "v3 = change (fs_mkdirs [''o''] visual_files) v2"
  define v4 where "v4 = change (fs_mkdirs (chunk_dir [''o'']) (fs_mkdirs [''o''] visual_files)) v3"
  have v: "faults v0 = []" "faults v1 = []" "faults v2 = []" "faults v3 = []" "faults v4 = []"
    "present v0 = visual_files" "present v1 = visual_files" "present v2 = visual_files"
    "present v3 = fs_mkdirs [''o''] visual_files" "present v4 = fs_mkdirs (chunk_dir [''o'']) (fs_mkdirs [''o''] visual_files)"
    by (simp_all add: v0_def v1_def v2_def v3_def v4_def start_def)
  have ready: "visual_ready (present v4)" "map_of (present v4) [''o'', ''.embedding_chunks'', x] = None" for x
    unfolding v by (simp_all add: visual_ready_def lookup_mkdirs visual_files_def chunk_dir_def)
  obtain matrix w1 where embed: "embed_media sample_numpy sample_encoder (\<lambda>b. Ok 5) 1 [''p''] [''o''] [visual_row] v4 = (Ok (matrix, [5]), w1)"
    "faults w1 = []" "visual_ready (present w1)" "length (shape matrix) = 2"
    using sample_embed [OF v(5) ready] by auto
  obtain c e st where clusters: "\<And>config. config = \<lparr>dup_threshold = 9 / 10, phash_threshold = 2\<rparr> \<Longrightarrow>
      cluster_media sample_numpy config [visual_row] matrix [5] = Ok (c, e, st)"
    using sample_cluster_media [of sample_numpy "\<lparr>dup_threshold = 9 / 10, phash_threshold = 2\<rparr>" matrix 5] by (metis prod_cases3)
  let ?config = "\<lparr>dup_threshold = 9 / 10, phash_threshold = 2\<rparr> :: visual_config"
  have "\<exists>w2. write_artifact sample_numpy ?config sample_encoder [visual_row] [''o''] (matrix, [5]) w1 = (Ok [''o''], w2)"
    using embed(2-4)
    by (simp add: write_artifact_def io_seq_def io_bind_def save_array_def write_json_def write_rows_jsonl_def write_stats_def
      step_out visual_ready_write clusters io_of_result_def io_return_def sample_seal)
  then obtain w2 where out: "write_artifact sample_numpy ?config sample_encoder [visual_row] [''o''] (matrix, [5]) w1 = (Ok [''o''], w2)"
    by blast
  have head: "io_check (\<lambda>fs. media_rows fs [''p'']) v0 = (Ok [visual_row], v1)"
    using step_check [OF v(1), of "\<lambda>fs. media_rows fs [''p'']"] sample_media_rows by (simp add: v v1_def)
  have config: "io_check sample_load v1 = (Ok ?config, v2)"
    using step_check [OF v(2), of sample_load] by (simp add: sample_load_def v v2_def)
  have dirs: "io_mkdirs [''o''] v2 = (Ok (), v3)"
    using step_mkdirs [OF v(3), of "[''o'']"] by (simp add: v v3_def visual_files_def fs_exists_def fs_is_dir_def)
  have chunks: "io_mkdirs (chunk_dir [''o'']) v3 = (Ok (), v4)"
    using step_mkdirs [OF v(4), of "chunk_dir [''o'']"]
    by (simp add: v v4_def visual_files_def fs_exists_def fs_is_dir_def chunk_dir_def lookup_mkdirs)
  have "build_visual_embeddings sample_numpy (\<lambda>b. Ok 5) sample_load (\<lambda>_. Ok sample_encoder) 1 [''p''] [''o''] v0 =
      write_artifact sample_numpy ?config sample_encoder [visual_row] [''o''] (matrix, [5]) w1"
    using head embed(1)
    by (simp add: build_visual_embeddings_def io_bind_def io_seq_def config dirs chunks io_of_result_def io_return_def)
  with out show ?thesis unfolding v0_def by simp
qed

theorem visual_build_validates_witness:
  "\<exists>w. build_visual_embeddings sample_numpy (\<lambda>b. Ok 5) sample_load (\<lambda>_. Ok sample_encoder) 1 [''p''] [''o''] (start visual_files []) =
      (Ok [''o''], w) \<and>
    is_ok (validate_visual_artifact sample_numpy [''p''] [''o''] ''siglip'' ''v1'' [(''size'', JInt 384)] ''cpu'' (present w)) \<and>
    \<not> is_ok (validate_visual_artifact sample_numpy [''p''] [''o''] ''siglip'' ''v1'' [(''size'', JInt 384)] ''cuda'' (present w))"
proof -
  obtain w where w: "build_visual_embeddings sample_numpy (\<lambda>b. Ok 5) sample_load (\<lambda>_. Ok sample_encoder) 1 [''p''] [''o'']
      (start visual_files []) = (Ok [''o''], w)"
    using sample_artifact_build by blast
  have fields: "model_name sample_encoder = ''siglip''" "model_version sample_encoder = ''v1''"
    "preprocessing sample_encoder = [(''size'', JInt 384)]" "device sample_encoder = ''cpu''" by (simp_all add: sample_encoder_def)
  have plain: "js_plain (JObj (preprocessing sample_encoder))" by (simp add: fields)
  have old: "chunks_ok sample_numpy [''o''] visual_files"
    by (auto simp: chunks_ok_def visual_files_def chunk_dir_def split: if_splits)
  have apart: "\<not> prefix [''o''] ([''p''] @ [''media.jsonl''])" by simp
  from visual_build_validates [OF sample_numpy_ok _ plain sample_media_rows apart old w] w show ?thesis
    by (simp add: fields)
qed

section \<open>Structural similarity pools\<close>

text \<open>The pool of a pair of media, if it has one.\<close>

definition pair_pool :: "media_row \<Rightarrow> media_row \<Rightarrow> pyobj \<Rightarrow> pyobj \<Rightarrow> string option result" where
  "pair_pool left right left_message right_message =
     (if channel_id left \<noteq> channel_id right then Ok (Some ''cross_channel'')
      else
        rbind (jitem left_message ''session_index'') (\<lambda>a.
        rbind (jitem right_message ''session_index'') (\<lambda>b.
        if py_eq a b then Ok (Some ''intra_session'')
        else
          rbind (jitem left_message ''sender_id'') (\<lambda>s.
          rbind (jitem right_message ''sender_id'') (\<lambda>s'.
            Ok (if py_eq s s' then Some ''same_sender_cross_session'' else None))))))"

definition pair_score :: "numpy \<Rightarrow> array \<Rightarrow> (string, nat) dict \<Rightarrow> media_row \<Rightarrow> media_row \<Rightarrow> rat result" where
  "pair_score np matrix positions left right =
     rbind (dict_item positions (media_id left)) (\<lambda>i.
     rbind (dict_item positions (media_id right)) (\<lambda>j.
     rbind (shape_at matrix 0) (\<lambda>n.
       if i < n \<and> j < n then Ok (np_product np matrix i j) else Raise IndexError)))"

text \<open>The double loop: the scored pairs with their pools.\<close>

definition scored_pairs ::
  "numpy \<Rightarrow> array \<Rightarrow> (string, nat) dict \<Rightarrow> (string, pyobj) dict \<Rightarrow> media_row list \<Rightarrow> (string option \<times> rat) list result" where
  "scored_pairs np matrix positions messages rows =
     rbind (mapM (\<lambda>(i, left).
       rbind (dict_item messages (parent_message_id left)) (\<lambda>left_message.
         mapM (\<lambda>right.
           rbind (dict_item messages (parent_message_id right)) (\<lambda>right_message.
           rbind (pair_score np matrix positions left right) (\<lambda>score.
           rbind (pair_pool left right left_message right_message) (\<lambda>pool. Ok (pool, score))))) (drop (Suc i) rows)))
       (enumerate0 rows)) (\<lambda>parts. Ok (concat parts))"

definition POOLS :: "string list" where
  "POOLS = [''intra_session'', ''same_sender_cross_session'', ''cross_channel'']"

definition pool_values :: "(string option \<times> rat) list \<Rightarrow> string \<Rightarrow> rat list" where
  "pool_values pairs name = map snd (filter (\<lambda>p. fst p = Some name) pairs)"

definition pool_report :: "numpy \<Rightarrow> rat list \<Rightarrow> json" where
  "pool_report np scores =
     (let counts = map (\<lambda>(name, t). (name, length (filter (\<lambda>s. t \<le> s) scores)))
            [(''0.7'', 7 / 10), (''0.8'', 8 / 10), (''0.9'', 9 / 10)] in
      JObj [(''pair_count'', JInt (int (length scores))),
        (''at_or_above'', JObj (map (\<lambda>(name, n). (name, JInt (int n))) counts)),
        (''histogram'', JArr (map JInt (np_histogram np scores))),
        (''warning'', if list_all (\<lambda>(_, n). n = 0) counts then JStr ''EMPTY_STRUCTURAL_POOL'' else JNull)])"

definition sanity_report :: "numpy \<Rightarrow> (string option \<times> rat) list \<Rightarrow> json" where
  "sanity_report np pairs =
     JObj [(''pools'', JObj (map (\<lambda>name. (name, pool_report np (pool_values pairs name))) POOLS)),
       (''interpretation'', JStr ''Structural proxies only; this report cannot establish D20 sufficiency.'')]"

text \<open>The inputs: media, the positions of their vectors, the matrix and the messages by id.\<close>

definition read_sanity ::
  "numpy \<Rightarrow> path \<Rightarrow> path \<Rightarrow> fs \<Rightarrow> (media_row list \<times> (string, nat) dict \<times> array \<times> (string, pyobj) dict) result" where
  "read_sanity np processed artifact fs =
     rbind (media_rows fs processed) (\<lambda>rows.
     rbind (fs_read_text fs (artifact @ [''visual_embedding_index.json''])) (\<lambda>content.
     rbind (loads content) (\<lambda>v.
     rbind (py_iter v) (\<lambda>index.
     rbind (fs_read fs (artifact @ [''visual_embeddings.npy''])) (\<lambda>bytes.
     rbind (np_load np bytes) (\<lambda>matrix.
     rbind (mapM str_of index) (\<lambda>ids.
     rbind (read_jsonl fs (processed @ [''messages.jsonl''])) (\<lambda>messages.
     rbind (mapM (\<lambda>m. rbind (str_item m ''message_id'') (\<lambda>i. Ok (i, m))) messages) (\<lambda>by_id.
       Ok (rows, dict_of (zip ids [0..<length ids]), matrix, dict_of by_id))))))))))"

definition build_early_distractor_sanity :: "numpy \<Rightarrow> path \<Rightarrow> path \<Rightarrow> path io" where
  "build_early_distractor_sanity np processed artifact =
     io_bind (io_check (\<lambda>fs. rbind (read_sanity np processed artifact fs) (\<lambda>(rows, positions, matrix, messages).
         scored_pairs np matrix positions messages rows))) (\<lambda>pairs.
     io_seq (write_json (artifact @ [''early_distractor_sanity.json'']) (sanity_report np pairs))
     (io_return (artifact @ [''early_distractor_sanity.json''])))"

text \<open>No pair of media is in two pools, and every pair of different channels is in one.\<close>

lemma pair_pool_cross: "channel_id left \<noteq> channel_id right \<Longrightarrow> pair_pool left right l r = Ok (Some ''cross_channel'')"
  by (simp add: pair_pool_def)

lemma pair_pool_known: "pair_pool left right l r = Ok (Some name) \<Longrightarrow> name \<in> set POOLS"
  by (auto simp: pair_pool_def POOLS_def rbind_Ok_iff split: if_splits)

section \<open>The canonical configuration fixture\<close>

text \<open>The file is exactly the text that the configuration hash is taken of.\<close>

definition write_canonical_config_fixture :: "(fs \<Rightarrow> pyobj result) \<Rightarrow> path \<Rightarrow> path io" where
  "write_canonical_config_fixture load destination =
     io_bind (io_check load) (\<lambda>config.
     io_seq (io_mkdirs (butlast destination))
     (io_seq (io_write destination (utf8_encode (dumps js_canonical (canonicalize (JObj config)))))
     (io_return destination)))"

definition canonical_config_hash :: "fs \<Rightarrow> path \<Rightarrow> string result" where
  "canonical_config_hash fs p = rbind (fs_read fs p) (\<lambda>b. Ok (sha256_hex b))"

lemma fixture_hash:
  assumes "write_canonical_config_fixture load p w = (Ok p', w')" "load (present w) = Ok config"
  shows "canonical_config_hash (present w') p = Ok (config_hash config)"
proof -
  have hashed: "config_hash config = sha256_hex (utf8_encode (dumps js_canonical (canonicalize (JObj config))))"
    by (simp add: config_hash_def hash_input_def)
  have "yields (\<lambda>fs. fs = present w) (write_canonical_config_fixture load p)
    (\<lambda>_ fs. canonical_config_hash fs p = Ok (config_hash config))"
    unfolding write_canonical_config_fixture_def
  proof (rule yields_bind [OF yields_check [where Q = "\<lambda>c _. c = config"]])
    fix c
    show "yields (\<lambda>_. c = config) (io_seq (io_mkdirs (butlast p))
       (io_seq (io_write p (utf8_encode (dumps js_canonical (canonicalize (JObj c))))) (io_return p)))
       (\<lambda>_ fs. canonical_config_hash fs p = Ok (config_hash config))"
      by (rule yields_seq [OF yields_mkdirs [where Q = "\<lambda>_ _. c = config"]], simp,
          rule yields_seq [OF yields_write [where Q = "\<lambda>_ fs. canonical_config_hash fs p = Ok (config_hash config)"]])
        (auto simp: canonical_config_hash_def fs_read_def hashed intro: yields_return)
  qed (use assms(2) in simp)
  from yieldsD [OF this refl assms(1)] show ?thesis .
qed

end
