(* ===== verification/Py_Date.thy ===== *)
theory Py_Date
  imports Py_Text
begin

text \<open>
  Calendar dates: \<^verbatim>\<open>date.fromisoformat\<close>, \<^verbatim>\<open>date.isoformat\<close>, the addition of days, the text of a time
  stamp, and \<^verbatim>\<open>int(s)\<close>. A date is its year, month and day, ordered as Python orders dates.
\<close>

section \<open>Integers in text\<close>

definition parse_nat :: "nat \<Rightarrow> string \<Rightarrow> (nat \<times> string) option" where
  "parse_nat n s =
     (if n \<le> length s \<and> list_all is_digit (take n s) then Some (str_nat (take n s), drop n s) else None)"

text \<open>
  \<^verbatim>\<open>int(s)\<close>: blanks around, a sign, digits with single underscores between them.
\<close>

definition py_int :: "string \<Rightarrow> int result" where
  "py_int s =
     (let t = strip s; neg = prefix ''-'' t; body = (if neg \<or> prefix ''+'' t then tl t else t);
          groups = split_on (CHR ''_'') body in
      if list_all (\<lambda>g. g \<noteq> [] \<and> list_all is_digit g) groups
      then Ok ((if neg then - 1 else 1) * int (str_nat (concat groups)))
      else Raise (ValueError ''int''))"

section \<open>The calendar\<close>

type_synonym date = "nat \<times> nat \<times> nat"

definition is_leap :: "nat \<Rightarrow> bool" where
  "is_leap y \<longleftrightarrow> 4 dvd y \<and> (\<not> 100 dvd y \<or> 400 dvd y)"

definition days_in_month :: "nat \<Rightarrow> nat \<Rightarrow> nat" where
  "days_in_month y m = (if m = 2 then (if is_leap y then 29 else 28) else if m \<in> {4, 6, 9, 11} then 30 else 31)"

fun next_day :: "date \<Rightarrow> date" where
  "next_day (y, m, d) =
     (if d < days_in_month y m then (y, m, d + 1) else if m < 12 then (y, m + 1, 1) else (y + 1, 1, 1))"

definition add_days :: "nat \<Rightarrow> date \<Rightarrow> date result" where
  "add_days k d = (let d' = (next_day ^^ k) d in if fst d' > 9999 then Raise OverflowError else Ok d')"

text \<open>The weekday of the first of January, Monday being 0.\<close>

definition first_weekday :: "nat \<Rightarrow> nat" where
  "first_weekday y = (let p = y - 1 in (p * 365 + p div 4 - p div 100 + p div 400) mod 7)"

definition week_date :: "nat \<Rightarrow> nat \<Rightarrow> nat \<Rightarrow> date option" where
  "week_date y w d =
     (let wd = first_weekday y;
          weeks = (if wd = 3 \<or> (wd = 2 \<and> is_leap y) then 53 else 52);
          k = (w - 1) * 7 + (d - 1) in
      if y < 1 \<or> w < 1 \<or> weeks < w \<or> d < 1 \<or> 7 < d then None
      else if 3 < wd then Some ((next_day ^^ (7 - wd + k)) (y, 1, 1))
      else if wd \<le> k then Some ((next_day ^^ (k - wd)) (y, 1, 1))
      else Some (y - 1, 12, 32 - (wd - k)))"

definition valid_date :: "date \<Rightarrow> bool" where
  "valid_date dt = (case dt of (y, m, d) \<Rightarrow>
     1 \<le> y \<and> y \<le> 9999 \<and> 1 \<le> m \<and> m \<le> 12 \<and> 1 \<le> d \<and> d \<le> days_in_month y m)"

text \<open>
  The formats with and without separators, by week or by month. What follows a complete date in a text
  of ten characters is not looked at.
\<close>

definition parse_month_day :: "nat \<Rightarrow> bool \<Rightarrow> string \<Rightarrow> date option" where
  "parse_month_day y sep s =
     Option.bind (parse_nat 2 s) (\<lambda>(m, rest).
       let rest' = (if sep then tl rest else rest) in
       if sep \<and> \<not> prefix ''-'' rest then None
       else map_option (\<lambda>(d, _). (y, m, d)) (parse_nat 2 rest'))"

definition parse_week_day :: "nat \<Rightarrow> bool \<Rightarrow> string \<Rightarrow> date option" where
  "parse_week_day y sep s =
     Option.bind (parse_nat 2 s) (\<lambda>(w, rest).
       if rest = [] then week_date y w 1
       else if sep \<and> \<not> prefix ''-'' rest then None
       else Option.bind (parse_nat 1 (if sep then tl rest else rest)) (\<lambda>(d, _). week_date y w d))"

definition date_fromisoformat :: "string \<Rightarrow> date result" where
  "date_fromisoformat s =
     (if length s \<notin> {7, 8, 10} then Raise (ValueError ''Invalid isoformat string'')
      else case Option.bind (parse_nat 4 s) (\<lambda>(y, rest).
          let sep = prefix ''-'' rest; rest' = (if sep then tl rest else rest) in
          if prefix ''W'' rest' then parse_week_day y sep (tl rest') else parse_month_day y sep rest') of
        None \<Rightarrow> Raise (ValueError ''Invalid isoformat string'')
      | Some d \<Rightarrow> if valid_date d then Ok d else Raise (ValueError ''out of range''))"

definition date_isoformat :: "date \<Rightarrow> string" where
  "date_isoformat dt = (case dt of (y, m, d) \<Rightarrow> zero_pad 4 y @ ''-'' @ zero_pad 2 m @ ''-'' @ zero_pad 2 d)"

text \<open>
  The text of nine o'clock on a day plus a number of seconds, seven hours ahead of UTC.
\<close>

definition timestamp_text :: "date \<Rightarrow> nat \<Rightarrow> string result" where
  "timestamp_text d seconds =
     (let t = 9 * 3600 + seconds; r = t mod 86400 in
      rbind (add_days (t div 86400) d) (\<lambda>d'.
        Ok (date_isoformat d' @ ''T'' @ zero_pad 2 (r div 3600) @ '':'' @ zero_pad 2 (r mod 3600 div 60) @ '':'' @
            zero_pad 2 (r mod 60) @ ''+07:00'')))"

end
