(* ===== verification/Trace_Records.thy ===== *)
theory Trace_Records
  imports Py_Files Py_Regex
begin

text \<open>
  Trace records (\<^verbatim>\<open>src/trace/records.py\<close>) and the append-only trace file (\<^verbatim>\<open>src/trace/writer.py\<close>): the
  envelope, the contract of each payload, the causal references of a complete stream, the writer and
  the reader. The lemmas show what a validated stream guarantees, that every event descends from an
  event without a parent of its own query, and that appended records are read back.
\<close>

section \<open>The contract of a payload\<close>

definition TRACE_SCHEMA_VERSION :: string where
  "TRACE_SCHEMA_VERSION = ''1.0.0''"

definition ACTIONS :: "string list" where
  "ACTIONS =
     [''retrieve_lexical'', ''retrieve_dense'', ''retrieve_visual'', ''filter_metadata'',
      ''expand_context'', ''extract_clues'', ''resolve_bridge'', ''jump'', ''vlm_extract'', ''stop'']"

definition BLOCK_REASONS :: "string list" where
  "BLOCK_REASONS = [''no_unused_clue'', ''visited_query_fingerprint'', ''no_information_gain'', ''budget_exhausted'']"

definition ID_LIST_FIELDS :: "string list" where
  "ID_LIST_FIELDS =
     [''context_message_ids'', ''destination_anchor_ids'', ''new_anchor_ids'', ''used_clue_ids'',
      ''supporting_round_event_ids'', ''missing_constraints_before_jump'', ''constraints_gained'']"

definition RELATIONS :: "string list" where
  "RELATIONS = [''reply_to'', ''same_sender'', ''participant'', ''temporal'', ''semantic'', ''inferred'']"

definition CONSTRAINTS :: "string list" where
  "CONSTRAINTS = [''person'', ''place'', ''time'', ''object'', ''event'', ''target'']"

definition PAYLOAD_FIELDS :: "(string, string list) dict" where
  "PAYLOAD_FIELDS =
     [(''query_started'', []),
      (''result'', [''media_id'', ''parent_message_id'', ''visual_score'', ''context_message_ids'',
         ''structural_relations'', ''supported_constraints'', ''supporting_round_event_ids'']),
      (''llm_call'', [''role'', ''model_id'', ''resolved_provider'', ''resolved_endpoint'', ''prompt_version'',
         ''input_tokens'', ''output_tokens'', ''cost_usd'', ''latency_ms'']),
      (''query_completed'', [''outcome'', ''result_event_id'', ''total_latency_ms''])]"

definition ROUND_FIELDS :: "(string, string list) dict" where
  "ROUND_FIELDS =
     [(''retrieve_lexical'', [''action'', ''anchor_ids'', ''new_anchor_ids'']),
      (''retrieve_dense'', [''action'', ''anchor_ids'', ''new_anchor_ids'']),
      (''retrieve_visual'', [''action'', ''anchor_ids'', ''new_anchor_ids'']),
      (''filter_metadata'', [''action'', ''anchor_ids'', ''new_anchor_ids'']),
      (''expand_context'', [''action'', ''expansion_strategy'', ''strategy'', ''anchor_ids'',
         ''expanded_message_ids'', ''new_anchor_ids'']),
      (''extract_clues'', [''action'', ''clue_ids'']),
      (''resolve_bridge'', [''action'', ''anchor_ids'', ''new_anchor_ids'']),
      (''vlm_extract'', [''action'', ''media_ids'']),
      (''stop'', [''action'']),
      (''jump'', [''action'', ''outcome'', ''jump_query'', ''missing_constraints_before_jump'', ''used_clue_ids'',
         ''destination_anchor_ids'', ''new_anchor_ids'', ''constraints_gained'', ''block_reason'',
         ''evaluated_anchors''])]"

definition is_token_char :: "char \<Rightarrow> bool" where
  "is_token_char c \<longleftrightarrow> is_lower c \<or> is_upper c \<or> is_digit c \<or> c = CHR ''_'' \<or> c = CHR ''-''"

definition is_bearer_char :: "char \<Rightarrow> bool" where
  "is_bearer_char c \<longleftrightarrow> is_token_char c \<or> c = CHR ''.''"

text \<open>
  \<^verbatim>\<open>(?:^|[^a-z0-9])(?:sk-|or-)[A-Za-z0-9_-]{16,}|Bearer\s+[A-Za-z0-9._-]+\<close>, ignoring case: a negated
  class excludes both cases of its letters.
\<close>

definition key_prefix :: regex where
  "key_prefix = Alt (rx_liti ''sk-'') (rx_liti ''or-'')"

definition bearer_pattern :: regex where
  "bearer_pattern = rx_seq [rx_liti ''Bearer'', rx_plus (Chr is_space), rx_plus (Chr is_bearer_char)]"

definition SECRET :: regex where
  "SECRET = Alt
     (rx_seq [Alt Bos (Chr (\<lambda>c. \<not> any_case (\<lambda>x. is_lower x \<or> is_digit x) c)), key_prefix,
        rx_times 16 (Chr is_token_char), Star (Chr is_token_char)])
     bearer_pattern"

definition ids :: "json \<Rightarrow> string \<Rightarrow> unit result" where
  "ids v field =
     ensure (case v of
         JArr items \<Rightarrow> list_all (\<lambda>item. case item of
             JStr s \<Rightarrow> (let t = filter (\<lambda>c. c \<noteq> CHR ''_'' \<and> c \<noteq> CHR ''-'') s in t \<noteq> [] \<and> list_all is_alnum t)
           | _ \<Rightarrow> False) items
       | _ \<Rightarrow> False) (ValueError ''identifier values only'')"

fun forbid_secret :: "json \<Rightarrow> unit result" where
  "forbid_secret (JStr s) = ensure (\<not> rx_found_in SECRET s) (ValueError ''secrets'')"
| "forbid_secret (JObj fs) = forM (\<lambda>(k, v). forbid_secret v) fs"
| "forbid_secret (JArr xs) = forM forbid_secret xs"
| "forbid_secret _ = Ok ()"

text \<open>\<^verbatim>\<open>v in S\<close> for a set of strings, and \<^verbatim>\<open>set(v).issubset(S)\<close>.\<close>

definition in_names :: "json \<Rightarrow> string list \<Rightarrow> bool result" where
  "in_names v names = (if hashable v then Ok (v \<in> JStr ` set names) else Raise (TypeError ''unhashable''))"

definition names_subset :: "json \<Rightarrow> string list \<Rightarrow> bool result" where
  "names_subset v names =
     rbind (py_iter v) (\<lambda>items.
       if list_all hashable items then Ok (list_all (\<lambda>i. i \<in> JStr ` set names) items)
       else Raise (TypeError ''unhashable''))"

record trace_record =
  trace_schema_version :: string
  run_id :: string
  query_id :: string
  event_id :: string
  parent_event_id :: "string option"
  record_type :: string
  payload :: pyobj

abbreviation has_key :: "pyobj \<Rightarrow> string \<Rightarrow> bool" where
  "has_key p k \<equiv> map_of p k \<noteq> None"

definition keys_within :: "pyobj \<Rightarrow> string list \<Rightarrow> bool" where
  "keys_within p allowed \<longleftrightarrow> list_all (\<lambda>(k, _). k \<in> set allowed) p"

definition check_jump_query :: "pyobj \<Rightarrow> unit result" where
  "check_jump_query p =
     (case jget p ''jump_query'' of
        JObj query \<Rightarrow>
          if keys_within query [''clue_ids'', ''filters''] then ids (jget query ''clue_ids'') ''jump_query.clue_ids''
          else Raise (ValueError ''jump_query'')
      | _ \<Rightarrow> Raise (ValueError ''jump_query''))"

definition jump_evidence :: "string list" where
  "jump_evidence =
     [''jump_query'', ''missing_constraints_before_jump'', ''used_clue_ids'', ''destination_anchor_ids'',
      ''new_anchor_ids'', ''constraints_gained'']"

definition check_jump :: "pyobj \<Rightarrow> unit result" where
  "check_jump p =
     rbind (in_names (jget p ''outcome'') [''executed'', ''blocked'']) (\<lambda>known.
       if \<not> known then Raise (ValueError ''jump requires executed or blocked outcome'')
       else if py_eq (jget p ''outcome'') (JStr ''executed'') then
         rbind (ensure (list_all (has_key p) jump_evidence) (ValueError ''missing required evidence'')) (\<lambda>_.
         rbind (ids (jget p ''used_clue_ids'') ''used_clue_ids'') (\<lambda>_. check_jump_query p))
       else
         rbind (in_names (jget p ''block_reason'') BLOCK_REASONS) (\<lambda>closed.
         rbind (ensure closed (ValueError ''block_reason'')) (\<lambda>_.
           ensure (\<not> (\<not> py_eq (jget p ''block_reason'') (JStr ''no_unused_clue'') \<and> \<not> truthy (jget p ''used_clue_ids'')))
             (ValueError ''requires used_clue_ids''))))"

definition check_round :: "pyobj \<Rightarrow> unit result" where
  "check_round p =
     (let action = jget p ''action'' in
      rbind (in_names action ACTIONS) (\<lambda>known.
      rbind (ensure known (ValueError ''closed action enum'')) (\<lambda>_.
      rbind (str_of action) (\<lambda>a.
      rbind (ensure (keys_within p (dict_get ROUND_FIELDS a [])) (ValueError ''action contract'')) (\<lambda>_.
      rbind (if a = ''jump'' then check_jump p else Ok ()) (\<lambda>_.
        ensure (\<not> (a = ''expand_context'' \<and> (has_key p ''jump_query'' \<or> has_key p ''used_clue_ids'')))
          (ValueError ''context expansion''))))))) "

definition check_result :: "pyobj \<Rightarrow> unit result" where
  "check_result p =
     rbind (names_subset (dict_get p ''structural_relations'' (JArr [])) RELATIONS) (\<lambda>closed.
     rbind (ensure closed (ValueError ''relation enum'')) (\<lambda>_.
     rbind (names_subset (dict_get p ''supported_constraints'' (JArr [])) CONSTRAINTS) (\<lambda>closed'.
       ensure closed' (ValueError ''constraint enum''))))"

definition validate_contract :: "trace_record \<Rightarrow> unit result" where
  "validate_contract r =
     (let p = payload r in
      rbind (forbid_secret (JObj p)) (\<lambda>_.
      rbind (case map_of PAYLOAD_FIELDS (record_type r) of
          None \<Rightarrow> Ok () | Some allowed \<Rightarrow> ensure (keys_within p allowed) (ValueError ''trace contract'')) (\<lambda>_.
      rbind (forM (\<lambda>field. ids (jget p field) field) (filter (has_key p) ID_LIST_FIELDS)) (\<lambda>_.
      rbind (if record_type r = ''round'' then check_round p else Ok ()) (\<lambda>_.
      rbind (if record_type r = ''result'' then check_result p else Ok ()) (\<lambda>_.
        ensure (\<not> (record_type r = ''query_completed'' \<and>
            py_eq (jget p ''outcome'') (JStr ''answered'') \<noteq> truthy (jget p ''result_event_id'')))
          (ValueError ''exactly one final result reference'')))))))"

section \<open>The envelope\<close>

text \<open>The field constraints, checked in the order the fields are declared, and the model validator.\<close>

definition is_uuid_text :: "string \<Rightarrow> bool" where
  "is_uuid_text s \<longleftrightarrow> length s = 36 \<and> list_all (\<lambda>c. is_digit c \<or> (is_lower c \<and> code c \<le> 102) \<or> c = CHR ''-'') s"

definition is_query_id :: "string \<Rightarrow> bool" where
  "is_query_id s \<longleftrightarrow>
     (prefix ''q_'' s \<and> length s > 2 \<and> list_all (\<lambda>c. is_lower c \<or> is_digit c \<or> c = CHR ''_'') (drop 2 s)) \<or>
     is_uuid_text s"

definition is_ulid :: "string \<Rightarrow> bool" where
  "is_ulid s \<longleftrightarrow> length s = 26 \<and>
     list_all (\<lambda>c. is_digit c \<or> (is_upper c \<and> c \<notin> set ''ILOU'')) s"

definition RECORD_TYPES :: "string list" where
  "RECORD_TYPES = [''query_started'', ''round'', ''result'', ''llm_call'', ''query_completed'']"

definition envelope_ok :: "trace_record \<Rightarrow> bool" where
  "envelope_ok r \<longleftrightarrow>
     trace_schema_version r = TRACE_SCHEMA_VERSION \<and> is_uuid_text (run_id r) \<and> is_query_id (query_id r) \<and>
     is_ulid (event_id r) \<and> (case parent_event_id r of None \<Rightarrow> True | Some p \<Rightarrow> is_ulid p) \<and> record_type r \<in> set RECORD_TYPES"

definition make_record :: "trace_record \<Rightarrow> trace_record result" where
  "make_record r =
     rbind (ensure (envelope_ok r) (ValidationError ''envelope'')) (\<lambda>_.
       case validate_contract r of
         Ok _ \<Rightarrow> Ok r
       | Raise (ValueError msg) \<Rightarrow> Raise (ValidationError msg)
       | Raise e \<Rightarrow> Raise e)"

section \<open>Causal references\<close>

definition check_parent :: "(string, trace_record) dict \<Rightarrow> trace_record \<Rightarrow> (string, trace_record) dict result" where
  "check_parent seen r =
     (if map_of seen (event_id r) \<noteq> None then Raise (ValueError ''duplicate trace event id'')
      else rbind (case parent_event_id r of
            None \<Rightarrow> Ok ()
          | Some p \<Rightarrow>
              if p = [] then Ok ()
              else (case map_of seen p of
                  None \<Rightarrow> Raise (ValueError ''trace parent'')
                | Some parent \<Rightarrow> ensure (query_id parent = query_id r) (ValueError ''trace parent'')))
        (\<lambda>_. Ok (AList.update (event_id r) r seen)))"

definition check_final :: "(string, trace_record) dict \<Rightarrow> trace_record \<Rightarrow> unit result" where
  "check_final seen r =
     (let result_id = jget (payload r) ''result_event_id'' in
      if record_type r = ''query_completed'' \<and> truthy result_id then
        if \<not> hashable result_id then Raise (TypeError ''unhashable'')
        else (case (case result_id of JStr i \<Rightarrow> map_of seen i | _ \<Rightarrow> None) of
            None \<Rightarrow> Raise (ValueError ''final result reference'')
          | Some result \<Rightarrow> ensure (record_type result = ''result'' \<and> query_id result = query_id r)
              (ValueError ''final result reference''))
      else Ok ())"

definition validate_trace :: "trace_record list \<Rightarrow> trace_record list result" where
  "validate_trace records =
     rbind (foldM check_parent [] records) (\<lambda>seen.
     rbind (forM (check_final seen) records) (\<lambda>_. Ok records))"

section \<open>What a validated stream guarantees\<close>

definition linked :: "trace_record list \<Rightarrow> trace_record \<Rightarrow> bool" where
  "linked earlier r \<longleftrightarrow>
     (case parent_event_id r of
        None \<Rightarrow> True
      | Some p \<Rightarrow> p = [] \<or> list_ex (\<lambda>q. event_id q = p \<and> query_id q = query_id r) earlier)"

definition final_ok :: "trace_record list \<Rightarrow> trace_record \<Rightarrow> bool" where
  "final_ok records r \<longleftrightarrow>
     (record_type r = ''query_completed'' \<and> truthy (jget (payload r) ''result_event_id'') \<longrightarrow>
        list_ex (\<lambda>q. jget (payload r) ''result_event_id'' = JStr (event_id q) \<and> record_type q = ''result'' \<and>
          query_id q = query_id r) records)"

definition causal :: "trace_record list \<Rightarrow> bool" where
  "causal records \<longleftrightarrow>
     distinct (map event_id records) \<and> (\<forall>i < length records. linked (take i records) (records ! i)) \<and>
     list_all (final_ok records) records"

abbreviation by_event :: "trace_record list \<Rightarrow> (string, trace_record) dict" where
  "by_event records \<equiv> map (\<lambda>r. (event_id r, r)) records"

lemma by_event_lookup:
  "distinct (map event_id records) \<Longrightarrow> map_of (by_event records) e = Some q \<longleftrightarrow> q \<in> set records \<and> event_id q = e"
  by (subst map_of_eq_Some_iff) (auto simp: comp_def)

lemma by_event_ex:
  "distinct (map event_id records) \<Longrightarrow>
    list_ex (\<lambda>q. event_id q = e \<and> P q) records \<longleftrightarrow> (\<exists>q. map_of (by_event records) e = Some q \<and> P q)"
  unfolding list_ex_iff by_event_lookup by blast

lemma check_parent_Ok:
  assumes "distinct (map event_id prev)"
  shows "check_parent (by_event prev) r = Ok s \<longleftrightarrow>
    event_id r \<notin> event_id ` set prev \<and> linked prev r \<and> s = by_event (prev @ [r])"
proof -
  let ?link = "case parent_event_id r of
            None \<Rightarrow> Ok ()
          | Some p \<Rightarrow>
              if p = [] then Ok ()
              else (case map_of (by_event prev) p of
                  None \<Rightarrow> Raise (ValueError ''trace parent'')
                | Some parent \<Rightarrow> ensure (query_id parent = query_id r) (ValueError ''trace parent''))"
  have new: "map_of (by_event prev) (event_id r) = None \<longleftrightarrow> event_id r \<notin> event_id ` set prev"
    by (simp add: map_of_eq_None_iff image_image)
  have upd: "AList.update (event_id r) r (by_event prev) = by_event (prev @ [r])"
    if "event_id r \<notin> event_id ` set prev"
    using that by (induction prev) auto
  have link: "?link = Ok () \<longleftrightarrow> linked prev r"
    unfolding linked_def by_event_ex [OF assms] by (simp add: ensure_Ok_iff split: option.splits)
  show ?thesis
  proof (cases "event_id r \<in> event_id ` set prev")
    case True
    then show ?thesis using new by (simp add: check_parent_def)
  next
    case False
    then have "check_parent (by_event prev) r = rbind ?link (\<lambda>_. Ok (by_event (prev @ [r])))"
      using new upd by (simp add: check_parent_def)
    then show ?thesis using False link by (cases ?link) auto
  qed
qed

lemma fold_check_parent:
  assumes "distinct (map event_id prev)"
  shows "foldM check_parent (by_event prev) records = Ok s \<longleftrightarrow>
    distinct (map event_id (prev @ records)) \<and>
    (\<forall>i < length records. linked (prev @ take i records) (records ! i)) \<and> s = by_event (prev @ records)"
  using assms
proof (induction records arbitrary: prev)
  case Nil
  then show ?case by auto
next
  case (Cons r records)
  show ?case
  proof (cases "event_id r \<notin> event_id ` set prev \<and> linked prev r")
    case True
    then have step: "check_parent (by_event prev) r = Ok (by_event (prev @ [r]))"
      using check_parent_Ok [OF Cons.prems] by blast
    have d: "distinct (map event_id (prev @ [r]))" using True Cons.prems by simp
    have "foldM check_parent (by_event prev) (r # records) = foldM check_parent (by_event (prev @ [r])) records"
      by (simp only: foldM.simps step rbind.simps)
    then show ?thesis using Cons.IH [OF d] True by (auto simp: less_Suc_eq_0_disj)
  next
    case False
    then have "\<not> is_ok (check_parent (by_event prev) r)" using check_parent_Ok [OF Cons.prems] by (auto simp: is_ok_iff)
    then obtain e where "check_parent (by_event prev) r = Raise e" by (auto simp: not_ok_iff)
    then show ?thesis using False by (auto simp: less_Suc_eq_0_disj)
  qed
qed

lemma check_final_Ok:
  assumes "distinct (map event_id records)"
  shows "check_final (by_event records) r = Ok () \<longleftrightarrow> final_ok records r"
proof (cases "record_type r = ''query_completed'' \<and> truthy (jget (payload r) ''result_event_id'')")
  case True
  show ?thesis
  proof (cases "jget (payload r) ''result_event_id''")
    case (JStr i)
    have "final_ok records r \<longleftrightarrow>
        list_ex (\<lambda>q. event_id q = i \<and> (record_type q = ''result'' \<and> query_id q = query_id r)) records"
      using True JStr by (auto simp: final_ok_def list_ex_iff)
    then show ?thesis
      using True JStr unfolding by_event_ex [OF assms]
      by (simp add: check_final_def ensure_Ok_iff split: option.splits)
  qed (use True in \<open>simp_all add: check_final_def final_ok_def hashable_def list_ex_iff\<close>)
next
  case False
  then show ?thesis by (auto simp: check_final_def final_ok_def Let_def)
qed

lemma validate_trace_Ok:
  "validate_trace records = Ok vs \<longleftrightarrow> vs = records \<and> causal records"
proof -
  have "foldM check_parent [] records = Ok s \<longleftrightarrow>
    distinct (map event_id records) \<and> (\<forall>i < length records. linked (take i records) (records ! i)) \<and> s = by_event records" for s
    using fold_check_parent [of "[]" records s] by simp
  then show ?thesis
    unfolding validate_trace_def rbind_Ok_iff forM_Ok_iff causal_def list_all_iff using check_final_Ok by auto
qed

text \<open>
  C23: validate_trace returns its records exactly when event ids are distinct, every parent is
  an earlier event of the same query, and every final result reference names a result of the
  same query.
\<close>

theorem trace_accepts_iff:
  "validate_trace records = Ok vs \<longleftrightarrow> vs = records \<and> causal records"
  by (rule validate_trace_Ok)

text \<open>Parents lead to an event without one.\<close>

inductive descends :: "trace_record list \<Rightarrow> trace_record \<Rightarrow> trace_record \<Rightarrow> bool" for records where
  desc_self: "r \<in> set records \<Longrightarrow> descends records r r"
| desc_parent: "r \<in> set records \<Longrightarrow> q \<in> set records \<Longrightarrow> parent_event_id r = Some (event_id q) \<Longrightarrow>
    descends records q s \<Longrightarrow> descends records r s"

lemma causal_rooted:
  assumes "causal records" "list_all envelope_ok records" "i < length records"
  shows "\<exists>s. descends records (records ! i) s \<and> parent_event_id s = None \<and> query_id s = query_id (records ! i)"
  using assms(3)
proof (induction i rule: less_induct)
  case (less i)
  let ?r = "records ! i"
  have r: "?r \<in> set records" using less.prems by simp
  show ?case
  proof (cases "parent_event_id ?r")
    case None
    then show ?thesis using desc_self [OF r] by blast
  next
    case (Some p)
    have "is_ulid p" using assms(2) r Some by (auto simp: list_all_iff envelope_ok_def)
    then have "p \<noteq> []" by (auto simp: is_ulid_def)
    moreover have "linked (take i records) ?r" using assms(1) less.prems by (simp add: causal_def)
    ultimately obtain q where q: "q \<in> set (take i records)" "event_id q = p" "query_id q = query_id ?r"
      using Some by (auto simp: linked_def list_ex_iff)
    then obtain j where j: "j < i" "records ! j = q" using less.prems by (auto simp: in_set_conv_nth)
    obtain s where s: "descends records q s" "parent_event_id s = None" "query_id s = query_id q"
      using less.IH [OF j(1)] j less.prems by auto
    have "q \<in> set records" using q(1) by (rule in_set_takeD)
    from desc_parent [OF r this _ s(1)] Some q(2) have "descends records ?r s" by simp
    with s(2,3) q(3) show ?thesis by auto
  qed
qed

text \<open>
  C24: In a validated stream every event descends, by parent references within its query, from
  an event without a parent.
\<close>

theorem trace_events_rooted:
  assumes "validate_trace records = Ok vs" "list_all envelope_ok records" "r \<in> set records"
  shows "\<exists>s. descends records r s \<and> parent_event_id s = None \<and> query_id s = query_id r"
proof -
  have "causal records" using assms(1) by (simp add: validate_trace_Ok)
  then show ?thesis using causal_rooted [OF _ assms(2)] assms(3) by (metis in_set_conv_nth)
qed

section \<open>The trace file\<close>

text \<open>
  \<^verbatim>\<open>model_dump_json\<close>: the fields in the order they are declared, no blanks, characters above 127 as they are.
\<close>

definition js_wire :: jstyle where
  "js_wire = js_compact\<lparr>js_ascii := False\<rparr>"

definition dump_record :: "trace_record \<Rightarrow> json" where
  "dump_record r = JObj
     [(''trace_schema_version'', JStr (trace_schema_version r)), (''run_id'', JStr (run_id r)),
      (''query_id'', JStr (query_id r)), (''event_id'', JStr (event_id r)),
      (''parent_event_id'', case parent_event_id r of None \<Rightarrow> JNull | Some p \<Rightarrow> JStr p),
      (''record_type'', JStr (record_type r)), (''payload'', JObj (payload r))]"

definition record_line :: "trace_record \<Rightarrow> string" where
  "record_line r = dumps js_wire (dump_record r)"

definition record_keys :: "string list" where
  "record_keys = [''trace_schema_version'', ''run_id'', ''query_id'', ''event_id'', ''parent_event_id'',
     ''record_type'', ''payload'']"

abbreviation invalid :: "'a result" where
  "invalid \<equiv> Raise (ValidationError ''record'')"

definition str_field :: "pyobj \<Rightarrow> string \<Rightarrow> string result" where
  "str_field fs k = (case map_of fs k of Some (JStr s) \<Rightarrow> Ok s | _ \<Rightarrow> invalid)"

definition record_of :: "json \<Rightarrow> trace_record result" where
  "record_of v =
     (case v of
        JObj fs \<Rightarrow>
          if \<not> keys_within fs record_keys then invalid
          else rbind (str_field fs ''trace_schema_version'') (\<lambda>version.
               rbind (str_field fs ''run_id'') (\<lambda>run.
               rbind (str_field fs ''query_id'') (\<lambda>query.
               rbind (str_field fs ''event_id'') (\<lambda>event.
               rbind (case jget fs ''parent_event_id'' of JNull \<Rightarrow> Ok None | JStr p \<Rightarrow> Ok (Some p) | _ \<Rightarrow> invalid) (\<lambda>parent.
               rbind (str_field fs ''record_type'') (\<lambda>kind.
               rbind (case dict_get fs ''payload'' (JObj []) of JObj p \<Rightarrow> Ok p | _ \<Rightarrow> invalid) (\<lambda>p.
                 make_record \<lparr>trace_schema_version = version, run_id = run, query_id = query, event_id = event,
                   parent_event_id = parent, record_type = kind, payload = p\<rparr>)))))))
      | _ \<Rightarrow> invalid)"

definition model_validate_json :: "string \<Rightarrow> trace_record result" where
  "model_validate_json line = (case loads line of Raise _ \<Rightarrow> invalid | Ok v \<Rightarrow> record_of v)"

definition holds_secret_marker :: "string \<Rightarrow> bool" where
  "holds_secret_marker encoded \<longleftrightarrow> contains encoded ''sk-'' \<or> contains encoded ''or-'' \<or> contains encoded ''Bearer ''"

definition trace_append :: "path \<Rightarrow> trace_record \<Rightarrow> unit io" where
  "trace_append p r =
     (let encoded = utf8_encode (record_line r @ [CHR 0x0A]) in
      io_seq (io_mkdirs (butlast p))
        (if holds_secret_marker encoded then io_raise (ValueError ''refusing to persist a trace secret'')
         else io_seq (io_append p [])
           (io_finally
             (io_seq io_call (io_seq (io_append p encoded) io_call))
             (io_seq io_call io_call))))"

definition trace_read :: "fs \<Rightarrow> path \<Rightarrow> trace_record list result" where
  "trace_read fs p =
     rbind (fs_read_text fs p) (\<lambda>content.
     rbind (mapM model_validate_json (filter (\<lambda>line. line \<noteq> []) (splitlines content))) validate_trace)"

text \<open>Values that hold no float and, in keys and strings, no character above 126.\<close>

definition narrow :: "string \<Rightarrow> bool" where
  "narrow s \<longleftrightarrow> list_all (\<lambda>c. code c < 127) s"

fun narrow_json :: "json \<Rightarrow> bool" where
  "narrow_json (JStr s) = narrow s"
| "narrow_json (JArr xs) = list_all narrow_json xs"
| "narrow_json (JObj fs) = list_all (\<lambda>(k, v). narrow k \<and> narrow_json v) fs"
| "narrow_json _ = True"

definition record_valid :: "trace_record \<Rightarrow> bool" where
  "record_valid r \<longleftrightarrow> make_record r = Ok r \<and> js_plain (dump_record r) \<and> narrow_json (dump_record r)"

lemma dump_str_narrow: "narrow s \<Longrightarrow> dump_str False s = dump_str True s"
  by (induction s) (auto simp: narrow_def dump_str_def esc_char_def)

lemma js_wire_simps: "js_indent js_wire = js_indent js_compact" "js_sort js_wire = js_sort js_compact"
  "js_item_sep js_wire = js_item_sep js_compact" "js_key_sep js_wire = js_key_sep js_compact"
  "js_ascii js_wire = False" "js_ascii js_compact = True"
  by (simp_all add: js_wire_def js_compact_def js_canonical_def)

lemma dump_narrow: "narrow_json v \<Longrightarrow> dump js_wire l v = dump js_compact l v"
proof (induction js_wire l v rule: dump.induct)
  case (6 l xs)
  then have eq: "map (dump js_wire (Suc l)) xs = map (dump js_compact (Suc l)) xs" by (auto simp: list_all_iff)
  show ?case by (simp only: dump.simps bracketed_def newline_def js_wire_simps eq)
next
  case (7 l fs)
  then have eq: "map (\<lambda>(k, v). (k, dump_str (js_ascii js_wire) k @ js_key_sep js_wire @ dump js_wire (Suc l) v)) fs =
      map (\<lambda>(k, v). (k, dump_str (js_ascii js_compact) k @ js_key_sep js_compact @ dump js_compact (Suc l) v)) fs"
    by (auto simp: list_all_iff js_wire_simps dump_str_narrow)
  have "key_order js_wire = (key_order js_compact :: (string \<times> string) list \<Rightarrow> _)"
    by (rule ext) (simp add: key_order_def js_wire_simps)
  with eq show ?case
    by (simp only: dump.simps bracketed_def newline_def) (simp only: js_wire_simps)
qed (simp_all add: js_wire_simps dump_str_narrow)

lemma record_line_compact: "record_valid r \<Longrightarrow> record_line r = dumps js_compact (dump_record r)"
  by (simp add: record_line_def dumps_def dump_narrow record_valid_def)

lemma record_of_dump: "make_record r = Ok r \<Longrightarrow> record_of (dump_record r) = Ok r"
  by (cases r; cases "parent_event_id r")
    (simp_all add: record_of_def dump_record_def keys_within_def record_keys_def str_field_def dict_get_def)

interpretation trace_rows: row_codec record_line model_validate_json record_valid
proof
  fix r assume r: "record_valid r"
  have "js_ordered js_compact (dump_record r) = dump_record r" by (rule js_ordered_unsorted) (simp add: js_compact_def)
  then have row: "js_row js_compact (dump_record r)" using r by (simp add: js_row_def record_valid_def)
  show "model_validate_json (record_line r) = Ok r"
    using compact.dec_enc [OF row] record_of_dump r
    by (simp add: model_validate_json_def record_line_compact record_valid_def)
  show "\<not> is_line_end c" if "c \<in> set (record_line r)" for c
    using compact.enc_inline [OF row] that r by (simp add: record_line_compact)
qed

lemma line_ascii: "record_valid r \<Longrightarrow> is_ascii (record_line r)"
  using dumps_text(1) [of js_compact "dump_record r"]
  by (simp add: record_line_compact record_valid_def js_text_def js_compact_def js_canonical_def)

lemma line_not_empty: "record_valid r \<Longrightarrow> record_line r \<noteq> []"
proof
  assume "record_valid r" "record_line r = []"
  then have "model_validate_json [] = Ok r" using trace_rows.dec_enc by metis
  then show False by (simp add: model_validate_json_def loads_def)
qed

lemma rows_bytes:
  assumes "list_all record_valid rs"
  shows "utf8_encode (write_rows record_line rs) = write_rows record_line rs"
    "utf8_decode (write_rows record_line rs) = Some (write_rows record_line rs)"
    "universal_newlines (write_rows record_line rs) = write_rows record_line rs"
proof -
  have a: "is_ascii (write_rows record_line rs)"
    using assms line_ascii by (auto simp: write_rows_def is_ascii_def list_all_iff)
  then show e: "utf8_encode (write_rows record_line rs) = write_rows record_line rs" by (rule utf8_encode_ascii)
  show "utf8_decode (write_rows record_line rs) = Some (write_rows record_line rs)"
    using e by (metis utf8_decode_encode)
  have "is_line_end (CHR 0x0D)" by (simp add: is_line_end_def)
  then have "CHR 0x0D \<notin> set (record_line r)" if "r \<in> set rs" for r
    using trace_rows.enc_inline [of r] assms that by (auto simp: list_all_iff)
  then have "c \<noteq> CHR 0x0D" if "c \<in> set (write_rows record_line rs)" for c
    using that by (auto simp: write_rows_def split: if_splits)
  then show "universal_newlines (write_rows record_line rs) = write_rows record_line rs"
    by (intro universal_newlines_id) blast
qed

lemma trace_read_rows:
  assumes "list_all record_valid rs" "causal rs" "map_of fs p = Some (File (write_rows record_line rs))"
  shows "trace_read fs p = Ok rs"
proof -
  have "filter (\<lambda>line. line \<noteq> []) (map record_line rs) = map record_line rs"
    using assms(1) line_not_empty by (auto simp: filter_id_conv list_all_iff)
  moreover have "mapM model_validate_json (map record_line rs) = Ok rs"
    using trace_rows.rows_roundtrip [OF assms(1)] by (simp add: read_rows_def trace_rows.splitlines_rows [OF assms(1)])
  ultimately show ?thesis
    using assms(2,3) rows_bytes [OF assms(1)]
    by (simp add: trace_read_def fs_read_text_def fs_read_def trace_rows.splitlines_rows [OF assms(1)] validate_trace_Ok)
qed

section \<open>Appending\<close>

lemma triple_append:
  assumes "\<And>fs b'. A fs \<Longrightarrow> B fs \<Longrightarrow> parent_ok fs p \<Longrightarrow> \<not> fs_is_dir fs p \<Longrightarrow> prefix b' b \<Longrightarrow>
      A (fs_write p (file_text fs p @ b') fs) \<and> E (fs_write p (file_text fs p @ b') fs)"
    and "\<And>fs. A fs \<Longrightarrow> B fs \<Longrightarrow> parent_ok fs p \<Longrightarrow> \<not> fs_is_dir fs p \<Longrightarrow> Q (fs_write p (file_text fs p @ b) fs)"
    and "\<And>fs. A fs \<Longrightarrow> B fs \<Longrightarrow> E fs"
    and "\<And>fs. c \<Longrightarrow> A fs \<Longrightarrow> B fs \<Longrightarrow> parent_ok fs p \<and> \<not> fs_is_dir fs p"
  shows "triple (holds c A B) (io_append p b) (\<lambda>_. holds c A Q) (\<lambda>w. \<not> c \<and> holds c A E w)"
proof -
  note torn = assms(1) [OF _ _ _ _ take_is_prefix]
  note full = assms(1) [OF _ _ _ _ prefix_order.refl]
  show ?thesis
    unfolding io_append_def by (rule triple_op) (use torn full assms(2-4) in \<open>auto split: if_splits\<close>)
qed

text \<open>The directories above the file may be made, and the file is none itself.\<close>

definition trace_ready :: "path \<Rightarrow> fs \<Rightarrow> bool" where
  "trace_ready p fs \<longleftrightarrow> p \<noteq> [] \<and> \<not> fs_is_dir fs p \<and>
     (\<forall>q. prefix q (butlast p) \<longrightarrow> fs_exists fs q \<longrightarrow> fs_is_dir fs q)"

abbreviation encoded_line :: "trace_record \<Rightarrow> string" where
  "encoded_line r \<equiv> utf8_encode (record_line r @ [CHR 0x0A])"

text \<open>What a reader may find: the old text, then some part of the record.\<close>

definition grown :: "path \<Rightarrow> string \<Rightarrow> string \<Rightarrow> fs \<Rightarrow> bool" where
  "grown p old new fs \<longleftrightarrow> (\<exists>b. prefix b new \<and> file_text fs p = old @ b)"

lemma file_text_mkdirs: "prefix q (butlast p) \<Longrightarrow> p \<noteq> [] \<Longrightarrow> file_text (fs_mkdirs q fs) p = file_text fs p"
proof -
  assume q: "prefix q (butlast p)" "p \<noteq> []"
  have "\<not> prefix p q"
  proof
    assume "prefix p q"
    then have "length p \<le> length (butlast p)" using q(1) by (meson le_trans prefix_length_le)
    with q(2) show False by (cases p rule: rev_cases) auto
  qed
  then show ?thesis by (auto simp: file_text_def lookup_mkdirs)
qed

lemma file_text_write [simp]: "file_text (fs_write p b fs) p = b"
  by (simp add: file_text_def)

lemma trace_ready_mkdirs:
  assumes "trace_ready p fs"
  shows "trace_ready p (fs_mkdirs (butlast p) fs)" "parent_ok (fs_mkdirs (butlast p) fs) p"
proof -
  have np: "\<not> prefix p (butlast p)"
    using assms by (cases p rule: rev_cases) (auto simp: trace_ready_def prefix_def)
  show "trace_ready p (fs_mkdirs (butlast p) fs)"
    using assms np by (auto simp: trace_ready_def fs_is_dir_def fs_exists_def lookup_mkdirs)
  show "parent_ok (fs_mkdirs (butlast p) fs) p"
    using assms by (auto simp: trace_ready_def parent_ok_def fs_is_dir_def fs_exists_def lookup_mkdirs)
qed

lemma trace_ready_write: "trace_ready p fs \<Longrightarrow> trace_ready p (fs_write p b fs)"
  by (auto simp: trace_ready_def fs_is_dir_def fs_exists_def)
    (metis append_butlast_last_id not_Cons_self2 prefixE prefix_append same_prefix_nil)+

lemma parent_ok_write: "trace_ready p fs \<Longrightarrow> parent_ok fs p \<Longrightarrow> parent_ok (fs_write p b fs) p"
  by (auto simp: parent_ok_def fs_is_dir_def trace_ready_def)

lemma trace_append_triple:
  assumes p: "p \<noteq> []" and plain: "\<not> holds_secret_marker (encoded_line r)"
    and inc: "\<And>fs. grown p old (encoded_line r) fs \<Longrightarrow> A fs"
  shows "triple (holds c A (\<lambda>fs. file_text fs p = old \<and> (c \<longrightarrow> trace_ready p fs)))
    (trace_append p r)
    (\<lambda>_. holds c A (\<lambda>fs. file_text fs p = old @ encoded_line r \<and> (c \<longrightarrow> trace_ready p fs)))
    (\<lambda>w. \<not> c \<and> holds c A (\<lambda>_. True) w)"
proof -
  let ?B = "\<lambda>t fs. file_text fs p = t \<and> (c \<longrightarrow> trace_ready p fs \<and> parent_ok fs p)"
  let ?E = "\<lambda>w. \<not> c \<and> holds c A (\<lambda>_. True) w"
  have A: "A fs" if "file_text fs p = old @ b" "prefix b (encoded_line r)" for fs b
    using that by (auto intro!: inc simp: grown_def)
  have call: "triple (holds c A B) io_call (\<lambda>_. holds c A B) ?E" for B
    by (rule triple_conseq [OF triple_call]) (auto simp: holds_def)
  have call': "triple ?E io_call (\<lambda>_. ?E) ?E"
  proof (cases c)
    case True
    then show ?thesis by (simp add: triple_def)
  next
    case False
    then show ?thesis using triple_call [of False A "\<lambda>_. True"] by simp
  qed
  have app: "triple (holds c A (?B old)) (io_append p b) (\<lambda>_. holds c A (?B (old @ b))) ?E"
    if "prefix b (encoded_line r)" for b
  proof (rule triple_append)
    fix fs b' assume "?B old fs" "prefix b' b"
    then show "A (fs_write p (file_text fs p @ b') fs) \<and> True"
      using A [of "fs_write p (file_text fs p @ b') fs" b'] that by (auto intro: prefix_order.trans)
  next
    fix fs assume "?B old fs"
    then show "?B (old @ b) (fs_write p (file_text fs p @ b) fs)"
      by (auto intro: trace_ready_write parent_ok_write)
  next
    fix fs assume c "?B old fs"
    then show "parent_ok fs p \<and> \<not> fs_is_dir fs p" by (auto simp: trace_ready_def)
  qed simp
  have mk: "triple (holds c A (\<lambda>fs. file_text fs p = old \<and> (c \<longrightarrow> trace_ready p fs))) (io_mkdirs (butlast p))
      (\<lambda>_. holds c A (?B old)) ?E"
  proof (rule triple_mkdirs)
    fix fs k assume "file_text fs p = old \<and> (c \<longrightarrow> trace_ready p fs)"
    then show "A (fs_mkdirs (take k (butlast p)) fs) \<and> True"
      using A [of "fs_mkdirs (take k (butlast p)) fs" "[]"] file_text_mkdirs [of "take k (butlast p)" p fs] p
      by (simp add: take_is_prefix)
  next
    fix fs assume "file_text fs p = old \<and> (c \<longrightarrow> trace_ready p fs)"
    then show "?B old (fs_mkdirs (butlast p) fs)"
      using file_text_mkdirs [of "butlast p" p fs] p trace_ready_mkdirs [of p fs] by auto
  next
    fix fs q assume c "file_text fs p = old \<and> (c \<longrightarrow> trace_ready p fs)" "prefix q (butlast p)" "fs_exists fs q"
    then show "fs_is_dir fs q" by (auto simp: trace_ready_def)
  qed simp
  have body: "triple (holds c A (?B old)) (io_seq io_call (io_seq (io_append p (encoded_line r)) io_call))
      (\<lambda>_. holds c A (?B (old @ encoded_line r))) ?E"
    by (rule triple_seq [OF call triple_seq [OF app call]]) simp
  have last: "triple (holds c A (?B old)) (io_finally (io_seq io_call (io_seq (io_append p (encoded_line r)) io_call))
      (io_seq io_call io_call)) (\<lambda>_. holds c A (?B (old @ encoded_line r))) ?E"
    by (rule triple_finally [OF body triple_seq [OF call' call'] triple_seq [OF call call]])
  have "triple (holds c A (\<lambda>fs. file_text fs p = old \<and> (c \<longrightarrow> trace_ready p fs))) (trace_append p r)
      (\<lambda>_. holds c A (?B (old @ encoded_line r))) ?E"
    unfolding trace_append_def Let_def using plain
    by (simp add: triple_seq [OF mk triple_seq [OF app [of "[]", simplified] last]])
  then show ?thesis by (rule triple_conseq) (auto simp: holds_def)
qed

text \<open>A record with a secret marker changes no byte of the file.\<close>

lemma trace_append_secret:
  assumes p: "p \<noteq> []" and secret: "holds_secret_marker (encoded_line r)"
    and inc: "\<And>fs. file_text fs p = old \<Longrightarrow> A fs"
  shows "triple (holds c A (\<lambda>fs. file_text fs p = old)) (trace_append p r)
    (\<lambda>_ _. False) (\<lambda>w. holds False A (\<lambda>fs. file_text fs p = old) w)"
proof -
  have mk: "triple (holds False A (\<lambda>fs. file_text fs p = old)) (io_mkdirs (butlast p))
      (\<lambda>_. holds False A (\<lambda>fs. file_text fs p = old)) (\<lambda>w. \<not> False \<and> holds False A (\<lambda>fs. file_text fs p = old) w)"
  proof (rule triple_mkdirs)
    fix fs k assume "file_text fs p = old"
    then show "A (fs_mkdirs (take k (butlast p)) fs) \<and> file_text (fs_mkdirs (take k (butlast p)) fs) p = old"
      using inc file_text_mkdirs [OF take_is_prefix p] by simp
  next
    fix fs assume "file_text fs p = old"
    then show "file_text (fs_mkdirs (butlast p) fs) p = old"
      using file_text_mkdirs [OF prefix_order.refl p] by simp
  qed simp_all
  have "triple (holds False A (\<lambda>fs. file_text fs p = old)) (trace_append p r)
    (\<lambda>_ _. False) (\<lambda>w. holds False A (\<lambda>fs. file_text fs p = old) w)"
    unfolding trace_append_def Let_def using secret
    by (simp, intro triple_seq [OF mk [simplified]]) (auto intro: triple_raise)
  then show ?thesis by (rule triple_conseq) (auto simp: holds_def)
qed

text \<open>
  C25: Whatever happens while a record is appended, every observable file system has the old
  text of the trace file followed by a prefix of the record's line: bytes already written are
  never changed.
\<close>

theorem trace_file_append_only:
  assumes "p \<noteq> []" "trace_append p r (start fs0 fl) = (res, w)" "fs \<in> set (states w)"
  shows "\<exists>b. prefix b (encoded_line r) \<and> file_text fs p = file_text fs0 p @ b"
proof -
  let ?A = "grown p (file_text fs0 p) (encoded_line r)"
  have pre: "holds False ?A (\<lambda>fs. file_text fs p = file_text fs0 p \<and> (False \<longrightarrow> trace_ready p fs)) (start fs0 fl)"
    "holds False ?A (\<lambda>fs. file_text fs p = file_text fs0 p) (start fs0 fl)"
    by (auto simp: holds_def start_def states_def grown_def)
  have "list_all ?A (states w)"
  proof (cases "holds_secret_marker (encoded_line r)")
    case True
    have "triple (holds False ?A (\<lambda>fs. file_text fs p = file_text fs0 p)) (trace_append p r)
      (\<lambda>_ _. False) (\<lambda>w. holds False ?A (\<lambda>fs. file_text fs p = file_text fs0 p) w)"
      by (rule trace_append_secret [OF assms(1) True]) (auto simp: grown_def)
    from tripleD [OF this pre(2)] assms(2) show ?thesis by (cases res) (auto simp: holds_def)
  next
    case False
    note t = trace_append_triple [OF assms(1) False, of "file_text fs0 p" ?A False, OF _]
    from tripleD [OF t pre(1)] assms(2) show ?thesis by (cases res) (auto simp: holds_def)
  qed
  then show ?thesis using assms(3) by (auto simp: list_all_iff grown_def)
qed

lemma trace_append_all:
  assumes p: "p \<noteq> []" and plain: "list_all (\<lambda>r. \<not> holds_secret_marker (encoded_line r)) rs"
  shows "triple (holds True (\<lambda>_. True) (\<lambda>fs. file_text fs p = old \<and> trace_ready p fs)) (io_for (trace_append p) rs)
    (\<lambda>_. holds True (\<lambda>_. True) (\<lambda>fs. file_text fs p = old @ concat (map encoded_line rs) \<and> trace_ready p fs))
    (\<lambda>_. False)"
  using plain
proof (induction rs arbitrary: old)
  case Nil
  then show ?case by (simp add: triple_return)
next
  case (Cons r rs)
  have one: "triple (holds True (\<lambda>_. True) (\<lambda>fs. file_text fs p = old \<and> trace_ready p fs)) (trace_append p r)
    (\<lambda>_. holds True (\<lambda>_. True) (\<lambda>fs. file_text fs p = (old @ encoded_line r) \<and> trace_ready p fs)) (\<lambda>_. False)"
    using trace_append_triple [OF p, of r old "\<lambda>_. True" True] Cons.prems by simp
  have "triple (holds True (\<lambda>_. True) (\<lambda>fs. file_text fs p = (old @ encoded_line r) \<and> trace_ready p fs)) (io_for (trace_append p) rs)
    (\<lambda>_. holds True (\<lambda>_. True) (\<lambda>fs. file_text fs p = (old @ encoded_line r) @ concat (map encoded_line rs) \<and> trace_ready p fs))
    (\<lambda>_. False)"
    by (rule Cons.IH) (use Cons.prems in simp)
  from triple_seq [OF one this] show ?case by simp
qed

text \<open>Records appended to a readable file are read back after those already there.\<close>


section \<open>A concrete stream\<close>

definition started_sample :: trace_record where
  "started_sample = \<lparr>trace_schema_version = ''1.0.0'', run_id = replicate 36 (CHR ''0''), query_id = ''q_1'',
     event_id = replicate 26 (CHR ''A''), parent_event_id = None, record_type = ''query_started'', payload = []\<rparr>"

definition stop_sample :: trace_record where
  "stop_sample = \<lparr>trace_schema_version = ''1.0.0'', run_id = replicate 36 (CHR ''0''), query_id = ''q_1'',
     event_id = replicate 26 (CHR ''B''), parent_event_id = Some (replicate 26 (CHR ''A'')), record_type = ''round'',
     payload = [(''action'', JStr ''stop'')]\<rparr>"

lemma samples_causal: "causal [started_sample, stop_sample]" "causal [started_sample]"
  by (simp_all add: causal_def started_sample_def stop_sample_def linked_def final_ok_def less_Suc_eq_0_disj
      numeral_2_eq_2 replicate_eq_replicate)

lemma started_valid: "record_valid started_sample"
  by code_simp

lemma stop_valid: "record_valid stop_sample"
  by code_simp

lemma stop_plain: "\<not> holds_secret_marker (encoded_line stop_sample)"
  by code_simp

theorem trace_events_rooted_witness:
  "\<exists>s. descends [started_sample, stop_sample] stop_sample s \<and> parent_event_id s = None \<and> query_id s = ''q_1''"
proof -
  have "validate_trace [started_sample, stop_sample] = Ok [started_sample, stop_sample]"
    using samples_causal by (simp add: validate_trace_Ok)
  from trace_events_rooted [OF this, of stop_sample]
  show ?thesis using started_valid stop_valid
    by (auto simp: record_valid_def make_record_def rbind_Ok_iff ensure_Ok_iff stop_sample_def)
qed

abbreviation trace_sample :: path where
  "trace_sample \<equiv> [''runs'', ''trace.jsonl'']"

theorem trace_file_append_only_witness:
  "\<exists>b. prefix b (encoded_line stop_sample) \<and>
    file_text (present (snd (trace_append trace_sample stop_sample (start [([''runs''], Dir)] [])))) trace_sample = b"
proof -
  obtain res w where w: "trace_append trace_sample stop_sample (start [([''runs''], Dir)] []) = (res, w)" by fastforce
  have "present w \<in> set (states w)" by (simp add: states_def)
  from trace_file_append_only [OF _ w this] show ?thesis
    by (simp add: w file_text_def)
qed


end
