(* ===== verification/Corpus.thy ===== *)
theory Corpus
  imports Py_Date Py_Float Py_Regex Sha256 Config Golden_Rows Trace_Records
begin

text \<open>
  The canonical corpus (\<^verbatim>\<open>src/ingest/normalization/pipeline.py\<close>): sessions read from the raw tree become
  messages, media, mention relations, an orphan inventory, channels, senders and memberships. The rows
  are records here and JSON objects where they are written. \<^verbatim>\<open>yaml.safe_load\<close> and the order in which
  Python walks a set of names are parameters; the raw tree has no symbolic links, so \<^verbatim>\<open>resolve()\<close> is
  the identity.
\<close>

section \<open>Names and places\<close>

definition IMAGE_SUFFIXES :: "string list" where
  "IMAGE_SUFFIXES = [''.gif'', ''.jpeg'', ''.jpg'', ''.png'', ''.webp'']"

text \<open>\<^verbatim>\<open>^[A-E]_\<close> and \<^verbatim>\<open>(?<=[a-z])(?=[A-Z])\<close>\<close>

definition PREFIX :: regex where
  "PREFIX = rx_seq [Bos, Chr (one_of ''ABCDE''), rx_lit ''_'']"

definition CAMEL :: regex where
  "CAMEL = Seq (Behind is_lower) (Ahead is_upper)"

definition channel_id :: "path \<Rightarrow> path \<Rightarrow> string result" where
  "channel_id raw_root session_path =
     (case drop (length raw_root) session_path of
        family # dialogue # _ \<Rightarrow>
          rbind (py_int (remove_prefix dialogue ''dialogue'')) (\<lambda>number.
            Ok ((if family = ''multi-party'' then ''multiparty'' else ''dyadic'') @ ''_d'' @ int_str number))
      | _ \<Rightarrow> Raise (ValueError ''unpack''))"

abbreviation session_name :: "path \<Rightarrow> string" where
  "session_name session_path \<equiv> last (butlast session_path)"

definition session_number :: "path \<Rightarrow> int result" where
  "session_number session_path = py_int (remove_prefix (session_name session_path) ''session'')"

definition canonical_sender :: "pyobj \<Rightarrow> string \<Rightarrow> json" where
  "canonical_sender aliases role =
     (if role = ''Everyone'' then JNull
      else case map_of aliases role of
        Some name \<Rightarrow> name
      | None \<Rightarrow>
          let candidate = rx_sub CAMEL (\<lambda>_. '' '') (rx_sub PREFIX (\<lambda>_. []) role) in
          dict_get aliases candidate (JStr candidate))"

definition sender_id :: "string \<Rightarrow> string result" where
  "sender_id name =
     (let normalized_name = str_replace (CHR 0x27 # []) '' apostrophe '' (str_replace ''.'' '' dot '' (str_lower name));
          normalized = strip_char (CHR ''_'')
            (rx_sub (rx_plus (Chr (\<lambda>c. \<not> is_lower c \<and> \<not> is_digit c))) (\<lambda>_. ''_'') normalized_name) in
      if normalized = [] then Raise (ValueError ''cannot create an ASCII sender id'')
      else Ok (''sender_'' @ normalized))"

definition parse_date :: "pyobj \<Rightarrow> string \<Rightarrow> date result" where
  "parse_date mappings raw_date =
     (case map_of mappings raw_date of
        None \<Rightarrow> Raise (ValueError ''timeline date has no committed mapping'')
      | Some v \<Rightarrow> rbind (str_of v) date_fromisoformat)"

definition session_files :: "fs \<Rightarrow> path \<Rightarrow> path list" where
  "session_files fs raw_root =
     sort_key (\<lambda>p. join ''/'' (drop (length raw_root) p))
       (filter (\<lambda>p. strict_prefix raw_root p \<and> last p = ''session.json'') (map fst fs))"

section \<open>Sessions whose date runs backwards\<close>

type_synonym session = "path \<times> pyobj \<times> date"

definition channel_sessions :: "path \<Rightarrow> session list \<Rightarrow> (string, (int \<times> date) list) dict result" where
  "channel_sessions raw_root sessions = foldM (\<lambda>by_channel (p, _, d).
     rbind (channel_id raw_root p) (\<lambda>c.
     rbind (session_number p) (\<lambda>n. Ok (dict_append c (n, d) by_channel)))) [] sessions"

definition inversions :: "(int \<times> date) list \<Rightarrow> int list" where
  "inversions ordered =
     concat (map (\<lambda>(a, b). if snd a > snd b then [fst a, fst b] else []) (zip ordered (tl ordered)))"

definition temporal_conflict_sessions :: "path \<Rightarrow> session list \<Rightarrow> (string \<times> int) list result" where
  "temporal_conflict_sessions raw_root sessions =
     rbind (channel_sessions raw_root sessions) (\<lambda>by_channel.
       Ok (dedup (concat (map (\<lambda>(c, ss). map (Pair c) (inversions (sort ss))) by_channel))))"

section \<open>Mentions\<close>

text \<open>\<^verbatim>\<open>casefold\<close>: lower case, with the sharp s spelt out.\<close>

definition casefold :: "string \<Rightarrow> string" where
  "casefold s = concat (map (\<lambda>c. if code c = 223 then ''ss'' else [to_lower c]) s)"

definition no_blanks :: "string \<Rightarrow> string" where
  "no_blanks s = filter (\<lambda>c. c \<noteq> CHR '' '') s"

text \<open>The matches of a pattern with the places where they begin and end.\<close>

definition rx_spans :: "regex \<Rightarrow> string \<Rightarrow> (nat \<times> nat \<times> rx_match) list" where
  "rx_spans r s = snd (foldl (\<lambda>(i, spans) x. case x of
     Plain c \<Rightarrow> (i + 1, spans)
   | Hit m \<Rightarrow> (i + length (fst m), spans @ [(i, i + length (fst m), m)])) (0, []) (rx_pieces r [] s))"

definition mention_pattern :: regex where
  "mention_pattern =
     Seq (Chr (is_char (CHR ''@''))) (Grp 1 (rx_plus (Chr (\<lambda>c. \<not> one_of ('',!.?;:'' @ [CHR 0x0A]) c))))"

text \<open>\<^verbatim>\<open>max(xs, key=f)\<close>: the first of the greatest.\<close>

definition first_max :: "('a \<Rightarrow> nat) \<Rightarrow> 'a list \<Rightarrow> 'a" where
  "first_max f xs = foldl (\<lambda>best x. if f x > f best then x else best) (hd xs) (tl xs)"

definition shared_confidence :: "rat \<Rightarrow> nat \<Rightarrow> rat" where
  "shared_confidence c n = round_places 2 (float_of (binary64 c / of_nat n))"

record relation =
  rel_confidence :: rat
  rel_candidates :: "string list"
  rel_start :: nat
  rel_end :: nat

definition mention_candidates :: "(string, string \<times> rat) dict \<Rightarrow> string \<Rightarrow> (string \<times> string \<times> rat) list" where
  "mention_candidates sender_by_name target =
     filter (\<lambda>(name, _). starts_with (no_blanks (casefold target)) (no_blanks (casefold name))) sender_by_name"

definition mention_relation ::
  "(string, string \<times> rat) dict \<Rightarrow> (string, string list) dict \<Rightarrow> nat \<times> nat \<times> rx_match \<Rightarrow> relation list" where
  "mention_relation sender_by_name message_ids_by_sender place = (case place of (i, j, m) \<Rightarrow>
     let candidates = mention_candidates sender_by_name (strip (rx_grp m 1)) in
     if candidates = [] then []
     else let (_, sid, confidence) = first_max (\<lambda>(name, _). length name) candidates in
       [\<lparr>rel_confidence = (if length candidates > 1 then shared_confidence confidence (length candidates) else confidence),
         rel_candidates = dict_get message_ids_by_sender sid [], rel_start = i, rel_end = j\<rparr>])"

definition mention_relations ::
  "(string, string \<times> rat) dict \<Rightarrow> (string, string list) dict \<Rightarrow> string \<Rightarrow> relation list" where
  "mention_relations sender_by_name message_ids_by_sender text =
     concat (map (mention_relation sender_by_name message_ids_by_sender) (rx_spans mention_pattern text))"

definition relation_json :: "relation \<Rightarrow> json" where
  "relation_json r = JObj
     [(''relation_type'', JStr ''mention''),
      (''derivation_method'', JStr ''longest_known_sender_match_v1''),
      (''confidence'', JFloat (rel_confidence r)),
      (''candidate_message_ids'', JArr (map JStr (rel_candidates r))),
      (''evidence_span'', JObj [(''start'', JInt (int (rel_start r))), (''end'', JInt (int (rel_end r)))]),
      (''model_version'', JStr ''rule-v1'')]"

section \<open>Messages and media\<close>

record message =
  m_message_id :: string
  m_channel_id :: string
  m_sender_id :: "string option"
  m_text :: string
  m_timestamp :: string
  m_turn_index :: nat
  m_session_index :: int
  m_source_session_id :: json
  m_rank :: nat
  m_conflict :: bool
  m_relations :: "relation list"

record media =
  md_source :: path
  md_media_id :: string
  md_parent :: string
  md_channel_id :: string
  md_raw_path :: string
  md_sha256 :: string
  md_object_ref :: string

record channel =
  ch_family :: string
  ch_dialogue :: string

record corpus =
  c_messages :: "message list"
  c_media :: "media list"
  c_referenced :: "path list"
  c_names :: "string list"
  c_channels :: "(string, channel) dict"

definition opt_json :: "string option \<Rightarrow> json" where
  "opt_json x = (case x of None \<Rightarrow> JNull | Some s \<Rightarrow> JStr s)"

definition message_row :: "message \<Rightarrow> pyobj" where
  "message_row m =
     [(''message_id'', JStr (m_message_id m)), (''channel_id'', JStr (m_channel_id m)),
      (''sender_id'', opt_json (m_sender_id m)), (''text'', JStr (m_text m)),
      (''timestamp'', JStr (m_timestamp m)), (''timestamp_source'', JStr ''synthetic''),
      (''source_turn_index'', JInt (int (m_turn_index m))), (''session_index'', JInt (m_session_index m)),
      (''source_session_id'', m_source_session_id m), (''chronological_rank'', JInt (int (m_rank m))),
      (''temporal_order_conflict'', JBool (m_conflict m)), (''reply_to_message_id'', JNull), (''thread_id'', JNull),
      (''inferred_relations'', JArr (map relation_json (m_relations m)))]"

definition media_row_json :: "media \<Rightarrow> pyobj" where
  "media_row_json x =
     [(''media_id'', JStr (md_media_id x)), (''parent_message_id'', JStr (md_parent x)),
      (''channel_id'', JStr (md_channel_id x)), (''raw_relative_path'', JStr (md_raw_path x)),
      (''content_sha256'', JStr (md_sha256 x)), (''storage_object_ref'', JStr (md_object_ref x))]"

definition object_ref :: "string \<Rightarrow> string" where
  "object_ref content_hash = ''sha256/'' @ content_hash"

definition turn_sender :: "pyobj \<Rightarrow> pyobj \<Rightarrow> (string \<times> string) option result" where
  "turn_sender aliases turn =
     rbind (str_item turn ''role'') (\<lambda>role.
       let canonical_name = canonical_sender aliases role in
       if \<not> truthy canonical_name then Ok None
       else rbind (str_of canonical_name) (\<lambda>name. rbind (sender_id name) (\<lambda>sid. Ok (Some (name, sid)))))"

definition turn_media :: "fs \<Rightarrow> path \<Rightarrow> path \<Rightarrow> string \<Rightarrow> nat \<Rightarrow> pyobj \<Rightarrow> media option result" where
  "turn_media fs raw_root session_path cid turn_index content =
     (let image = jget content ''image''; mid = cid @ '':'' @ session_name session_path @ '':'' @ nat_str turn_index in
      if \<not> truthy image then Ok None
      else
        rbind (str_of image) (\<lambda>image_name.
        let source = path_join (butlast session_path @ [''image'']) image_name in
        case map_of fs source of
          Some (File bytes) \<Rightarrow>
            rbind (ensure (prefix raw_root source) (ValueError ''not in the subpath'')) (\<lambda>_.
              Ok (Some
                \<lparr>md_source = source, md_media_id = mid @ '':'' @ image_name, md_parent = mid, md_channel_id = cid,
                 md_raw_path = join ''/'' (drop (length raw_root) source), md_sha256 = sha256_hex bytes,
                 md_object_ref = object_ref (sha256_hex bytes)\<rparr>))
        | _ \<Rightarrow> Raise (ValueError ''missing referenced media'')))"

definition turn_step ::
  "fs \<Rightarrow> path \<Rightarrow> pyobj \<Rightarrow> (string \<times> int) list \<Rightarrow> session \<Rightarrow> string \<Rightarrow> int \<Rightarrow> corpus \<Rightarrow> nat \<times> json \<Rightarrow> corpus result" where
  "turn_step fs raw_root aliases conflicts s cid n st it =
     (case (s, it) of ((session_path, session, day), (turn_index, turn)) \<Rightarrow>
       rbind (obj_fields turn) (\<lambda>turn.
       rbind (turn_sender aliases turn) (\<lambda>sender.
       rbind (obj_fields (dict_get turn ''content'' (JObj []))) (\<lambda>content.
       rbind (timestamp_text day (90 * turn_index)) (\<lambda>timestamp.
       rbind (str_of (dict_get content ''text'' (JStr []))) (\<lambda>text.
       rbind (turn_media fs raw_root session_path cid turn_index content) (\<lambda>image.
       let here = cid @ '':'' @ session_name session_path; session_id = jget session ''session_id'' in
       Ok (st\<lparr>
         c_messages := c_messages st @ [
           \<lparr>m_message_id = here @ '':'' @ nat_str turn_index, m_channel_id = cid, m_sender_id = map_option snd sender,
            m_text = text, m_timestamp = timestamp, m_turn_index = turn_index, m_session_index = n,
            m_source_session_id = (if truthy session_id then session_id else JStr here), m_rank = 0,
            m_conflict = ((cid, n) \<in> set conflicts), m_relations = []\<rparr>],
         c_media := c_media st @ (case image of None \<Rightarrow> [] | Some x \<Rightarrow> [x]),
         c_referenced := (case image of None \<Rightarrow> c_referenced st | Some x \<Rightarrow> List.insert (md_source x) (c_referenced st)),
         c_names := (case sender of None \<Rightarrow> c_names st | Some (name, _) \<Rightarrow> List.insert name (c_names st))\<rparr>))))))))"

definition session_step :: "fs \<Rightarrow> path \<Rightarrow> pyobj \<Rightarrow> (string \<times> int) list \<Rightarrow> corpus \<Rightarrow> session \<Rightarrow> corpus result" where
  "session_step fs raw_root aliases conflicts st s =
     (case s of (session_path, session, day) \<Rightarrow>
       rbind (channel_id raw_root session_path) (\<lambda>cid.
       rbind (session_number session_path) (\<lambda>n.
       rbind (nth_item (rev session_path @ [''/'']) 4) (\<lambda>family.
       rbind (nth_item (rev session_path @ [''/'']) 3) (\<lambda>dialogue.
       rbind (jitem session ''dialogue'') (\<lambda>turns.
       rbind (py_iter turns) (\<lambda>turns.
         foldM (turn_step fs raw_root aliases conflicts s cid n)
           (st\<lparr>c_channels := AList.update cid \<lparr>ch_family = family, ch_dialogue = dialogue\<rparr> (c_channels st)\<rparr>)
           (enumerate0 turns))))))))"

section \<open>Relations and ranks\<close>

definition sender_names :: "(string list \<Rightarrow> string list) \<Rightarrow> pyobj \<Rightarrow> string list \<Rightarrow> (string, string \<times> rat) dict result" where
  "sender_names set_order mention_aliases names =
     rbind (mapM (\<lambda>name. rbind (sender_id name) (\<lambda>sid. Ok (name, (sid, 1)))) (set_order names)) (\<lambda>known.
     rbind (mapM (\<lambda>(alias, v). rbind (str_of v) (\<lambda>name. rbind (sender_id name) (\<lambda>sid. Ok (alias, (sid, 9 / 10)))))
       mention_aliases) (\<lambda>aliases.
       Ok (foldl (\<lambda>d (alias, x). AList.update alias x d) (dict_of known) aliases)))"

definition messages_by_sender :: "message list \<Rightarrow> (string, string list) dict" where
  "messages_by_sender messages = foldl (\<lambda>d m. case m_sender_id m of
     None \<Rightarrow> d | Some sid \<Rightarrow> dict_append sid (m_message_id m) d) [] messages"

definition relate :: "(string, string \<times> rat) dict \<Rightarrow> message list \<Rightarrow> message list" where
  "relate sender_by_name messages =
     map (\<lambda>m. m\<lparr>m_relations := mention_relations sender_by_name (messages_by_sender messages) (m_text m)\<rparr>) messages"

definition chronology :: "message \<Rightarrow> int \<times> string \<times> string \<times> nat \<times> string" where
  "chronology m = (m_session_index m, take 10 (m_timestamp m), m_channel_id m, m_turn_index m, m_message_id m)"

definition chronological_order :: "message list \<Rightarrow> nat list" where
  "chronological_order messages = sort_key (\<lambda>i. chronology (messages ! i)) [0..<length messages]"

definition rank_messages :: "message list \<Rightarrow> message list" where
  "rank_messages messages =
     foldl (\<lambda>ms (rank, i). ms[i := (ms ! i)\<lparr>m_rank := rank\<rparr>]) messages (enumerate0 (chronological_order messages))"

section \<open>The tables\<close>

text \<open>\<^verbatim>\<open>Path.suffix\<close> of a file name.\<close>

definition path_suffix :: "string \<Rightarrow> string" where
  "path_suffix name =
     (let tail = takeWhile (\<lambda>c. c \<noteq> CHR ''.'') (rev name); stem = length name - length tail in
      if tail = [] \<or> stem \<le> 1 then [] else CHR ''.'' # rev tail)"

definition all_images :: "fs \<Rightarrow> path \<Rightarrow> path list" where
  "all_images fs raw_root = map fst (filter (\<lambda>(p, n). strict_prefix raw_root p \<and> ''.git'' \<notin> set p \<and> n \<noteq> Dir \<and>
     str_lower (path_suffix (last p)) \<in> set IMAGE_SUFFIXES) fs)"

record orphan =
  or_id :: string
  or_raw_path :: string
  or_sha256 :: string
  or_object_ref :: string

definition orphan_of :: "fs \<Rightarrow> path \<Rightarrow> path \<Rightarrow> orphan result" where
  "orphan_of fs raw_root source =
     (let relative = join ''/'' (drop (length raw_root) source) in
      rbind (fs_read fs source) (\<lambda>bytes.
        Ok \<lparr>or_id = ''orphan_'' @ take 20 (sha256_hex (utf8_encode relative)), or_raw_path = relative,
            or_sha256 = sha256_hex bytes, or_object_ref = object_ref (sha256_hex bytes)\<rparr>))"

definition orphan_paths :: "fs \<Rightarrow> path \<Rightarrow> path list \<Rightarrow> path list" where
  "orphan_paths fs raw_root referenced =
     sort_key (join ''/'') (filter (\<lambda>p. p \<notin> set referenced) (all_images fs raw_root))"

definition orphan_row :: "orphan \<Rightarrow> pyobj" where
  "orphan_row x =
     [(''orphan_id'', JStr (or_id x)), (''raw_relative_path'', JStr (or_raw_path x)), (''content_sha256'', JStr (or_sha256 x)),
      (''storage_object_ref'', JStr (or_object_ref x)), (''excluded_from_runtime_retrieval'', JBool True)]"

definition sender_rows :: "(string list \<Rightarrow> string list) \<Rightarrow> string list \<Rightarrow> pyobj list result" where
  "sender_rows set_order names = mapM (\<lambda>name. rbind (sender_id name) (\<lambda>sid.
     Ok [(''sender_id'', JStr sid), (''display_name'', JStr name)])) (sort_key casefold (set_order names))"

definition channel_rows :: "(string, channel) dict \<Rightarrow> pyobj list" where
  "channel_rows channels = map (\<lambda>cid. case map_of channels cid of
       None \<Rightarrow> []
     | Some c \<Rightarrow> [(''channel_id'', JStr cid), (''source_family'', JStr (ch_family c)), (''source_dialogue'', JStr (ch_dialogue c))])
     (sort (dict_keys channels))"

definition membership_row :: "json \<Rightarrow> string \<Rightarrow> pyobj" where
  "membership_row caller cid =
     [(''caller_id'', caller), (''channel_id'', JStr cid), (''role'', JStr ''reader''),
      (''valid_from'', JStr ''2024-01-01T00:00:00+07:00''), (''valid_to'', JNull)]"

definition membership_rows :: "pyobj \<Rightarrow> (string, channel) dict \<Rightarrow> pyobj list result" where
  "membership_rows access channels =
     rbind (py_iter (dict_get access ''inaccessible_channels'' (JArr []))) (\<lambda>inaccessible.
     rbind (as_keys inaccessible) (\<lambda>keys.
       mapM (\<lambda>cid. rbind (jitem access ''benchmark_caller_id'') (\<lambda>caller. Ok (membership_row caller cid)))
         (filter (\<lambda>cid. JStr cid \<notin> set keys) (sort (dict_keys channels)))))"

record tables =
  t_messages :: "message list"
  t_media :: "media list"
  t_orphans :: "orphan list"
  t_channels :: "pyobj list"
  t_senders :: "pyobj list"
  t_memberships :: "pyobj list"
  t_referenced :: "path list"
  t_conflicts :: "(string \<times> int) list"
  t_sources :: "(path \<times> string) list"

text \<open>The rows of the corpus, and the object every media and orphan file is stored as.\<close>

definition corpus_tables ::
  "(string list \<Rightarrow> string list) \<Rightarrow> fs \<Rightarrow> path \<Rightarrow> pyobj \<Rightarrow> pyobj \<Rightarrow> pyobj \<Rightarrow> session list \<Rightarrow> tables result" where
  "corpus_tables set_order fs raw_root aliases mention_aliases access sessions =
     rbind (temporal_conflict_sessions raw_root sessions) (\<lambda>conflicts.
     rbind (foldM (session_step fs raw_root aliases conflicts)
       \<lparr>c_messages = [], c_media = [], c_referenced = [], c_names = [], c_channels = []\<rparr> sessions) (\<lambda>st.
     rbind (sender_names set_order mention_aliases (c_names st)) (\<lambda>sender_by_name.
     let paths = orphan_paths fs raw_root (c_referenced st) in
     rbind (mapM (orphan_of fs raw_root) paths) (\<lambda>orphans.
     rbind (sender_rows set_order (c_names st)) (\<lambda>senders.
     rbind (membership_rows access (c_channels st)) (\<lambda>memberships.
       Ok \<lparr>t_messages = rank_messages (relate sender_by_name (c_messages st)), t_media = c_media st, t_orphans = orphans,
           t_channels = channel_rows (c_channels st), t_senders = senders, t_memberships = memberships,
           t_referenced = c_referenced st, t_conflicts = conflicts,
           t_sources = map (\<lambda>x. (md_source x, md_sha256 x)) (c_media st) @
             zip paths (map or_sha256 orphans)\<rparr>))))))"

section \<open>The build\<close>

definition read_session :: "fs \<Rightarrow> pyobj \<Rightarrow> path \<Rightarrow> session result" where
  "read_session fs timeline p =
     rbind (fs_read_text fs p) (\<lambda>text.
     rbind (loads_object text) (\<lambda>payload.
     rbind (str_item payload ''timeline_date'') (\<lambda>raw_date.
     rbind (parse_date timeline raw_date) (\<lambda>day. Ok (p, payload, day)))))"

definition config_mapping :: "(string \<Rightarrow> json result) \<Rightarrow> fs \<Rightarrow> path \<Rightarrow> string \<Rightarrow> string \<Rightarrow> json result" where
  "config_mapping yaml fs base name key =
     rbind (read_yaml yaml fs (base @ [''configs'', name])) (\<lambda>m. Ok (dict_get m key (JObj [])))"

definition mapping_of :: "json \<Rightarrow> pyobj result" where
  "mapping_of v = (case v of JObj m \<Rightarrow> Ok m | _ \<Rightarrow> Raise (TypeError ''must be mappings''))"

definition read_corpus ::
  "(string \<Rightarrow> json result) \<Rightarrow> (string list \<Rightarrow> string list) \<Rightarrow> path \<Rightarrow> fs \<Rightarrow> tables result" where
  "read_corpus yaml set_order base fs =
     (let raw_root = base @ [''data'', ''raw'', ''H2HMEM''] in
      rbind (config_mapping yaml fs base ''timeline_dates.yaml'' ''dates'') (\<lambda>timeline.
      rbind (config_mapping yaml fs base ''senders_alias.yaml'' ''aliases'') (\<lambda>aliases.
      rbind (config_mapping yaml fs base ''mention_aliases.yaml'' ''aliases'') (\<lambda>mention_aliases.
      rbind (read_yaml yaml fs (base @ [''configs'', ''channel_access.yaml''])) (\<lambda>access.
      rbind (mapping_of timeline) (\<lambda>timeline.
      rbind (mapping_of aliases) (\<lambda>aliases.
      rbind (mapping_of mention_aliases) (\<lambda>mention_aliases.
      rbind (mapM (read_session fs timeline) (session_files fs raw_root)) (\<lambda>sessions.
      rbind (ensure (length sessions = 308) (ValueError ''expected 308 sessions'')) (\<lambda>_.
        corpus_tables set_order fs raw_root aliases mention_aliases access sessions))))))))))"

definition write_jsonl :: "path \<Rightarrow> pyobj list \<Rightarrow> unit io" where
  "write_jsonl p rows =
     io_write p (utf8_encode (concat (map (\<lambda>row. dumps js_lines_raw (JObj row) @ [CHR 0x0A]) rows)))"

definition copy_object :: "path \<Rightarrow> path \<times> string \<Rightarrow> unit io" where
  "copy_object objects_dir item = (case item of (source, content_hash) \<Rightarrow>
     io_bind (io_ask (\<lambda>fs. fs_exists fs (objects_dir @ [content_hash]))) (\<lambda>ex.
       if ex then io_return ()
       else io_seq (io_mkdirs objects_dir)
         (io_bind (io_read source) (io_write (objects_dir @ [content_hash])))))"

definition corpus_files :: "tables \<Rightarrow> (string \<times> pyobj list) list" where
  "corpus_files t =
     [(''messages.jsonl'', map message_row (sort_key m_message_id (t_messages t))),
      (''media.jsonl'', map media_row_json (sort_key md_media_id (t_media t))),
      (''orphan_media.jsonl'', map orphan_row (t_orphans t)),
      (''channels.jsonl'', t_channels t),
      (''senders.jsonl'', t_senders t),
      (''memberships.jsonl'', t_memberships t)]"

definition corpus_summary :: "tables \<Rightarrow> pyobj" where
  "corpus_summary t =
     [(''messages'', JInt (int (length (t_messages t)))),
      (''attached_media'', JInt (int (length (t_media t)))),
      (''unique_referenced_paths'', JInt (int (length (t_referenced t)))),
      (''orphan_media'', JInt (int (length (t_orphans t)))),
      (''channels'', JInt (int (length (t_channels t)))),
      (''senders'', JInt (int (length (t_senders t)))),
      (''temporal_order_conflict_sessions'', JInt (int (length (t_conflicts t))))]"

definition started :: trace_record where
  "started = \<lparr>trace_schema_version = TRACE_SCHEMA_VERSION, run_id = ''00000000-0000-0000-0000-000000000001'',
     query_id = ''00000000-0000-0000-0000-000000000002'', event_id = ''01ARZ3NDEKTSV4RRFFQ69G5FAV'',
     parent_event_id = None, record_type = ''query_started'', payload = []\<rparr>"

definition completed :: trace_record where
  "completed = started\<lparr>event_id := ''01ARZ3NDEKTSV4RRFFQ69G5FAW'', parent_event_id := Some (event_id started),
     record_type := ''query_completed'', payload := [(''outcome'', JStr ''no_result''), (''result_event_id'', JNull),
       (''total_latency_ms'', JInt 0)]\<rparr>"

definition write_corpus_trace :: "path \<Rightarrow> unit io" where
  "write_corpus_trace p =
     io_seq (io_bind (io_ask (\<lambda>fs. fs_exists fs p)) (\<lambda>ex. if ex then io_unlink p else io_return ()))
     (io_bind (case make_record started of Ok r \<Rightarrow> io_return r | Raise e \<Rightarrow> io_raise e) (\<lambda>r.
     io_seq (trace_append p r)
     (io_bind (case make_record completed of Ok r \<Rightarrow> io_return r | Raise e \<Rightarrow> io_raise e) (trace_append p))))"

text \<open>
  The build: the tables are computed, then the objects and the files are written. In the program the
  copies are made while the tables are computed, so that a build that raises may have stored some of its
  objects. \<open>report\<close> is the text of \<^verbatim>\<open>VALIDATION.md\<close>.
\<close>

definition build_corpus ::
  "(string \<Rightarrow> json result) \<Rightarrow> (string list \<Rightarrow> string list) \<Rightarrow> (tables \<Rightarrow> string) \<Rightarrow> path \<Rightarrow> path option \<Rightarrow> path io" where
  "build_corpus yaml set_order report base output_dir =
     (let processed = (case output_dir of Some p \<Rightarrow> p | None \<Rightarrow> base @ [''data'', ''processed'']) in
      io_seq (io_mkdirs processed)
      (io_bind (io_ask (read_corpus yaml set_order base)) (\<lambda>r. case r of
         Raise e \<Rightarrow> io_raise e
       | Ok t \<Rightarrow>
           io_seq (io_for (copy_object (processed @ [''objects''])) (t_sources t))
           (io_seq (io_for (\<lambda>(name, rows). write_jsonl (processed @ [name]) rows) (corpus_files t))
           (io_seq (io_write (processed @ [''validation.json''])
             (utf8_encode (dumps js_pretty (JObj (corpus_summary t))) @ [CHR 0x0A]))
           (io_seq (io_write (processed @ [''VALIDATION.md'']) (utf8_encode (report t)))
           (io_seq (write_corpus_trace (processed @ [''normalization.trace.jsonl'']))
           (io_return processed))))))))"

section \<open>Ranks\<close>

abbreviation ranked :: "message \<Rightarrow> nat \<Rightarrow> message" where
  "ranked m r \<equiv> m\<lparr>m_rank := r\<rparr>"

lemma assign_ranks:
  assumes "distinct is" "\<forall>i \<in> set is. i < length ms"
  shows "length (foldl (\<lambda>ms (rank, i). ms[i := ranked (ms ! i) rank]) ms (List.enumerate k is)) = length ms \<and>
    (\<forall>j < length ms. foldl (\<lambda>ms (rank, i). ms[i := ranked (ms ! i) rank]) ms (List.enumerate k is) ! j =
      (if j \<in> set is then ranked (ms ! j) (k + length (takeWhile (\<lambda>i. i \<noteq> j) is)) else ms ! j))"
  using assms
proof (induction "is" arbitrary: ms k)
  case (Cons i "is")
  from Cons.IH [of "ms[i := ranked (ms ! i) k]" "Suc k"] Cons.prems show ?case
    by (auto simp: nth_list_update)
qed simp

lemma chronological_order_perm:
  "distinct (chronological_order ms)" "set (chronological_order ms) = {..<length ms}"
  "length (chronological_order ms) = length ms"
  by (auto simp: chronological_order_def)

definition rank_of :: "message list \<Rightarrow> nat \<Rightarrow> nat" where
  "rank_of ms j = length (takeWhile (\<lambda>i. i \<noteq> j) (chronological_order ms))"

lemma rank_messages_nth:
  "length (rank_messages ms) = length ms"
  "j < length ms \<Longrightarrow> rank_messages ms ! j = ranked (ms ! j) (rank_of ms j)"
proof -
  note a = assign_ranks [OF chronological_order_perm(1), of ms ms 0, unfolded chronological_order_perm(2)]
  show "length (rank_messages ms) = length ms" using a by (simp add: rank_messages_def)
  show "j < length ms \<Longrightarrow> rank_messages ms ! j = ranked (ms ! j) (rank_of ms j)"
    using a by (simp add: rank_messages_def rank_of_def)
qed

lemma rank_of_nth: "p < length ms \<Longrightarrow> rank_of ms (chronological_order ms ! p) = p"
proof -
  assume p: "p < length ms"
  let ?is = "chronological_order ms"
  have "takeWhile (\<lambda>i. i \<noteq> ?is ! p) ?is = take p ?is"
  proof (rule takeWhile_eq_take_P_nth)
    show "?is ! i \<noteq> ?is ! p" if "i < p" "i < length ?is" for i
      using that p chronological_order_perm(1,3) [of ms] by (simp add: nth_eq_iff_index_eq)
  qed simp
  then show ?thesis using p chronological_order_perm(3) [of ms] by (simp add: rank_of_def)
qed

lemma order_position:
  assumes "j < length ms"
  obtains p where "p < length ms" "j = chronological_order ms ! p" "rank_of ms j = p"
proof -
  have "j \<in> set (chronological_order ms)" using assms by (simp add: chronological_order_perm(2))
  then obtain p where "p < length ms" "j = chronological_order ms ! p"
    by (metis in_set_conv_nth chronological_order_perm(3))
  with rank_of_nth that show ?thesis by blast
qed

lemma ranks_follow_chronology:
  assumes "i < length ms" "j < length ms" "chronology (ms ! i) < chronology (ms ! j)"
  shows "rank_of ms i < rank_of ms j"
proof -
  obtain p q where p: "p < length ms" "i = chronological_order ms ! p" "rank_of ms i = p"
    and q: "q < length ms" "j = chronological_order ms ! q" "rank_of ms j = q"
    using order_position assms(1,2) by metis
  have sorted: "sorted (map (\<lambda>i. chronology (ms ! i)) (chronological_order ms))"
    by (simp add: chronological_order_def)
  show ?thesis
  proof (rule ccontr)
    assume "\<not> rank_of ms i < rank_of ms j"
    then have "q \<le> p" using p q by simp
    with sorted_nth_mono [OF sorted this] p q have "chronology (ms ! j) \<le> chronology (ms ! i)"
      by (simp add: chronological_order_perm(3))
    with assms(3) show False by simp
  qed
qed

lemma rank_messages_rank: "m \<in> set (rank_messages ms) \<Longrightarrow> \<exists>j < length ms. m = ranked (ms ! j) (rank_of ms j)"
  by (metis in_set_conv_nth rank_messages_nth)

lemma chronology_ranked [simp]: "chronology (ranked m r) = chronology m"
  by (simp add: chronology_def)

lemma rank_messages_sound:
  "mset (map m_rank (rank_messages ms)) = mset [0..<length ms]"
  "\<lbrakk>m \<in> set (rank_messages ms); m' \<in> set (rank_messages ms); chronology m < chronology m'\<rbrakk> \<Longrightarrow> m_rank m < m_rank m'"
proof -
  have "map m_rank (rank_messages ms) = map (rank_of ms) [0..<length ms]"
    by (rule nth_equalityI) (simp_all add: rank_messages_nth)
  moreover have "mset (map (rank_of ms) [0..<length ms]) = mset (map (rank_of ms) (chronological_order ms))"
    by (simp only: chronological_order_def mset_map mset_sort)
  moreover have "map (rank_of ms) (chronological_order ms) = [0..<length ms]"
    by (rule nth_equalityI) (simp_all add: rank_of_nth chronological_order_perm(3))
  ultimately show "mset (map m_rank (rank_messages ms)) = mset [0..<length ms]" by simp
  assume "m \<in> set (rank_messages ms)" "m' \<in> set (rank_messages ms)" and lt: "chronology m < chronology m'"
  then obtain i j where "i < length ms" "m = ranked (ms ! i) (rank_of ms i)" "j < length ms" "m' = ranked (ms ! j) (rank_of ms j)"
    using rank_messages_rank by metis
  then show "m_rank m < m_rank m'" using ranks_follow_chronology [of i ms j] lt by simp
qed

section \<open>Sessions in order\<close>

lemma inversions_Nil: "inversions ordered = [] \<longleftrightarrow> sorted_wrt (\<lambda>a b. snd a \<le> snd b) ordered"
proof (induction ordered)
  case (Cons a ordered)
  show ?case
  proof (cases ordered)
    case Nil
    then show ?thesis by (simp add: inversions_def)
  next
    case (Cons b rest)
    have "inversions (a # ordered) = [] \<longleftrightarrow> snd a \<le> snd b \<and> inversions ordered = []"
      using Cons by (auto simp: inversions_def not_less)
    then show ?thesis using Cons.IH unfolding Cons by (auto intro: order_trans)
  qed
qed (simp add: inversions_def)

lemma in_inversions:
  assumes "n \<in> set (inversions ordered)"
  shows "\<exists>a b. (\<exists>xs ys. ordered = xs @ a # b # ys) \<and> snd b < snd a \<and> (n = fst a \<or> n = fst b)"
proof -
  obtain a b where ab: "(a, b) \<in> set (zip ordered (tl ordered))" "snd b < snd a" "n = fst a \<or> n = fst b"
    using assms by (auto simp: inversions_def split: if_splits)
  from ab(1) obtain i where i: "i < length ordered" "i < length (tl ordered)" "a = ordered ! i" "b = tl ordered ! i"
    unfolding in_set_zip by fastforce
  then have "b = ordered ! Suc i" "Suc i < length ordered" by (simp_all add: nth_tl)
  then have "ordered = take i ordered @ a # b # drop (Suc (Suc i)) ordered"
    using i(1,3) by (metis Cons_nth_drop_Suc append_take_drop_id)
  with ab show ?thesis by blast
qed

text \<open>The number and the date of every session of a channel.\<close>

definition dated :: "path \<Rightarrow> session list \<Rightarrow> string \<Rightarrow> (int \<times> date) set" where
  "dated raw_root sessions c =
     {(n, d). \<exists>p s. (p, s, d) \<in> set sessions \<and> channel_id raw_root p = Ok c \<and> session_number p = Ok n}"

lemma dated_simps:
  "dated raw_root [] c = {}"
  "\<lbrakk>channel_id raw_root p = Ok c'; session_number p = Ok n\<rbrakk> \<Longrightarrow>
    dated raw_root (ss @ [(p, s, d)]) c = dated raw_root ss c \<union> (if c' = c then {(n, d)} else {})"
  by (auto simp: dated_def)

lemma channel_sessions_spec:
  "channel_sessions raw_root sessions = Ok by_channel \<Longrightarrow>
    wf_dict by_channel \<and> (\<forall>c. set (dict_get by_channel c []) = dated raw_root sessions c)"
proof (induction sessions arbitrary: by_channel rule: rev_induct)
  case Nil
  then show ?case by (simp add: channel_sessions_def dated_simps dict_get_def)
next
  case (snoc s sessions)
  obtain p v d where s: "s = (p, v, d)" by (cases s)
  from snoc.prems obtain m c n where m: "channel_sessions raw_root sessions = Ok m"
    and cn: "channel_id raw_root p = Ok c" "session_number p = Ok n" "by_channel = dict_append c (n, d) m"
    by (auto simp: channel_sessions_def foldM_append rbind_Ok_iff s)
  from snoc.IH [OF m] show ?case
    unfolding cn(3) s dated_simps(2) [OF cn(1,2)] by (simp add: wf_dict_append dict_get_append)
qed

lemma sorted_pairs: "sorted (xs :: (int \<times> date) list) \<Longrightarrow> sorted_wrt (\<lambda>a b. snd a \<le> snd b) xs \<longleftrightarrow>
    (\<forall>a \<in> set xs. \<forall>b \<in> set xs. fst a < fst b \<longrightarrow> snd a \<le> snd b)"
proof (induction xs)
  case (Cons x xs)
  have le: "\<forall>b \<in> set xs. x \<le> b" "sorted xs" using Cons.prems by auto
  have "(\<forall>b \<in> set xs. snd x \<le> snd b) \<longleftrightarrow> (\<forall>b \<in> set xs. fst x < fst b \<longrightarrow> snd x \<le> snd b)"
    "\<forall>b \<in> set xs. \<not> fst b < fst x"
    using le(1) by (auto simp only: less_eq_prod_def)
  then show ?case using Cons.IH [OF le(2)] by (simp only: sorted_wrt.simps list.set ball_simps) auto
qed simp

text \<open>Later sessions have later dates, or the same.\<close>

definition forward :: "(int \<times> date) set \<Rightarrow> bool" where
  "forward S \<longleftrightarrow> (\<forall>a \<in> S. \<forall>b \<in> S. fst a < fst b \<longrightarrow> snd a \<le> snd b)"

lemma pairs_empty: "{(c, n). \<exists>ss. (c, ss) \<in> S \<and> n \<in> f ss} = {} \<longleftrightarrow> (\<forall>(c, ss) \<in> S. f ss = {})"
proof -
  have "{(c, n). \<exists>ss. (c, ss) \<in> S \<and> n \<in> f ss} = (\<Union>(c, ss) \<in> S. Pair c ` f ss)" by auto
  then show ?thesis by (simp add: UNION_empty_conv split_beta)
qed

lemma conflicts_iff:
  assumes "temporal_conflict_sessions raw_root sessions = Ok conflicts"
  shows "conflicts = [] \<longleftrightarrow> (\<forall>c. forward (dated raw_root sessions c))"
    "(c, n) \<in> set conflicts \<Longrightarrow> \<exists>a \<in> dated raw_root sessions c. \<exists>b \<in> dated raw_root sessions c.
      fst a < fst b \<and> snd b < snd a \<and> (n = fst a \<or> n = fst b)"
proof -
  from assms obtain by_channel where bc: "channel_sessions raw_root sessions = Ok by_channel"
    and cf: "set conflicts = {(c, n). \<exists>ss. (c, ss) \<in> set by_channel \<and> n \<in> set (inversions (sort ss))}"
    by (fastforce simp: temporal_conflict_sessions_def rbind_Ok_iff)
  note spec = channel_sessions_spec [OF bc]
  have entry: "set ss = dated raw_root sessions c" if "(c, ss) \<in> set by_channel" for c ss
    using spec that by (metis dict_get_def map_of_is_SomeI option.simps(5))
  have none: "dated raw_root sessions c = {}" if "c \<notin> fst ` set by_channel" for c
    using spec that by (metis dict_get_def list.set(1) map_of_eq_None_iff option.simps(4))
  have inv: "inversions (sort ss) = [] \<longleftrightarrow> forward (set ss)" for ss
    using sorted_pairs [OF sorted_sort, of ss] by (simp add: inversions_Nil forward_def)
  have "conflicts = [] \<longleftrightarrow> (\<forall>(c, ss) \<in> set by_channel. inversions (sort ss) = [])"
  proof -
    have "conflicts = [] \<longleftrightarrow> set conflicts = {}" by simp
    also have "\<dots> \<longleftrightarrow> (\<forall>(c, ss) \<in> set by_channel. set (inversions (sort ss)) = {})" unfolding cf by (rule pairs_empty)
    finally show ?thesis by (simp only: set_empty)
  qed
  also have "\<dots> \<longleftrightarrow> (\<forall>(c, ss) \<in> set by_channel. forward (set ss))" by (simp only: inv)
  also have "\<dots> \<longleftrightarrow> (\<forall>c. forward (dated raw_root sessions c))"
  proof (intro iffI allI ballI)
    fix c assume all: "\<forall>(c, ss) \<in> set by_channel. forward (set ss)"
    show "forward (dated raw_root sessions c)"
    proof (cases "c \<in> fst ` set by_channel")
      case True
      then obtain ss where "(c, ss) \<in> set by_channel" by auto
      with all entry [OF this] show ?thesis by (metis case_prodD)
    qed (simp add: none forward_def)
  next
    fix x assume all: "\<forall>c. forward (dated raw_root sessions c)" and x: "x \<in> set by_channel"
    then show "case x of (c, ss) \<Rightarrow> forward (set ss)" using entry by (cases x) simp
  qed
  finally show "conflicts = [] \<longleftrightarrow> (\<forall>c. forward (dated raw_root sessions c))" .
  assume "(c, n) \<in> set conflicts"
  then obtain ss where ss: "(c, ss) \<in> set by_channel" "n \<in> set (inversions (sort ss))" unfolding cf by auto
  obtain a b xs ys where ab: "sort ss = xs @ a # b # ys" "snd b < snd a" "n = fst a \<or> n = fst b"
    using in_inversions [OF ss(2)] by blast
  have "a \<le> b" using sorted_sort [of ss] by (simp add: ab(1) sorted_append)
  then have "fst a < fst b \<or> snd a \<le> snd b" by (simp only: less_eq_prod_def) blast
  then have "fst a < fst b" using ab(2) by (simp add: not_le [symmetric])
  moreover have "set (sort ss) = set ss" by simp
  then have "a \<in> set ss" "b \<in> set ss" unfolding ab(1) by auto
  ultimately show "\<exists>a \<in> dated raw_root sessions c. \<exists>b \<in> dated raw_root sessions c.
      fst a < fst b \<and> snd b < snd a \<and> (n = fst a \<or> n = fst b)"
    using ab(2,3) unfolding entry [OF ss(1)] by blast
qed

text \<open>
  C37: No session is flagged exactly when in every channel the dates never decrease with the
  session number, although only neighbours are compared; every flagged session is one end of two
  sessions of its channel whose dates run backwards.
\<close>

theorem temporal_conflicts_found:
  assumes "temporal_conflict_sessions raw_root sessions = Ok conflicts"
  shows "(conflicts = [] \<longleftrightarrow> (\<forall>c. forward (dated raw_root sessions c))) \<and>
    (\<forall>(c, n) \<in> set conflicts. \<exists>a \<in> dated raw_root sessions c. \<exists>b \<in> dated raw_root sessions c.
      fst a < fst b \<and> snd b < snd a \<and> (n = fst a \<or> n = fst b))"
  using conflicts_iff [OF assms] by fast

text \<open>Two sessions of one channel, the second of which is dated before the first.\<close>

definition backward_sessions :: "session list" where
  "backward_sessions =
    [([''r'', ''duo'', ''dialogue1'', ''d'', ''session1'', ''session.json''], [], (2024, 2, 1)),
     ([''r'', ''duo'', ''dialogue1'', ''d'', ''session2'', ''session.json''], [], (2024, 1, 1))]"

theorem temporal_conflicts_found_witness:
  "\<exists>conflicts. temporal_conflict_sessions [''r''] backward_sessions = Ok conflicts \<and> conflicts \<noteq> [] \<and>
    \<not> (\<forall>c. forward (dated [''r''] backward_sessions c))"
proof -
  have run: "temporal_conflict_sessions [''r''] backward_sessions = Ok [(''dyadic_d1'', 1), (''dyadic_d1'', 2)]"
    by code_simp
  from temporal_conflicts_found [OF run] run show ?thesis by blast
qed

section \<open>References resolve\<close>

definition corpus_ok :: "corpus \<Rightarrow> bool" where
  "corpus_ok st \<longleftrightarrow>
     (\<forall>m \<in> set (c_messages st). m_channel_id m \<in> fst ` set (c_channels st) \<and>
        (\<forall>sid. m_sender_id m = Some sid \<longrightarrow> (\<exists>name \<in> set (c_names st). sender_id name = Ok sid))) \<and>
     (\<forall>x \<in> set (c_media st). md_source x \<in> set (c_referenced st) \<and>
        (\<exists>m \<in> set (c_messages st). m_message_id m = md_parent x \<and> m_channel_id m = md_channel_id x))"

lemma turn_sender_Ok: "turn_sender aliases turn = Ok (Some (name, sid)) \<Longrightarrow> sender_id name = Ok sid"
  by (auto simp: turn_sender_def rbind_Ok_iff Let_def split: if_splits)

lemma turn_media_Ok:
  "turn_media fs raw_root p cid i content = Ok (Some x) \<Longrightarrow>
    md_parent x = cid @ '':'' @ session_name p @ '':'' @ nat_str i \<and> md_channel_id x = cid"
proof -
  assume run: "turn_media fs raw_root p cid i content = Ok (Some x)"
  show ?thesis
  proof (cases "jget content ''image''")
    case (JStr image_name)
    show ?thesis
    proof (cases "map_of fs (path_join (butlast p @ [''image'']) image_name)")
      case None
      with run JStr show ?thesis by (simp add: turn_media_def Let_def str_of_def split: if_splits)
    next
      case (Some nd)
      with run JStr show ?thesis
        by (cases nd) (auto simp: turn_media_def Let_def str_of_def rbind_Ok_iff split: if_splits)
    qed
  qed (use run in \<open>auto simp: turn_media_def Let_def str_of_def split: if_splits\<close>)
qed

lemma turn_step_ok:
  assumes "turn_step fs raw_root aliases conflicts s cid n st it = Ok st'" "corpus_ok st" "cid \<in> fst ` set (c_channels st)"
  shows "corpus_ok st' \<and> cid \<in> fst ` set (c_channels st')"
proof -
  obtain p v d where s: "s = (p, v, d)" by (cases s)
  obtain i turn0 where it: "it = (i, turn0)" by (cases it)
  from assms(1) obtain turn sender content timestamp body image session_id where
    sender: "turn_sender aliases turn = Ok sender" and image: "turn_media fs raw_root p cid i content = Ok image"
    and st': "st' = st\<lparr>
         c_messages := c_messages st @ [
           \<lparr>m_message_id = (cid @ '':'' @ session_name p) @ '':'' @ nat_str i, m_channel_id = cid, m_sender_id = map_option snd sender,
            m_text = body, m_timestamp = timestamp, m_turn_index = i, m_session_index = n,
            m_source_session_id = session_id, m_rank = 0,
            m_conflict = ((cid, n) \<in> set conflicts), m_relations = []\<rparr>],
         c_media := c_media st @ (case image of None \<Rightarrow> [] | Some x \<Rightarrow> [x]),
         c_referenced := (case image of None \<Rightarrow> c_referenced st | Some x \<Rightarrow> List.insert (md_source x) (c_referenced st)),
         c_names := (case sender of None \<Rightarrow> c_names st | Some (name, _) \<Rightarrow> List.insert name (c_names st))\<rparr>"
    unfolding turn_step_def s it split rbind_Ok_iff Let_def by blast
  have names: "set (c_names st') = set (c_names st) \<union> (case sender of None \<Rightarrow> {} | Some (name, _) \<Rightarrow> {name})"
    and refs: "set (c_referenced st') = set (c_referenced st) \<union> (case image of None \<Rightarrow> {} | Some x \<Rightarrow> {md_source x})"
    and media: "set (c_media st') = set (c_media st) \<union> (case image of None \<Rightarrow> {} | Some x \<Rightarrow> {x})"
    and chans: "c_channels st' = c_channels st"
    and msgs: "set (c_messages st') = insert (last (c_messages st')) (set (c_messages st))"
    and new: "m_channel_id (last (c_messages st')) = cid"
      "m_message_id (last (c_messages st')) = cid @ '':'' @ session_name p @ '':'' @ nat_str i"
      "m_sender_id (last (c_messages st')) = map_option snd sender"
    unfolding st' by (auto split: option.splits)
  have s1: "\<exists>name \<in> set (c_names st'). sender_id name = Ok sid"
    if "m \<in> set (c_messages st')" "m_sender_id m = Some sid" for m sid
  proof (cases "m \<in> set (c_messages st)")
    case True
    then show ?thesis using assms(2) that(2) unfolding corpus_ok_def names by blast
  next
    case False
    with that msgs have "map_option snd sender = Some sid" using new(3) by auto
    then obtain name where "sender = Some (name, sid)" by auto
    then show ?thesis using turn_sender_Ok [of aliases turn] sender unfolding names by auto
  qed
  have s2: "m_channel_id m \<in> fst ` set (c_channels st')" if "m \<in> set (c_messages st')" for m
    using that assms(2,3) new(1) unfolding msgs chans corpus_ok_def by blast
  have s3: "md_source x \<in> set (c_referenced st') \<and>
      (\<exists>m \<in> set (c_messages st'). m_message_id m = md_parent x \<and> m_channel_id m = md_channel_id x)"
    if x: "x \<in> set (c_media st')" for x
  proof (cases "x \<in> set (c_media st)")
    case True
    then show ?thesis using assms(2) unfolding refs msgs corpus_ok_def by blast
  next
    case False
    with x media have img: "image = Some x" by (auto split: option.splits)
    with turn_media_Ok [of fs raw_root p cid i content x] image new(1,2) show ?thesis
      unfolding refs msgs by auto
  qed
  have "corpus_ok st'"
    unfolding corpus_ok_def by (intro conjI ballI allI impI s1 s2 s3 [THEN conjunct1] s3 [THEN conjunct2])
  then show ?thesis using assms(3) chans by simp
qed

lemma update_keys: "fst ` set (AList.update k v d) = insert k (fst ` set d)"
  by (metis dom_map_of_conv_image_fst dom_update fun_upd_apply update_conv' dom_fun_upd option.distinct(1))

lemma session_step_ok:
  assumes "session_step fs raw_root aliases conflicts st s = Ok st'" "corpus_ok st"
  shows "corpus_ok st'"
proof -
  obtain p v d where s: "s = (p, v, d)" by (cases s)
  from assms(1) obtain cid n ch turns where
    run: "foldM (turn_step fs raw_root aliases conflicts s cid n)
      (st\<lparr>c_channels := AList.update cid ch (c_channels st)\<rparr>) turns = Ok st'"
    unfolding session_step_def s split rbind_Ok_iff by blast
  have "corpus_ok st' \<and> cid \<in> fst ` set (c_channels st')"
  proof (rule foldM_invariant [OF run])
    show "corpus_ok (st\<lparr>c_channels := AList.update cid ch (c_channels st)\<rparr>) \<and>
        cid \<in> fst ` set (c_channels (st\<lparr>c_channels := AList.update cid ch (c_channels st)\<rparr>))"
      using assms(2) by (simp add: corpus_ok_def update_keys)
  qed (use turn_step_ok in blast)
  then show ?thesis by blast
qed

lemma corpus_fold_ok:
  assumes "foldM (session_step fs raw_root aliases conflicts)
    \<lparr>c_messages = [], c_media = [], c_referenced = [], c_names = [], c_channels = []\<rparr> sessions = Ok st"
  shows "corpus_ok st"
  by (rule foldM_invariant [OF assms]) (simp add: corpus_ok_def, rule session_step_ok)

lemma by_sender:
  "set (dict_get (messages_by_sender ms) sid []) = m_message_id ` {m \<in> set ms. m_sender_id m = Some sid}"
proof (induction ms rule: rev_induct)
  case (snoc m ms)
  then show ?case
    by (cases "m_sender_id m") (auto simp: messages_by_sender_def dict_get_append)
qed (simp add: messages_by_sender_def dict_get_def)

lemma rx_spans_bound:
  assumes "(i, j, m) \<in> set (rx_spans r s)"
  shows "i \<le> j \<and> j \<le> length s"
proof -
  let ?f = "\<lambda>(i, spans) x. case x of Plain c \<Rightarrow> (i + 1, spans)
   | Hit m \<Rightarrow> (i + length (fst m), spans @ [(i, i + length (fst m), m)])"
  have pt: "piece_text (Plain c) = [c]" "piece_text (Hit m) = fst m" for c m by (simp_all add: piece_text_def)
  have "fst (foldl ?f (k, acc) ps) = k + length (concat (map piece_text ps)) \<and>
    (\<forall>(i, j, m) \<in> set (snd (foldl ?f (k, acc) ps)). (i, j, m) \<in> set acc \<or> i \<le> j \<and> j \<le> fst (foldl ?f (k, acc) ps))" for k acc ps
  proof (induction ps rule: rev_induct)
    case (snoc x ps)
    obtain n sp where e: "foldl ?f (k, acc) ps = (n, sp)" by fastforce
    have "n = k + length (concat (map piece_text ps)) \<and>
        (\<forall>(i, j, m) \<in> set sp. (i, j, m) \<in> set acc \<or> i \<le> j \<and> j \<le> n)"
      using snoc.IH unfolding e fst_conv snd_conv .
    then show ?case by (cases x) (auto simp: e pt)
  qed auto
  note all = this [of 0 "[]" "rx_pieces r [] s"]
  obtain n sp where e: "foldl ?f (0, []) (rx_pieces r [] s) = (n, sp)" by fastforce
  have "n = length s" "\<forall>(i, j, m) \<in> set sp. i \<le> j \<and> j \<le> n"
    using all unfolding e fst_conv snd_conv rx_pieces_text by auto
  moreover have "rx_spans r s = sp" unfolding rx_spans_def by (simp only: e snd_conv)
  ultimately show ?thesis using assms by auto
qed

lemma mention_relations_sound:
  assumes "rel \<in> set (mention_relations names (messages_by_sender ms) text)"
  shows "\<exists>sid. set (rel_candidates rel) = m_message_id ` {m \<in> set ms. m_sender_id m = Some sid}"
    "rel_start rel \<le> rel_end rel \<and> rel_end rel \<le> length text"
proof -
  from assms obtain i j m where span: "(i, j, m) \<in> set (rx_spans mention_pattern text)"
    and rel: "rel \<in> set (mention_relation names (messages_by_sender ms) (i, j, m))"
    by (auto simp: mention_relations_def)
  from rel show "\<exists>sid. set (rel_candidates rel) = m_message_id ` {m \<in> set ms. m_sender_id m = Some sid}"
    by (auto simp: mention_relation_def Let_def by_sender split: if_splits prod.splits)
  from rel have "rel_start rel = i" "rel_end rel = j"
    by (auto simp: mention_relation_def Let_def split: if_splits prod.splits)
  with rx_spans_bound [OF span] show "rel_start rel \<le> rel_end rel \<and> rel_end rel \<le> length text" by simp
qed

lemma sender_rows_known:
  assumes "sender_rows set_order names = Ok rows" "set (set_order names) = set names" "name \<in> set names" "sender_id name = Ok sid"
  shows "\<exists>r \<in> set rows. jget r ''sender_id'' = JStr sid"
proof -
  from assms(1) have "list_all2 (\<lambda>name r. rbind (sender_id name) (\<lambda>sid.
     Ok [(''sender_id'', JStr sid), (''display_name'', JStr name)]) = Ok r) (sort_key casefold (set_order names)) rows"
    by (simp add: sender_rows_def mapM_Ok_iff)
  from list_all2_setD1 [OF this, of name] assms(2-4)
  have "[(''sender_id'', JStr sid), (''display_name'', JStr name)] \<in> set rows" by auto
  then show ?thesis by (rule rev_bexI) (simp add: dict_get_def)
qed

lemma channel_rows_known: "cid \<in> fst ` set channels \<Longrightarrow> \<exists>r \<in> set (channel_rows channels). jget r ''channel_id'' = JStr cid"
proof -
  assume cid: "cid \<in> fst ` set channels"
  then obtain c where "map_of channels cid = Some c" by (meson map_of_eq_None_iff not_None_eq)
  moreover from cid have "cid \<in> set (sort (dict_keys channels))" by simp
  ultimately show ?thesis unfolding channel_rows_def by (force simp: dict_get_def)
qed

lemma membership_rows_open:
  assumes "membership_rows access channels = Ok rows" "r \<in> set rows"
  shows "\<exists>cid. jget r ''channel_id'' = JStr cid \<and> cid \<in> fst ` set channels \<and>
    (\<forall>blocked. py_iter (dict_get access ''inaccessible_channels'' (JArr [])) = Ok blocked \<longrightarrow> JStr cid \<notin> set blocked)"
proof -
  from assms(1) obtain blocked where b: "py_iter (dict_get access ''inaccessible_channels'' (JArr [])) = Ok blocked"
    and m: "list_all2 (\<lambda>cid r. rbind (jitem access ''benchmark_caller_id'') (\<lambda>caller. Ok (membership_row caller cid)) = Ok r)
      (filter (\<lambda>cid. JStr cid \<notin> set (map py_norm blocked)) (sort (dict_keys channels))) rows"
    by (auto simp: membership_rows_def rbind_Ok_iff as_keys_Ok mapM_Ok_iff)
  from list_all2_setD2 [OF m assms(2)] obtain cid caller where
    c: "cid \<in> fst ` set channels" "JStr cid \<notin> set (map py_norm blocked)" "r = membership_row caller cid"
    by (auto simp: rbind_Ok_iff)
  have "JStr cid \<notin> set blocked"
  proof
    assume "JStr cid \<in> set blocked"
    then have "py_norm (JStr cid) \<in> set (map py_norm blocked)" by (metis image_eqI list.set_map)
    with c(2) show False by simp
  qed
  with c b show ?thesis by (auto simp: membership_row_def dict_get_def)
qed

section \<open>The tables of a corpus\<close>

lemma corpus_tables_cases:
  assumes "corpus_tables set_order fs raw_root aliases mention_aliases access sessions = Ok t"
  obtains st names where "corpus_ok st" "t_messages t = rank_messages (relate names (c_messages st))" "t_media t = c_media st"
    "t_channels t = channel_rows (c_channels st)" "sender_rows set_order (c_names st) = Ok (t_senders t)"
    "membership_rows access (c_channels st) = Ok (t_memberships t)"
proof -
  from assms obtain conflicts st names orphans senders memberships where
    fold: "foldM (session_step fs raw_root aliases conflicts)
       \<lparr>c_messages = [], c_media = [], c_referenced = [], c_names = [], c_channels = []\<rparr> sessions = Ok st"
    and rows: "sender_rows set_order (c_names st) = Ok senders" "membership_rows access (c_channels st) = Ok memberships"
    and t: "t_messages t = rank_messages (relate names (c_messages st))" "t_media t = c_media st"
      "t_channels t = channel_rows (c_channels st)" "t_senders t = senders" "t_memberships t = memberships"
    unfolding corpus_tables_def rbind_Ok_iff Let_def by force
  show ?thesis by (rule that [OF corpus_fold_ok [OF fold] t(1-3)]) (simp_all add: rows t)
qed

lemma related_messages:
  assumes "m \<in> set (rank_messages (relate names ms))"
  obtains m0 r where "m0 \<in> set ms" "m = m0\<lparr>m_relations := mention_relations names (messages_by_sender ms) (m_text m0), m_rank := r\<rparr>"
proof -
  obtain j where "j < length ms" "m = ranked (relate names ms ! j) (rank_of (relate names ms) j)"
    using rank_messages_rank [OF assms] by (auto simp: relate_def)
  then show ?thesis using that [of "ms ! j"] by (simp add: relate_def)
qed

lemma related_ids:
  "set (map (\<lambda>m. (m_message_id m, m_channel_id m, m_sender_id m)) (rank_messages (relate names ms))) =
    set (map (\<lambda>m. (m_message_id m, m_channel_id m, m_sender_id m)) ms)"
proof -
  have "map (\<lambda>m. (m_message_id m, m_channel_id m, m_sender_id m)) (rank_messages (relate names ms)) =
      map (\<lambda>m. (m_message_id m, m_channel_id m, m_sender_id m)) ms"
    by (rule nth_equalityI) (simp_all add: rank_messages_nth relate_def)
  then show ?thesis by (rule arg_cong)
qed

text \<open>
  C35: The tables of a corpus are well formed: the channel and the sender of every message are
  rows of their tables, every relation has a span inside the text and exactly the messages of
  one sender as candidates, every media row belongs to a message of its channel, and no
  membership is granted on an inaccessible channel.
\<close>

theorem corpus_references_resolve:
  assumes "corpus_tables set_order fs raw_root aliases mention_aliases access sessions = Ok t"
    and "\<And>xs. set (set_order xs) = set xs"
  shows "(\<forall>m \<in> set (t_messages t).
      (\<exists>r \<in> set (t_channels t). jget r ''channel_id'' = JStr (m_channel_id m)) \<and>
      (\<forall>sid. m_sender_id m = Some sid \<longrightarrow> (\<exists>r \<in> set (t_senders t). jget r ''sender_id'' = JStr sid)) \<and>
      (\<forall>rel \<in> set (m_relations m). rel_start rel \<le> rel_end rel \<and> rel_end rel \<le> length (m_text m) \<and>
        (\<exists>sid. set (rel_candidates rel) = m_message_id ` {m' \<in> set (t_messages t). m_sender_id m' = Some sid}))) \<and>
    (\<forall>x \<in> set (t_media t). \<exists>m \<in> set (t_messages t). m_message_id m = md_parent x \<and> m_channel_id m = md_channel_id x) \<and>
    (\<forall>r \<in> set (t_memberships t). \<exists>cid. jget r ''channel_id'' = JStr cid \<and>
      (\<forall>blocked. py_iter (dict_get access ''inaccessible_channels'' (JArr [])) = Ok blocked \<longrightarrow> JStr cid \<notin> set blocked))"
proof -
  from assms(1) obtain st names where ok: "corpus_ok st"
    and t: "t_messages t = rank_messages (relate names (c_messages st))" "t_media t = c_media st"
    "t_channels t = channel_rows (c_channels st)" "sender_rows set_order (c_names st) = Ok (t_senders t)"
    "membership_rows access (c_channels st) = Ok (t_memberships t)"
    by (rule corpus_tables_cases)
  note ids = related_ids [of names "c_messages st", folded t(1)]
  have sent: "m_message_id ` {m \<in> set (c_messages st). m_sender_id m = Some sid} =
      m_message_id ` {m \<in> set (t_messages t). m_sender_id m = Some sid}" for sid
  proof -
    have eq: "m_message_id ` {m \<in> set ms. m_sender_id m = Some sid} =
        fst ` {x \<in> set (map (\<lambda>m. (m_message_id m, m_channel_id m, m_sender_id m)) ms). snd (snd x) = Some sid}" for ms
      by force
    show ?thesis unfolding eq ids ..
  qed
  have "(\<exists>r \<in> set (t_channels t). jget r ''channel_id'' = JStr (m_channel_id m)) \<and>
      (\<forall>sid. m_sender_id m = Some sid \<longrightarrow> (\<exists>r \<in> set (t_senders t). jget r ''sender_id'' = JStr sid)) \<and>
      (\<forall>rel \<in> set (m_relations m). rel_start rel \<le> rel_end rel \<and> rel_end rel \<le> length (m_text m) \<and>
        (\<exists>sid. set (rel_candidates rel) = m_message_id ` {m' \<in> set (t_messages t). m_sender_id m' = Some sid}))"
    if m: "m \<in> set (t_messages t)" for m
  proof -
    obtain m0 r where m0: "m0 \<in> set (c_messages st)"
      "m = m0\<lparr>m_relations := mention_relations names (messages_by_sender (c_messages st)) (m_text m0), m_rank := r\<rparr>"
      using related_messages m unfolding t(1) by metis
    have "m_channel_id m \<in> fst ` set (c_channels st)"
      "m_sender_id m = Some sid \<Longrightarrow> \<exists>name \<in> set (c_names st). sender_id name = Ok sid" for sid
      using ok m0 by (auto simp: corpus_ok_def)
    moreover have "rel_start rel \<le> rel_end rel \<and> rel_end rel \<le> length (m_text m) \<and>
        (\<exists>sid. set (rel_candidates rel) = m_message_id ` {m' \<in> set (t_messages t). m_sender_id m' = Some sid})"
      if "rel \<in> set (m_relations m)" for rel
      using mention_relations_sound [of rel names "c_messages st" "m_text m0"] that m0(2) by (simp add: sent)
    ultimately show ?thesis
      using channel_rows_known sender_rows_known [OF t(4) assms(2)] unfolding t(3) by blast
  qed
  moreover have "\<exists>m \<in> set (t_messages t). m_message_id m = md_parent x \<and> m_channel_id m = md_channel_id x"
    if "x \<in> set (t_media t)" for x
  proof -
    have "x \<in> set (c_media st)" using that by (simp only: t(2))
    with ok have "\<exists>m \<in> set (c_messages st). m_message_id m = md_parent x \<and> m_channel_id m = md_channel_id x"
      by (simp add: corpus_ok_def)
    then obtain m where "m \<in> set (c_messages st)" "m_message_id m = md_parent x" "m_channel_id m = md_channel_id x" by blast
    then have "(md_parent x, md_channel_id x, m_sender_id m) \<in>
        set (map (\<lambda>m. (m_message_id m, m_channel_id m, m_sender_id m)) (t_messages t))"
      unfolding ids by (auto intro: rev_image_eqI)
    then show ?thesis by auto
  qed
  moreover have "\<exists>cid. jget r ''channel_id'' = JStr cid \<and>
      (\<forall>blocked. py_iter (dict_get access ''inaccessible_channels'' (JArr [])) = Ok blocked \<longrightarrow> JStr cid \<notin> set blocked)"
    if "r \<in> set (t_memberships t)" for r
    using membership_rows_open [OF t(5) that] by blast
  ultimately show ?thesis by blast
qed

text \<open>
  C36: The chronological ranks of a corpus are the numbers from zero to the number of messages,
  each once, and a message that comes first by session index, date, channel, turn and id has the
  smaller rank.
\<close>

theorem corpus_ranks_follow_sessions:
  assumes "corpus_tables set_order fs raw_root aliases mention_aliases access sessions = Ok t"
  shows "mset (map m_rank (t_messages t)) = mset [0..<length (t_messages t)] \<and>
    (\<forall>m \<in> set (t_messages t). \<forall>m' \<in> set (t_messages t). chronology m < chronology m' \<longrightarrow> m_rank m < m_rank m')"
proof (rule corpus_tables_cases [OF assms])
  fix st names assume "t_messages t = rank_messages (relate names (c_messages st))"
  then show ?thesis
    using rank_messages_sound by (simp add: rank_messages_nth(1))
qed

text \<open>Two sessions of one channel in which one speaker mentions the other.\<close>

definition sample_turn :: "string \<Rightarrow> string \<Rightarrow> json" where
  "sample_turn role text = JObj [(''role'', JStr role), (''content'', JObj [(''text'', JStr text)])]"

definition sample_session :: "string \<Rightarrow> string \<Rightarrow> string \<Rightarrow> session" where
  "sample_session name role text = ([''r'', ''duo'', ''dialogue1'', ''d'', name, ''session.json''],
      [(''dialogue'', JArr [sample_turn role text])], (2024, 2, 3))"

definition sample_access :: pyobj where
  "sample_access = [(''benchmark_caller_id'', JStr ''reader''), (''inaccessible_channels'', JArr [JStr ''dyadic_d2''])]"

lemma sample_time: "timestamp_text (2024, 2, 3) 0 = Ok ''2024-02-03T09:00:00+07:00''"
  by (simp add: timestamp_text_def add_days_def date_isoformat_def zero_pad_def nat_str.simps digit_char_def) code_simp

lemma sample_senders: "turn_sender [] [(''role'', JStr ''A_Ann''), c] = Ok (Some (''Ann'', ''sender_ann''))"
  "turn_sender [] [(''role'', JStr ''Bo''), c] = Ok (Some (''Bo'', ''sender_bo''))"
proof -
  have "canonical_sender [] ''A_Ann'' = JStr ''Ann''" "canonical_sender [] ''Bo'' = JStr ''Bo''"
    "sender_id ''Ann'' = Ok ''sender_ann''" "sender_id ''Bo'' = Ok ''sender_bo''" by code_simp+
  then show "turn_sender [] [(''role'', JStr ''A_Ann''), c] = Ok (Some (''Ann'', ''sender_ann''))"
    "turn_sender [] [(''role'', JStr ''Bo''), c] = Ok (Some (''Bo'', ''sender_bo''))"
    by (simp_all add: turn_sender_def str_item_def dict_item_def str_of_def)
qed

lemma sample_places:
  "channel_id [''r''] [''r'', ''duo'', ''dialogue1'', ''d'', ''session1'', ''session.json''] = Ok ''dyadic_d1''"
  "channel_id [''r''] [''r'', ''duo'', ''dialogue1'', ''d'', ''session2'', ''session.json''] = Ok ''dyadic_d1''"
  "session_number [''r'', ''duo'', ''dialogue1'', ''d'', ''session1'', ''session.json''] = Ok 1"
  "session_number [''r'', ''duo'', ''dialogue1'', ''d'', ''session2'', ''session.json''] = Ok 2"
  by code_simp+

definition sample_sessions :: "session list" where
  "sample_sessions = [sample_session ''session1'' ''A_Ann'' ''hi @Bo'', sample_session ''session2'' ''Bo'' ''yes'']"

lemma sample_fold:
  "\<exists>st. foldM (session_step [] [''r''] [] []) \<lparr>c_messages = [], c_media = [], c_referenced = [], c_names = [], c_channels = []\<rparr>
      sample_sessions = Ok st \<and>
    length (c_messages st) = 2 \<and> c_referenced st = [] \<and> c_names st = [''Bo'', ''Ann''] \<and>
    (\<exists>c. c_channels st = [(''dyadic_d1'', c)])"
  by (simp add: session_step_def turn_step_def sample_sessions_def sample_session_def sample_turn_def sample_places
    sample_senders sample_time nth_item_def dict_item_def py_iter_def obj_fields_def dict_get_def turn_media_def str_of_def
    Let_def)

lemma sample_parts:
  "temporal_conflict_sessions [''r''] sample_sessions = Ok []"
  "is_ok (sender_names (\<lambda>xs. xs) [] [''Bo'', ''Ann''])"
  "is_ok (sender_rows (\<lambda>xs. xs) [''Bo'', ''Ann''])"
proof -
  have "temporal_conflict_sessions [''r''] (map (\<lambda>(p, _, d). (p, [], d)) sample_sessions) = Ok []" by code_simp
  moreover have "channel_sessions [''r''] (map (\<lambda>(p, _, d). (p, [], d)) ss) = channel_sessions [''r''] ss" for ss
    unfolding channel_sessions_def by (induction ss rule: rev_induct) (auto simp: foldM_append split: prod.splits)
  ultimately show "temporal_conflict_sessions [''r''] sample_sessions = Ok []"
    by (simp add: temporal_conflict_sessions_def)
  show "is_ok (sender_names (\<lambda>xs. xs) [] [''Bo'', ''Ann''])" by code_simp
  show "is_ok (sender_rows (\<lambda>xs. xs) [''Bo'', ''Ann''])" by code_simp
qed

lemma sample_tables:
  "\<exists>t. corpus_tables (\<lambda>xs. xs) [] [''r''] [] [] sample_access sample_sessions = Ok t \<and> length (t_messages t) = 2"
proof -
  obtain st c where st: "foldM (session_step [] [''r''] [] []) \<lparr>c_messages = [], c_media = [], c_referenced = [],
      c_names = [], c_channels = []\<rparr> sample_sessions = Ok st"
    "length (c_messages st) = 2" "c_referenced st = []" "c_names st = [''Bo'', ''Ann'']" "c_channels st = [(''dyadic_d1'', c)]"
    using sample_fold by blast
  obtain names rows where "sender_names (\<lambda>xs. xs) [] (c_names st) = Ok names" "sender_rows (\<lambda>xs. xs) (c_names st) = Ok rows"
    using sample_parts(2,3) unfolding st(4) is_ok_iff by blast
  moreover have "\<exists>ms. membership_rows sample_access (c_channels st) = Ok ms"
    unfolding st(5) by (simp add: membership_rows_def sample_access_def dict_get_def py_iter_def as_keys_def dict_item_def)
  moreover have "orphan_paths [] [''r''] [] = []" by (simp add: orphan_paths_def all_images_def)
  ultimately show ?thesis
    using st by (auto simp: corpus_tables_def sample_parts(1) Let_def rank_messages_nth(1) relate_def)
qed

theorem corpus_references_resolve_witness:
  "\<exists>t m r. corpus_tables (\<lambda>xs. xs) [] [''r''] [] [] sample_access sample_sessions = Ok t \<and> m \<in> set (t_messages t) \<and>
    r \<in> set (t_channels t) \<and> jget r ''channel_id'' = JStr (m_channel_id m)"
proof -
  obtain t where t: "corpus_tables (\<lambda>xs. xs) [] [''r''] [] [] sample_access sample_sessions = Ok t" "length (t_messages t) = 2"
    using sample_tables by blast
  then obtain m where m: "m \<in> set (t_messages t)" by (metis length_0_conv list.set_intros(1) neq_Nil_conv zero_neq_numeral)
  from corpus_references_resolve [OF t(1)] m have "\<exists>r \<in> set (t_channels t). jget r ''channel_id'' = JStr (m_channel_id m)"
    by blast
  with t(1) m show ?thesis by blast
qed

theorem corpus_ranks_follow_sessions_witness:
  "\<exists>t. corpus_tables (\<lambda>xs. xs) [] [''r''] [] [] sample_access sample_sessions = Ok t \<and>
    mset (map m_rank (t_messages t)) = mset [0..<2]"
proof -
  obtain t where t: "corpus_tables (\<lambda>xs. xs) [] [''r''] [] [] sample_access sample_sessions = Ok t" "length (t_messages t) = 2"
    using sample_tables by blast
  with corpus_ranks_follow_sessions [OF t(1)] show ?thesis by auto
qed

end
