(* ===== verification/Scoped_Repository.thy ===== *)
theory Scoped_Repository
  imports Corpus
begin

text \<open>
  The read path over the normalized corpus (\<^verbatim>\<open>repository/canonical_repository.py\<close>): the media, the messages
  and the memberships of a processed directory, and the scope a caller reads them through
  (\<^verbatim>\<open>repository/scoped_repository.py\<close>). Every read is an outcome, since a row without the field that
  decides on access raises.
\<close>

section \<open>The repository\<close>

record repository =
  r_media :: "(json, pyobj) dict"
  r_messages :: "(json, pyobj) dict"
  r_memberships :: "json list"

definition stored_rows :: "fs \<Rightarrow> path \<Rightarrow> json list result" where
  "stored_rows fs p =
     rbind (fs_read_text fs p) (\<lambda>content. mapM loads (filter (\<lambda>line. line \<noteq> []) (splitlines content)))"

text \<open>\<^verbatim>\<open>row[k]\<close> on a value that was read.\<close>

definition row_item :: "json \<Rightarrow> string \<Rightarrow> json result" where
  "row_item row k = (case row of JObj fs \<Rightarrow> jitem fs k | _ \<Rightarrow> Raise (TypeError ''subscript''))"

text \<open>\<^verbatim>\<open>{row[k]: row for row in rows}\<close>\<close>

definition index_rows :: "string \<Rightarrow> json list \<Rightarrow> (json, pyobj) dict result" where
  "index_rows k rows =
     rbind (mapM (\<lambda>row.
         rbind (row_item row k) (\<lambda>v.
         rbind (obj_fields row) (\<lambda>fs.
           if hashable v then Ok (py_norm v, fs) else Raise (TypeError ''unhashable'')))) rows) (\<lambda>items.
       Ok (dict_of items))"

definition open_repository :: "fs \<Rightarrow> path \<Rightarrow> repository result" where
  "open_repository fs processed_dir =
     rbind (stored_rows fs (processed_dir @ [''media.jsonl''])) (\<lambda>media_rows.
     rbind (index_rows ''media_id'' media_rows) (\<lambda>media.
     rbind (stored_rows fs (processed_dir @ [''messages.jsonl''])) (\<lambda>message_rows.
     rbind (index_rows ''message_id'' message_rows) (\<lambda>messages.
     rbind (stored_rows fs (processed_dir @ [''memberships.jsonl''])) (\<lambda>memberships.
       Ok \<lparr>r_media = media, r_messages = messages, r_memberships = memberships\<rparr>)))))"

text \<open>The channel a membership row opens for the caller, if it does.\<close>

definition open_channel :: "string \<Rightarrow> json \<Rightarrow> string option result" where
  "open_channel caller_id row =
     rbind (row_item row ''caller_id'') (\<lambda>caller.
       if py_eq caller (JStr caller_id) then
         rbind (row_item row ''valid_to'') (\<lambda>valid_to.
           if valid_to = JNull then rbind (row_item row ''channel_id'') (\<lambda>cid. Ok (Some (py_str cid))) else Ok None)
       else Ok None)"

definition accessible_channel_ids :: "repository \<Rightarrow> string \<Rightarrow> string set result" where
  "accessible_channel_ids repo caller_id =
     rbind (mapM (open_channel caller_id) (r_memberships repo)) (\<lambda>cids. Ok (set (List.map_filter (\<lambda>c. c) cids)))"

text \<open>The common body of \<^verbatim>\<open>get_media\<close> and \<^verbatim>\<open>get_message\<close>: the row of the id, when its channel is accessible.\<close>

definition scoped_row :: "repository \<Rightarrow> string \<Rightarrow> pyobj option \<Rightarrow> pyobj option result" where
  "scoped_row repo caller_id found =
     (case found of
        None \<Rightarrow> Ok None
      | Some row \<Rightarrow>
          rbind (jitem row ''channel_id'') (\<lambda>cid.
          rbind (accessible_channel_ids repo caller_id) (\<lambda>accessible.
            if \<not> hashable cid then Raise (TypeError ''unhashable'')
            else Ok (if cid \<in> JStr ` accessible then Some row else None))))"

definition get_media :: "repository \<Rightarrow> string \<Rightarrow> string \<Rightarrow> pyobj option result" where
  "get_media repo caller_id media_id = scoped_row repo caller_id (map_of (r_media repo) (JStr media_id))"

definition get_message_scoped :: "repository \<Rightarrow> string \<Rightarrow> string \<Rightarrow> pyobj option result" where
  "get_message_scoped repo caller_id message_id = scoped_row repo caller_id (map_of (r_messages repo) (JStr message_id))"

section \<open>The contract of a scoped read\<close>

text \<open>
  What a reader of the corpus relies on: a row it is given is a row of the inventory whose channel the
  caller may read. It follows that a caller without channels reads nothing, that a caller who may read
  more channels loses no row, and that two callers never see different rows under one id.
\<close>

locale scoped_reads =
  fixes accessible :: "'r \<Rightarrow> string \<Rightarrow> string set result"
    and inventory :: "'r \<Rightarrow> string \<Rightarrow> pyobj option"
    and fetch :: "'r \<Rightarrow> string \<Rightarrow> string \<Rightarrow> pyobj option result"
  assumes fetch_iff: "fetch r caller i = Ok (Some row) \<longleftrightarrow>
    inventory r i = Some row \<and> (\<exists>cids cid. accessible r caller = Ok cids \<and> map_of row ''channel_id'' = Some (JStr cid) \<and> cid \<in> cids)"
begin

lemma no_channels: "accessible r caller = Ok {} \<Longrightarrow> fetch r caller i \<noteq> Ok (Some row)"
  by (simp add: fetch_iff)

lemma no_scope: "accessible r caller = Raise e \<Longrightarrow> fetch r caller i \<noteq> Ok (Some row)"
  by (simp add: fetch_iff)

lemma monotone:
  "accessible r caller = Ok cids \<Longrightarrow> accessible r caller' = Ok cids' \<Longrightarrow> cids \<subseteq> cids' \<Longrightarrow>
    fetch r caller i = Ok (Some row) \<Longrightarrow> fetch r caller' i = Ok (Some row)"
  by (auto simp: fetch_iff)

lemma same_row: "fetch r caller i = Ok (Some row) \<Longrightarrow> fetch r caller' i = Ok (Some row') \<Longrightarrow> row = row'"
  by (simp add: fetch_iff)

end

lemma scoped_row_iff:
  "scoped_row repo caller found = Ok (Some row) \<longleftrightarrow>
    found = Some row \<and> (\<exists>cids cid. accessible_channel_ids repo caller = Ok cids \<and>
      map_of row ''channel_id'' = Some (JStr cid) \<and> cid \<in> cids)"
proof (cases found)
  case (Some fs)
  have "JStr cid \<in> JStr ` cids \<longleftrightarrow> cid \<in> cids" for cid cids by blast
  with Some show ?thesis
    by (fastforce simp: scoped_row_def rbind_Ok_iff dict_item_Ok_iff split: if_splits)
qed (simp add: scoped_row_def)

interpretation media: scoped_reads accessible_channel_ids "\<lambda>repo i. map_of (r_media repo) (JStr i)" get_media
  by unfold_locales (simp add: get_media_def scoped_row_iff)

interpretation messages: scoped_reads accessible_channel_ids "\<lambda>repo i. map_of (r_messages repo) (JStr i)" get_message_scoped
  by unfold_locales (simp add: get_message_scoped_def scoped_row_iff)

section \<open>A corpus read back\<close>

text \<open>Who may read what, by the access configuration the corpus was built from.\<close>

definition may_read :: "pyobj \<Rightarrow> string \<Rightarrow> string \<Rightarrow> bool" where
  "may_read access caller cid \<longleftrightarrow>
     jget access ''benchmark_caller_id'' = JStr caller \<and>
     (case py_iter (dict_get access ''inaccessible_channels'' (JArr [])) of
        Ok blocked \<Rightarrow> JStr cid \<notin> set blocked
      | Raise e \<Rightarrow> False)"

text \<open>A row as the reader gets it: the keys in the order the writer sorted them to.\<close>

definition as_read :: "pyobj \<Rightarrow> json" where
  "as_read row = js_ordered js_lines_raw (JObj row)"

lemma as_read_fields:
  assumes "distinct (map fst row)"
  obtains gs where "as_read row = JObj gs" "\<And>k. map_of gs k = map_option (js_ordered js_lines_raw) (map_of row k)"
  using js_ordered_fields [OF assms, of js_lines_raw] unfolding as_read_def [symmetric] by metis

text \<open>The files of a corpus in a directory, as far as the reader is concerned.\<close>

definition holds_corpus :: "fs \<Rightarrow> path \<Rightarrow> tables \<Rightarrow> bool" where
  "holds_corpus fs dir t \<longleftrightarrow>
     (\<forall>(name, rows) \<in> set (corpus_files t).
        name \<in> {''messages.jsonl'', ''media.jsonl'', ''memberships.jsonl''} \<longrightarrow>
        stored_rows fs (dir @ [name]) = Ok (map as_read rows))"

lemma as_read_item:
  assumes "distinct (map fst row)" "map_of row k = Some (JStr s)"
  shows "row_item (as_read row) k = Ok (JStr s)"
proof -
  obtain gs where "as_read row = JObj gs" "\<And>k. map_of gs k = map_option (js_ordered js_lines_raw) (map_of row k)"
    by (rule as_read_fields [OF assms(1)]) (rule that)
  with assms(2) show ?thesis by (simp add: row_item_def dict_item_def)
qed

text \<open>An index on a string field that identifies the rows finds every row and nothing else.\<close>

lemma index_rows_map:
  assumes "\<And>x. x \<in> set xs \<Longrightarrow> \<exists>fs. enc x = JObj fs \<and> map_of fs k = Some (JStr (key x))" "distinct (map key xs)"
  shows "\<exists>d. index_rows k (map enc xs) = Ok d \<and>
    (\<forall>i fs. map_of d (JStr i) = Some fs \<longleftrightarrow> (\<exists>x \<in> set xs. key x = i \<and> enc x = JObj fs))"
proof -
  let ?item = "\<lambda>x. (JStr (key x), case enc x of JObj fs \<Rightarrow> fs | _ \<Rightarrow> [])"
  have "mapM (\<lambda>row. rbind (row_item row k) (\<lambda>v. rbind (obj_fields row) (\<lambda>fs.
      if hashable v then Ok (py_norm v, fs) else Raise (TypeError ''unhashable'')))) (map enc xs) = Ok (map ?item xs)"
    using assms(1) by (induction xs) (fastforce simp: row_item_def dict_item_def obj_fields_def)+
  moreover have wf: "distinct (map fst (map ?item xs))"
    using assms(2) by (simp add: distinct_map inj_on_def comp_def)
  moreover have "map_of (map ?item xs) (JStr i) = Some fs \<longleftrightarrow> (\<exists>x \<in> set xs. key x = i \<and> enc x = JObj fs)" for i fs
  proof -
    have "map_of (map ?item xs) (JStr i) = Some fs \<longleftrightarrow> (JStr i, fs) \<in> set (map ?item xs)"
      using wf by (rule map_of_eq_Some_iff)
    also have "\<dots> \<longleftrightarrow> (\<exists>x \<in> set xs. key x = i \<and> enc x = JObj fs)"
      using assms(1) by fastforce
    finally show ?thesis .
  qed
  ultimately show ?thesis by (simp add: index_rows_def dict_of_id)
qed

lemma js_ordered_str: "js_ordered st v = JStr s \<longleftrightarrow> v = JStr s"
  by (cases v) auto

lemma open_channel_membership:
  "open_channel caller (as_read (membership_row c cid)) = Ok (if c = JStr caller then Some cid else None)"
proof -
  have d: "distinct (map fst (membership_row c cid))" by (simp add: membership_row_def)
  obtain gs where gs: "as_read (membership_row c cid) = JObj gs"
    "\<And>k. map_of gs k = map_option (js_ordered js_lines_raw) (map_of (membership_row c cid) k)"
    by (rule as_read_fields [OF d]) (rule that)
  then show ?thesis
    by (simp add: open_channel_def row_item_def dict_item_def membership_row_def js_ordered_str)
qed

lemma mapM_map_Ok: "(\<And>x. x \<in> set xs \<Longrightarrow> f (g x) = Ok (h x)) \<Longrightarrow> mapM f (map g xs) = Ok (map h xs)"
  by (induction xs) simp_all

lemma map_filter_some: "List.map_filter (\<lambda>c. c) (map (\<lambda>x. if b then Some x else None) xs) = (if b then xs else [])"
  by (cases b) (simp_all add: map_filter_def comp_def)

lemma corpus_accessible:
  assumes "membership_rows access channels = Ok rows" "r_memberships repo = map as_read rows"
  shows "\<exists>cids. accessible_channel_ids repo caller = Ok cids \<and>
    (\<forall>cid \<in> fst ` set channels. cid \<in> cids \<longleftrightarrow> may_read access caller cid)"
proof -
  from assms(1) obtain blocked where b: "py_iter (dict_get access ''inaccessible_channels'' (JArr [])) = Ok blocked"
    and m: "mapM (\<lambda>cid. rbind (jitem access ''benchmark_caller_id'') (\<lambda>c. Ok (membership_row c cid)))
      (filter (\<lambda>cid. JStr cid \<notin> set (map py_norm blocked)) (sort (dict_keys channels))) = Ok rows"
    by (auto simp: membership_rows_def rbind_Ok_iff as_keys_Ok)
  let ?open = "filter (\<lambda>cid. JStr cid \<notin> set (map py_norm blocked)) (sort (dict_keys channels))"
  have "rs = map (membership_row (jget access ''benchmark_caller_id'')) xs"
    if "mapM (\<lambda>cid. rbind (jitem access ''benchmark_caller_id'') (\<lambda>c. Ok (membership_row c cid))) xs = Ok rs" for xs rs
    using that by (induction xs arbitrary: rs) (auto simp: rbind_Ok_iff dict_item_Ok_iff dict_get_def)
  then have rows: "rows = map (membership_row (jget access ''benchmark_caller_id'')) ?open" using m .
  have norm: "JStr cid \<in> set (map py_norm blocked) \<longleftrightarrow> JStr cid \<in> set blocked" for cid
    using py_eq_JStr(1) [of cid] by (auto simp: py_eq_def image_iff)
  have "mapM (open_channel caller) (r_memberships repo) =
      Ok (map (\<lambda>cid. if jget access ''benchmark_caller_id'' = JStr caller then Some cid else None) ?open)"
    unfolding assms(2) rows map_map comp_def by (intro mapM_map_Ok open_channel_membership)
  then have "accessible_channel_ids repo caller =
      Ok (if jget access ''benchmark_caller_id'' = JStr caller then set ?open else {})"
    by (simp add: accessible_channel_ids_def map_filter_some)
  then show ?thesis using b norm by (auto simp: may_read_def)
qed

lemma files_of_corpus:
  assumes "holds_corpus fs dir t"
  shows "stored_rows fs (dir @ [''messages.jsonl'']) = Ok (map (\<lambda>m. as_read (message_row m)) (sort_key m_message_id (t_messages t)))"
    "stored_rows fs (dir @ [''media.jsonl'']) = Ok (map (\<lambda>x. as_read (media_row_json x)) (sort_key md_media_id (t_media t)))"
    "stored_rows fs (dir @ [''memberships.jsonl'']) = Ok (map as_read (t_memberships t))"
  using assms by (auto simp: holds_corpus_def corpus_files_def comp_def)

lemma read_row:
  assumes "distinct (map fst row)" "map_of row k = Some (JStr s)"
  shows "\<exists>fs. as_read row = JObj fs \<and> map_of fs k = Some (JStr s)"
  using as_read_item [OF assms] by (auto simp: row_item_def dict_item_Ok_iff split: json.splits)

lemma message_row_keys: "distinct (map fst (message_row m))"
  "map_of (message_row m) ''message_id'' = Some (JStr (m_message_id m))"
  "map_of (message_row m) ''channel_id'' = Some (JStr (m_channel_id m))"
  by (simp_all add: message_row_def)

lemma media_row_keys: "distinct (map fst (media_row_json x))"
  "map_of (media_row_json x) ''media_id'' = Some (JStr (md_media_id x))"
  "map_of (media_row_json x) ''channel_id'' = Some (JStr (md_channel_id x))"
  by (simp_all add: media_row_json_def)

text \<open>The repository of a corpus: its rows by id, and the scope of every caller.\<close>

lemma repository_of_corpus:
  assumes "corpus_tables set_order fs' raw_root aliases mention_aliases access sessions = Ok t" "holds_corpus fs dir t"
    "distinct (map m_message_id (t_messages t))" "distinct (map md_media_id (t_media t))"
  obtains repo where "open_repository fs dir = Ok repo"
    "\<And>i row. map_of (r_messages repo) (JStr i) = Some row \<longleftrightarrow>
      (\<exists>m \<in> set (t_messages t). m_message_id m = i \<and> as_read (message_row m) = JObj row)"
    "\<And>i row. map_of (r_media repo) (JStr i) = Some row \<longleftrightarrow>
      (\<exists>x \<in> set (t_media t). md_media_id x = i \<and> as_read (media_row_json x) = JObj row)"
    "\<And>caller. \<exists>cids. accessible_channel_ids repo caller = Ok cids \<and>
      (\<forall>m \<in> set (t_messages t). m_channel_id m \<in> cids \<longleftrightarrow> may_read access caller (m_channel_id m)) \<and>
      (\<forall>x \<in> set (t_media t). md_channel_id x \<in> cids \<longleftrightarrow> may_read access caller (md_channel_id x))"
proof -
  note files = files_of_corpus [OF assms(2)]
  obtain messages where messages: "index_rows ''message_id'' (map (\<lambda>m. as_read (message_row m)) (sort_key m_message_id (t_messages t))) = Ok messages"
    "\<And>i row. map_of messages (JStr i) = Some row \<longleftrightarrow> (\<exists>m \<in> set (t_messages t). m_message_id m = i \<and> as_read (message_row m) = JObj row)"
    using index_rows_map [of "sort_key m_message_id (t_messages t)" "\<lambda>m. as_read (message_row m)" "''message_id''" m_message_id]
      read_row [OF message_row_keys(1,2)] assms(3) by auto
  obtain media where media: "index_rows ''media_id'' (map (\<lambda>x. as_read (media_row_json x)) (sort_key md_media_id (t_media t))) = Ok media"
    "\<And>i row. map_of media (JStr i) = Some row \<longleftrightarrow> (\<exists>x \<in> set (t_media t). md_media_id x = i \<and> as_read (media_row_json x) = JObj row)"
    using index_rows_map [of "sort_key md_media_id (t_media t)" "\<lambda>x. as_read (media_row_json x)" "''media_id''" md_media_id]
      read_row [OF media_row_keys(1,2)] assms(4) by auto
  let ?repo = "\<lparr>r_media = media, r_messages = messages, r_memberships = map as_read (t_memberships t)\<rparr>"
  from assms(1) obtain st names where ok: "corpus_ok st"
    and t: "t_messages t = rank_messages (relate names (c_messages st))" "t_media t = c_media st"
    "membership_rows access (c_channels st) = Ok (t_memberships t)"
    by (rule corpus_tables_cases)
  have chans: "m_channel_id m \<in> fst ` set (c_channels st)" if m: "m \<in> set (t_messages t)" for m
  proof -
    obtain m0 where "m0 \<in> set (c_messages st)" "m_channel_id m = m_channel_id m0"
      by (rule related_messages [OF m [unfolded t(1)]]) simp
    then show ?thesis using ok by (simp add: corpus_ok_def)
  qed
  have "md_channel_id x \<in> fst ` set (c_channels st)" if "x \<in> set (t_media t)" for x
  proof -
    from ok that obtain m where "m \<in> set (c_messages st)" "m_channel_id m = md_channel_id x"
      unfolding t(2) by (auto simp: corpus_ok_def)
    then show ?thesis using ok unfolding corpus_ok_def by metis
  qed
  with chans have "\<exists>cids. accessible_channel_ids ?repo caller = Ok cids \<and>
      (\<forall>m \<in> set (t_messages t). m_channel_id m \<in> cids \<longleftrightarrow> may_read access caller (m_channel_id m)) \<and>
      (\<forall>x \<in> set (t_media t). md_channel_id x \<in> cids \<longleftrightarrow> may_read access caller (md_channel_id x))" for caller
    using corpus_accessible [OF t(3), of ?repo caller] unfolding repository.simps by metis
  moreover have "open_repository fs dir = Ok ?repo"
    by (simp add: open_repository_def files messages media)
  ultimately show ?thesis using that [of ?repo] messages(2) media(2) by simp
qed

lemma corpus_reads:
  assumes "\<And>i row. map_of d (JStr i) = Some row \<longleftrightarrow> (\<exists>x \<in> set xs. key x = i \<and> as_read (row_of x) = JObj row)"
    and "\<And>x. x \<in> set xs \<Longrightarrow> distinct (map fst (row_of x)) \<and> map_of (row_of x) ''channel_id'' = Some (JStr (cid_of x))"
    and "accessible_channel_ids repo caller = Ok cids" "\<forall>x \<in> set xs. cid_of x \<in> cids \<longleftrightarrow> may_read access caller (cid_of x)"
  shows "map_of d (JStr i) = Some row \<and> (\<exists>cids cid. accessible_channel_ids repo caller = Ok cids \<and>
        map_of row ''channel_id'' = Some (JStr cid) \<and> cid \<in> cids) \<longleftrightarrow>
      (\<exists>x \<in> set xs. key x = i \<and> may_read access caller (cid_of x) \<and> as_read (row_of x) = JObj row)"
    "is_ok (scoped_row repo caller (map_of d (JStr i)))"
proof -
  have cid: "map_of row ''channel_id'' = Some (JStr (cid_of x))" if "x \<in> set xs" "as_read (row_of x) = JObj row" for x row
    using read_row [of "row_of x" "''channel_id''" "cid_of x"] assms(2) that by auto
  show "map_of d (JStr i) = Some row \<and> (\<exists>cids cid. accessible_channel_ids repo caller = Ok cids \<and>
        map_of row ''channel_id'' = Some (JStr cid) \<and> cid \<in> cids) \<longleftrightarrow>
      (\<exists>x \<in> set xs. key x = i \<and> may_read access caller (cid_of x) \<and> as_read (row_of x) = JObj row)"
    unfolding assms(1) using assms(3,4) cid by (metis json.inject(4) option.inject result.inject(1))
  show "is_ok (scoped_row repo caller (map_of d (JStr i)))"
  proof (cases "map_of d (JStr i)")
    case (Some row)
    then obtain x where "x \<in> set xs" "as_read (row_of x) = JObj row" using assms(1) by blast
    from cid [OF this] Some assms(3) show ?thesis by (simp add: scoped_row_def dict_item_def)
  qed (simp add: scoped_row_def)
qed


section \<open>A corpus on disk\<close>

text \<open>What \<^verbatim>\<open>_write_jsonl\<close> writes is read back, for rows of plain values in plain characters.\<close>

lemma dump_ascii_narrow: "narrow_json v \<Longrightarrow> dump (st\<lparr>js_ascii := False\<rparr>) l v = dump (st\<lparr>js_ascii := True\<rparr>) l v"
proof (induction "st\<lparr>js_ascii := False\<rparr>" l v rule: dump.induct)
  case (6 l xs)
  then have eq: "map (dump (st\<lparr>js_ascii := False\<rparr>) (Suc l)) xs = map (dump (st\<lparr>js_ascii := True\<rparr>) (Suc l)) xs"
    by (auto simp: list_all_iff)
  show ?case unfolding dump.simps eq by (simp add: bracketed_def newline_def)
next
  case (7 l fs)
  then have eq: "map (\<lambda>(k, v). (k, dump_str (js_ascii (st\<lparr>js_ascii := False\<rparr>)) k @ js_key_sep (st\<lparr>js_ascii := False\<rparr>) @
        dump (st\<lparr>js_ascii := False\<rparr>) (Suc l) v)) fs =
      map (\<lambda>(k, v). (k, dump_str (js_ascii (st\<lparr>js_ascii := True\<rparr>)) k @ js_key_sep (st\<lparr>js_ascii := True\<rparr>) @
        dump (st\<lparr>js_ascii := True\<rparr>) (Suc l) v)) fs"
    by (auto simp: list_all_iff dump_str_narrow)
  have ko: "key_order (st\<lparr>js_ascii := False\<rparr>) = (key_order (st\<lparr>js_ascii := True\<rparr>) :: (string \<times> string) list \<Rightarrow> _)"
    by (rule ext) (simp add: key_order_def)
  show ?case unfolding dump.simps eq ko by (simp add: bracketed_def newline_def)
qed (simp_all add: dump_str_narrow)

lemma dumps_raw: "narrow_json v \<Longrightarrow> dumps js_lines_raw v = dumps js_lines v"
  using dump_ascii_narrow [of v js_lines 0] by (simp add: dumps_def js_lines_raw_def) (simp add: js_lines_def)

definition jsonl_text :: "pyobj list \<Rightarrow> string" where
  "jsonl_text rows = concat (map (\<lambda>row. dumps js_lines_raw (JObj row) @ [CHR 0x0A]) rows)"

lemma stored_rows_written:
  assumes "list_all (\<lambda>r. js_plain (JObj r) \<and> narrow_json (JObj r)) rows" "map_of fs p = Some (File (utf8_encode (jsonl_text rows)))"
  shows "stored_rows fs p = Ok (map as_read rows)"
proof -
  have line: "printable c" if "r \<in> set rows" "c \<in> set (dumps js_lines_raw (JObj r))" for r c
    using dump_printable [of js_lines "JObj r" c 0] assms(1) that by (simp add: list_all_iff dumps_raw) (simp add: dumps_def)
  have "c \<noteq> CHR 0x0D" if c: "c \<in> set (jsonl_text rows)" for c
  proof
    assume cr: "c = CHR 0x0D"
    with c obtain r where "r \<in> set rows" "c \<in> set (dumps js_lines_raw (JObj r))" by (auto simp: jsonl_text_def split: if_splits)
    from line [OF this] show False by (simp add: cr)
  qed
  then have newlines: "universal_newlines (jsonl_text rows) = jsonl_text rows" by (intro universal_newlines_id) blast
  have "splitlines (jsonl_text rows) = map (\<lambda>r. dumps js_lines_raw (JObj r)) rows"
    using splitlines_concat [of "map (\<lambda>r. dumps js_lines_raw (JObj r)) rows"] line printable_inline
    by (auto simp: jsonl_text_def comp_def)
  moreover have "dumps js_lines_raw (JObj r) \<noteq> []" for r by (simp add: dumps_def bracketed_def)
  ultimately have "filter (\<lambda>l. l \<noteq> []) (splitlines (jsonl_text rows)) = map (\<lambda>r. dumps js_lines_raw (JObj r)) rows" by simp
  moreover have "mapM loads (map (\<lambda>r. dumps js_lines_raw (JObj r)) rows) = Ok (map as_read rows)"
    using loads_dumps [of js_lines_raw _ "[]"] assms(1) by (intro mapM_map_Ok) (simp add: as_read_def list_all_iff)
  ultimately show ?thesis
    using assms(2) newlines by (simp add: stored_rows_def fs_read_text_def fs_read_def)
qed

text \<open>One message in one channel, written to a directory.\<close>

definition scope_sessions :: "session list" where
  "scope_sessions = [sample_session ''session1'' ''A_Ann'' ''hi'']"

definition scope_message :: message where
  "scope_message = \<lparr>m_message_id = ''dyadic_d1:session1:0'', m_channel_id = ''dyadic_d1'', m_sender_id = Some ''sender_ann'',
     m_text = ''hi'', m_timestamp = ''2024-02-03T09:00:00+07:00'', m_turn_index = 0, m_session_index = 1,
     m_source_session_id = JStr ''dyadic_d1:session1'', m_rank = 0, m_conflict = False, m_relations = []\<rparr>"

lemma scope_parts:
  "temporal_conflict_sessions [''r''] scope_sessions = Ok []"
  "is_ok (sender_names (\<lambda>xs. xs) [] [''Ann''])" "is_ok (sender_rows (\<lambda>xs. xs) [''Ann''])"
  "rx_spans mention_pattern ''hi'' = []" "nat_str 0 = ''0''"
proof -
  have "channel_sessions [''r''] scope_sessions = Ok [(''dyadic_d1'', [(1, (2024, 2, 3))])]"
    by (simp add: channel_sessions_def scope_sessions_def sample_session_def sample_places dict_append_def dict_get_def)
  moreover have "inversions [(1, (2024, 2, 3))] = []" by code_simp
  ultimately show "temporal_conflict_sessions [''r''] scope_sessions = Ok []"
    by (simp add: temporal_conflict_sessions_def)
  show "is_ok (sender_names (\<lambda>xs. xs) [] [''Ann''])" by code_simp
  show "is_ok (sender_rows (\<lambda>xs. xs) [''Ann''])" by code_simp
  show "rx_spans mention_pattern ''hi'' = []" by code_simp
  show "nat_str 0 = ''0''" by code_simp
qed

lemma scope_fold:
  "\<exists>c. foldM (session_step [] [''r''] [] []) \<lparr>c_messages = [], c_media = [], c_referenced = [], c_names = [], c_channels = []\<rparr>
      scope_sessions = Ok \<lparr>c_messages = [scope_message], c_media = [], c_referenced = [], c_names = [''Ann''], c_channels = [(''dyadic_d1'', c)]\<rparr>"
  by (simp add: scope_parts(5) session_step_def turn_step_def scope_sessions_def sample_session_def sample_turn_def sample_places
    sample_senders sample_time nth_item_def dict_item_def py_iter_def obj_fields_def dict_get_def turn_media_def str_of_def
    Let_def scope_message_def)

lemma scope_tables:
  "\<exists>t. corpus_tables (\<lambda>xs. xs) [] [''r''] [] [] sample_access scope_sessions = Ok t \<and> t_messages t = [scope_message] \<and>
    t_media t = [] \<and> t_memberships t = [membership_row (JStr ''reader'') ''dyadic_d1'']"
proof -
  obtain c where st: "foldM (session_step [] [''r''] [] []) \<lparr>c_messages = [], c_media = [], c_referenced = [], c_names = [], c_channels = []\<rparr>
      scope_sessions = Ok \<lparr>c_messages = [scope_message], c_media = [], c_referenced = [], c_names = [''Ann''], c_channels = [(''dyadic_d1'', c)]\<rparr>"
    using scope_fold by blast
  obtain names rows where n: "sender_names (\<lambda>xs. xs) [] [''Ann''] = Ok names" "sender_rows (\<lambda>xs. xs) [''Ann''] = Ok rows"
    using scope_parts(2,3) unfolding is_ok_iff by blast
  have "membership_rows sample_access [(''dyadic_d1'', c)] = Ok [membership_row (JStr ''reader'') ''dyadic_d1'']"
    by (simp add: membership_rows_def sample_access_def dict_get_def py_iter_def as_keys_def dict_item_def)
  moreover have "orphan_paths [] [''r''] [] = []" by (simp add: orphan_paths_def all_images_def)
  moreover have "relate names [scope_message] = [scope_message]"
    by (simp add: relate_def mention_relations_def scope_message_def scope_parts(4))
  moreover have "rank_messages [scope_message] = [scope_message]"
    by (simp add: rank_messages_def chronological_order_def scope_message_def)
  ultimately show ?thesis
    using st n by (simp add: corpus_tables_def scope_parts(1) Let_def)
qed

definition scope_files :: "path \<Rightarrow> fs" where
  "scope_files dir =
     [(dir @ [''messages.jsonl''], File (utf8_encode (jsonl_text [message_row scope_message]))),
      (dir @ [''media.jsonl''], File (utf8_encode (jsonl_text []))),
      (dir @ [''memberships.jsonl''], File (utf8_encode (jsonl_text [membership_row (JStr ''reader'') ''dyadic_d1''])))]"

lemma scope_holds:
  assumes "t_messages t = [scope_message]" "t_media t = []" "t_memberships t = [membership_row (JStr ''reader'') ''dyadic_d1'']"
  shows "holds_corpus (scope_files dir) dir t"
proof -
  have plain: "js_plain (JObj r) \<and> narrow_json (JObj r)"
    if "r \<in> {message_row scope_message, membership_row (JStr ''reader'') ''dyadic_d1''}" for r
    using that by (auto simp: message_row_def scope_message_def membership_row_def opt_json_def narrow_def)
  have "stored_rows (scope_files dir) (dir @ [''messages.jsonl'']) = Ok (map as_read [message_row scope_message])"
    "stored_rows (scope_files dir) (dir @ [''media.jsonl'']) = Ok (map as_read [])"
    "stored_rows (scope_files dir) (dir @ [''memberships.jsonl'']) = Ok (map as_read [membership_row (JStr ''reader'') ''dyadic_d1''])"
    by (rule stored_rows_written; use plain in \<open>simp add: scope_files_def\<close>)+
  then show ?thesis using assms by (auto simp: holds_corpus_def corpus_files_def)
qed


end
