(* ===== verification/Tier_Text.thy ===== *)
theory Tier_Text
  imports Golden_Rows
begin

text \<open>
  What the builders of the three tiers share (\<^verbatim>\<open>src/evaluation/golden/tier_a.py\<close>, \<^verbatim>\<open>tier_b.py\<close>,
  \<^verbatim>\<open>tier_c.py\<close>): the rewriting of question texts, the indexes over the corpus, the question files and the
  layout of a gold row. Capital letters beyond Latin-1, which only the micro sign and the y with
  diaeresis have, are outside the model of strings.
\<close>

section \<open>Patterns of words\<close>

text \<open>A phrase whose words are separated by blanks, in any case.\<close>

primrec rx_words :: "string \<Rightarrow> regex" where
  "rx_words [] = Eps"
| "rx_words (c # cs) =
     Seq (if c = CHR '' '' then rx_plus (Chr is_space) else Chr (any_case (is_char c))) (rx_words cs)"

definition blanks :: regex where
  "blanks = Star (Chr is_space)"

definition blanks1 :: regex where
  "blanks1 = rx_plus (Chr is_space)"

definition digits1 :: regex where
  "digits1 = rx_plus (Chr is_digit)"

text \<open>\<^verbatim>\<open>\s*,?\s*\<close>\<close>

definition comma_tail :: regex where
  "comma_tail = rx_seq [blanks, rx_opt (rx_lit '',''), blanks]"

text \<open>\<^verbatim>\<open>png|jpe?g\<close>\<close>

definition image_suffix :: regex where
  "image_suffix = rx_alt [rx_words ''png'', rx_seq [rx_words ''jp'', rx_opt (rx_words ''e''), rx_words ''g'']]"

definition phrases :: "string list \<Rightarrow> regex" where
  "phrases ws = rx_alt (map rx_words ws)"

section \<open>Cleaning a text\<close>

definition talk :: regex where
  "talk = phrases [''conversation'', ''dialogue'']"

definition CLEAN_PREAMBLE_PATTERNS :: "regex list" where
  "CLEAN_PREAMBLE_PATTERNS =
     [rx_seq [Bos, blanks, rx_alt
        [rx_seq [rx_words ''Based on the '',
           phrases [''information'', ''knowledge'', ''dialogue'', ''conversation'', ''details'', ''content''],
           rx_opt (Seq blanks1 (phrases [''learned'', ''provided'', ''gained'', ''mentioned''])),
           rx_opt (Seq (rx_words '' from the '') talk)],
         Seq (rx_words ''Learned from the '') talk,
         Seq (rx_words ''As learned from the '') talk,
         Seq (rx_words ''From the '') talk,
         rx_words ''In this conversation'',
         rx_words ''In the conversation'',
         Seq (rx_words ''Based on the dialogue'') (rx_opt (rx_words '' content'')),
         rx_words ''According to the conversation'',
         rx_words ''Based on the conversation'',
         rx_words ''According to the dialogue'',
         rx_words ''In the dialogue'',
         Seq (rx_words ''Based on the information'') (rx_opt (rx_words '' provided''))], comma_tail],
      rx_seq [Bos, blanks, rx_plus (rx_seq [rx_words ''Earlier'', blanks, rx_lit '','', blanks])],
      rx_seq [Bos, blanks, rx_plus (rx_seq [rx_words ''earlier discussion'', comma_tail])],
      rx_seq [WordB, phrases [''in the conversation'', ''in the dialogue'', ''in this conversation'', ''in this dialogue''],
        WordB, comma_tail]]"

text \<open>\<^verbatim>\<open>cleaned[0].islower()\<close> and \<^verbatim>\<open>cleaned[0].upper()\<close>\<close>

definition is_lowercase :: "char \<Rightarrow> bool" where
  "is_lowercase c \<longleftrightarrow> to_upper c \<noteq> c \<or> code c \<in> {170, 181, 186, 223, 255}"

definition upper_text :: "char \<Rightarrow> string" where
  "upper_text c = (if code c = 223 then ''SS'' else [to_upper c])"

definition sanitize_text :: "string \<Rightarrow> string" where
  "sanitize_text text =
     (let cleaned = foldl (\<lambda>s r. rx_sub r (\<lambda>_. []) s) text CLEAN_PREAMBLE_PATTERNS;
          cleaned = strip (rx_sub blanks1 (\<lambda>_. '' '') cleaned) in
      case cleaned of
        [] \<Rightarrow> []
      | c # cs \<Rightarrow> if is_lowercase c then upper_text c @ cs else cleaned)"

definition picture_word :: regex where
  "picture_word = rx_alt [rx_words ''picture'', Seq (rx_words ''image'') (rx_opt (rx_words ''s'')), rx_words ''photo'',
     rx_words ''table'', rx_words ''figure'']"

text \<open>A pattern with what a match of it is replaced by.\<close>

definition EXTRA_CLEANERS :: "(regex \<times> (rx_match \<Rightarrow> string)) list" where
  "EXTRA_CLEANERS =
     [(rx_seq [Bos, blanks, rx_alt
        [rx_words ''In this conversation'', rx_words ''In the conversation'',
         Seq (rx_words ''Based on the dialogue'') (rx_opt (rx_words '' content'')),
         rx_words ''According to the conversation'', rx_words ''Based on the conversation'',
         rx_words ''According to the dialogue'', rx_words ''In the dialogue''], comma_tail], \<lambda>_. []),
      (rx_seq [WordB, rx_opt (rx_words ''the ''), rx_words ''problematic '', picture_word, WordB], \<lambda>_. ''the image''),
      (rx_seq [WordB, rx_opt (rx_words ''the ''), rx_words ''problem '', picture_word, WordB], \<lambda>_. ''the image''),
      (rx_seq [WordB, rx_opt (rx_words ''the ''), rx_words ''question'', rx_opt (rx_words [CHR 0x27, CHR ''s'']), blanks1,
        picture_word, WordB], \<lambda>_. ''the image''),
      (rx_seq [WordB, rx_words ''the image of the question being sent'', WordB], \<lambda>_. ''the sent image''),
      (rx_seq [WordB, rx_words ''The question image sent is the one sent by '',
        Grp 1 (rx_plus (Chr (\<lambda>c. is_lower c \<or> is_upper c \<or> is_space c \<or> c = CHR 0x27))), rx_lit ''.'', blanks],
       \<lambda>m. ''After '' @ rx_grp m 1 @ '' sent the image, ''),
      (rx_seq [Star (Chr (\<lambda>c. is_word c \<or> c = CHR ''/'')), WordB, Star (Chr is_word), digits1, rx_lit ''.'', image_suffix, WordB],
       \<lambda>_. ''the photo''),
      (rx_seq [WordB, rx_words ''session'', blanks, Grp 1 digits1, WordB], \<lambda>m. ''meeting '' @ rx_grp m 1),
      (rx_seq [WordB, rx_words ''session'', Grp 1 digits1, rx_lit ''/''], \<lambda>m. ''section_'' @ rx_grp m 1 @ ''/'')]"

definition clean_query_text :: "string \<Rightarrow> string" where
  "clean_query_text text = sanitize_text (foldl (\<lambda>s (p, repl). rx_sub p repl s) text EXTRA_CLEANERS)"

section \<open>The corpus\<close>

text \<open>The keys of a message are its channel and its session; numbers are equal across their types.\<close>

type_synonym message_index = "(json \<times> json, pyobj list) dict"
type_synonym media_index = "(json \<times> json, json) dict"

definition index_key :: "json \<Rightarrow> json \<Rightarrow> (json \<times> json) result" where
  "index_key c s = (if hashable c \<and> hashable s then Ok (py_norm c, py_norm s) else Raise (TypeError ''unhashable''))"

text \<open>The lines of a file that are not blank, none when there is no file.\<close>

definition optional_lines :: "fs \<Rightarrow> path \<Rightarrow> string list result" where
  "optional_lines fs p =
     (if fs_exists fs p then
        rbind (fs_read fs p) (\<lambda>bytes.
          case utf8_decode bytes of
            None \<Rightarrow> Raise (ValueError ''invalid utf-8'')
          | Some content \<Rightarrow> Ok (filter (\<lambda>line. strip line \<noteq> []) (file_lines content)))
      else Ok [])"

definition index_message :: "message_index \<Rightarrow> string \<Rightarrow> message_index result" where
  "index_message d line =
     rbind (loads_object line) (\<lambda>msg.
     rbind (jitem msg ''channel_id'') (\<lambda>c.
     rbind (index_key c (dict_get msg ''session_index'' (JInt 0))) (\<lambda>k. Ok (dict_append k msg d))))"

definition index_media :: "media_index \<Rightarrow> string \<Rightarrow> media_index result" where
  "index_media d line =
     rbind (loads_object line) (\<lambda>med.
     rbind (jitem med ''channel_id'') (\<lambda>c.
     rbind (jitem med ''media_id'') (\<lambda>mid.
     rbind (index_key c (dict_get med ''raw_relative_path'' (JStr []))) (\<lambda>k. Ok (AList.update k mid d)))))"

definition load_corpus_indexes :: "fs \<Rightarrow> path \<Rightarrow> (message_index \<times> media_index) result" where
  "load_corpus_indexes fs base =
     rbind (optional_lines fs (messages_file base)) (\<lambda>lines.
     rbind (foldM index_message [] lines) (\<lambda>messages.
     rbind (optional_lines fs (base @ [''data'', ''processed'', ''media.jsonl''])) (\<lambda>media_lines.
     rbind (foldM index_media [] media_lines) (\<lambda>media. Ok (messages, media)))))"

text \<open>\<^verbatim>\<open>messages_index.get((channel_id, s), [])\<close>\<close>

definition session_messages :: "message_index \<Rightarrow> string \<Rightarrow> json \<Rightarrow> pyobj list result" where
  "session_messages messages channel s =
     rbind (index_key (JStr channel) s) (\<lambda>k. Ok (dict_get messages k []))"

section \<open>The question files\<close>

definition raw_dir :: "path \<Rightarrow> path" where
  "raw_dir base = base @ [''data'', ''raw'', ''H2HMEM'']"

definition question_files :: "fs \<Rightarrow> path \<Rightarrow> path list" where
  "question_files fs raw =
     sort (filter (\<lambda>p. strict_prefix raw p \<and> last p = ''questions.json'') (map fst fs))"

definition dialogue_pattern :: regex where
  "dialogue_pattern = Seq (rx_words ''dialogue'') (Grp 1 digits1)"

definition is_multiparty :: "string \<Rightarrow> bool" where
  "is_multiparty place = contains place ''multi-party''"

definition channel_of :: "string \<Rightarrow> string" where
  "channel_of place =
     (if is_multiparty place then ''multiparty'' else ''dyadic'') @ ''_d'' @
     nat_str (case rx_search dialogue_pattern place of None \<Rightarrow> 1 | Some m \<Rightarrow> str_nat (rx_grp m 1))"

text \<open>The text of a path below a directory.\<close>

definition relative_text :: "path \<Rightarrow> path \<Rightarrow> string" where
  "relative_text raw p = join ''/'' (drop (length raw) p)"

definition read_document :: "fs \<Rightarrow> path \<Rightarrow> pyobj result" where
  "read_document fs p = rbind (fs_read_text fs p) (\<lambda>content. rbind (loads content) obj_fields)"

definition questions_of :: "pyobj \<Rightarrow> (nat \<times> json) list result" where
  "questions_of data = rbind (py_iter (dict_get data ''questions'' (JArr []))) (\<lambda>qs. Ok (enumerate0 qs))"

definition session_number_of :: "pyobj \<Rightarrow> json result" where
  "session_number_of data =
     rbind (obj_fields (dict_get data ''metadata'' (JObj []))) (\<lambda>meta. Ok (dict_get meta ''session_number'' (JInt 0)))"

text \<open>\<^verbatim>\<open>q.get(k, {}).get(k', "")\<close>\<close>

definition nested_get :: "pyobj \<Rightarrow> string \<Rightarrow> string \<Rightarrow> json result" where
  "nested_get q k k' = rbind (obj_fields (dict_get q k (JObj []))) (\<lambda>inner. Ok (dict_get inner k' (JStr [])))"

text \<open>\<^verbatim>\<open>q.get("original_question_id") or f"s{s_num}_q{q_idx}"\<close>\<close>

definition question_id :: "pyobj \<Rightarrow> json \<Rightarrow> nat \<Rightarrow> json" where
  "question_id q s_num q_idx =
     (let given = jget q ''original_question_id'' in
      if truthy given then given else JStr (''s'' @ py_str s_num @ ''_q'' @ nat_str q_idx))"

section \<open>A gold row\<close>

text \<open>
  The rows of the tiers have the same fields; \<open>gold_spec\<close> holds those that differ. The hash is taken of the
  row without itself.
\<close>

record gold_spec =
  g_stratum :: string
  g_number :: nat
  g_query :: string
  g_answer :: string
  g_action :: string
  g_media :: "json list"
  g_evidence :: "string list"
  g_targets :: "string list"
  g_clues :: "json list"
  g_tier :: string
  g_difficulty :: string
  g_split :: json
  g_group :: json
  g_agent :: string
  g_generated_at :: string
  g_questions :: "json list"
  g_label_result :: string
  g_rewrites :: int
  g_is_media :: bool

definition query_id_text :: "string \<Rightarrow> nat \<Rightarrow> string" where
  "query_id_text stratum n = ''q_'' @ stratum @ ''_'' @ zero_pad 4 n"

text \<open>\<^verbatim>\<open>{mid: "required" if i == 0 else "supporting" for i, mid in enumerate(ids)}\<close>\<close>

definition evidence_role :: "string list \<Rightarrow> pyobj" where
  "evidence_role mids = dict_of (map (\<lambda>(i, mid). (mid, JStr (if i = 0 then ''required'' else ''supporting''))) (enumerate0 mids))"

definition gold_fields :: "gold_spec \<Rightarrow> pyobj" where
  "gold_fields g =
     [(''query_id'', JStr (query_id_text (g_stratum g) (g_number g))),
      (''content_hash'', JStr (compute_content_hash (g_query g) (g_stratum g) (g_answer g))),
      (''query'', JStr (g_query g)),
      (''expected_action'', JStr (g_action g)),
      (''gold_media_ids'', JArr (g_media g)),
      (''gold_evidence_message_ids'', JArr (map JStr (g_evidence g))),
      (''acceptable_clarification_targets'', JArr (map JStr (g_targets g))),
      (''gold_clues'', JArr (g_clues g)),
      (''stratum'', JStr (g_stratum g)),
      (''source_tier'', JStr (g_tier g)),
      (''difficulty'', JStr (g_difficulty g)),
      (''split'', g_split g),
      (''group_id'', g_group g),
      (''generator_agent'', JStr (g_agent g)),
      (''generator_instruction_ref'', JStr PROVENANCE_PATH),
      (''generated_at'', JStr (g_generated_at g)),
      (''source_question_ids'', JArr (g_questions g)),
      (''source_message_ids'', JArr (map JStr (g_evidence g))),
      (''label_verification_result'', JStr (g_label_result g)),
      (''gate_result'', JStr ''passed''),
      (''rewrite_count'', JInt (g_rewrites g)),
      (''gold_answer'', JStr (g_answer g)),
      (''answer_judge_model'', JStr ''z-ai/glm-5.3''),
      (''answer_judge_prompt_version'', JStr ''configs/prompts/judge_v1.txt''),
      (''gold_media_match'', JStr ''any_of''),
      (''answer_is_media'', JBool (g_is_media g)),
      (''evidence_role'', JObj (evidence_role (g_evidence g))),
      (''temporal_order_conflict'', JBool False),
      (''labelling_model'', JStr ''antigravity''),
      (''labelling_prompt_version'', JStr PROVENANCE_REF),
      (''gate_control_group'', JBool False),
      (''corpus_track'', JStr ''h2hmem'')]"

definition gold_row :: "gold_spec \<Rightarrow> pyobj" where
  "gold_row g = gold_fields g @ [(''output_hash'', JStr (compute_output_hash (gold_fields g)))]"

text \<open>The checks every tier ends with.\<close>

definition check_tier :: "pyobj list \<Rightarrow> pyobj list result" where
  "check_tier rows =
     rbind (validate_gold_rows rows) (\<lambda>validated.
     rbind (ensure (vocabulary_violations validated = []) (ValueError ''Vocabulary violations'')) (\<lambda>_. Ok validated))"

text \<open>The file of a tier and the manifest over it.\<close>

definition tier_content :: "pyobj list \<Rightarrow> string" where
  "tier_content rows = join [CHR 0x0A] (map (\<lambda>r. dumps js_canonical (JObj r)) rows) @ [CHR 0x0A]"

definition count_field :: "string \<Rightarrow> pyobj list \<Rightarrow> string \<Rightarrow> int" where
  "count_field k rows s = int (length (filter (\<lambda>r. jget r k = JStr s) rows))"

lemma gold_row_fields:
  "jget (gold_row g) ''query_id'' = JStr (query_id_text (g_stratum g) (g_number g))"
  "jget (gold_row g) ''stratum'' = JStr (g_stratum g)"
  "jget (gold_row g) ''group_id'' = g_group g"
  "jget (gold_row g) ''query'' = JStr (g_query g)"
  "jget (gold_row g) ''gold_answer'' = JStr (g_answer g)"
  "jget (gold_row g) ''gold_evidence_message_ids'' = JArr (map JStr (g_evidence g))"
  by (simp_all add: gold_row_def gold_fields_def dict_get_def)

text \<open>The hash of a finished row is the hash it carries.\<close>

lemma gold_row_hash: "jget (gold_row g) ''output_hash'' = JStr (compute_output_hash (gold_row g))"
  by (simp add: gold_row_def gold_fields_def dict_get_def compute_output_hash_def output_payload_def)

lemma check_tier_Ok: "check_tier rows = Ok rows' \<Longrightarrow> rows' = rows"
  by (auto simp: check_tier_def rbind_Ok_iff validate_gold_rows_Ok)

end
