(* ===== verification/Tier_A.thy ===== *)
theory Tier_A
  imports Tier_Text
begin

text \<open>
  Tier A (\<^verbatim>\<open>src/evaluation/golden/tier_a.py\<close>): the questions with an image become 618 rows, distributed over
  seven strata. The distribution is greedy; the theorem shows that it meets every quota exactly.
\<close>

section \<open>The questions\<close>

record question_item =
  qi_channel :: string
  qi_session :: json
  qi_image :: string
  qi_media :: json
  qi_text :: json
  qi_notes :: string
  qi_sub_type :: json
  qi_vlm_score :: nat
  qi_orig_id :: json
  qi_multi :: bool

definition vlm_kw :: regex where
  "vlm_kw = rx_seq [WordB, Grp 1 (phrases [''chart'', ''table'', ''graph'', ''axis'', ''plot'', ''trend'', ''diagram'', ''data'',
     ''form'', ''sheet'', ''figure'', ''pie'', ''bar'', ''curve'']), WordB]"

text \<open>The first media row of the channel whose path passes the test.\<close>

fun find_media :: "(string \<Rightarrow> bool) \<Rightarrow> string \<Rightarrow> media_index \<Rightarrow> json result" where
  "find_media P channel [] = Ok JNull"
| "find_media P channel (((c, rp), mid) # media) =
     (if c = JStr channel then
        rbind (str_of rp) (\<lambda>rp. if P rp then Ok mid else find_media P channel media)
      else find_media P channel media)"

text \<open>\<^verbatim>\<open>Path(img).name\<close>\<close>

definition path_name :: "string \<Rightarrow> string" where
  "path_name img = (case path_parts img of [] \<Rightarrow> [] | ps \<Rightarrow> last ps)"

definition resolve_media :: "media_index \<Rightarrow> string \<Rightarrow> json \<Rightarrow> string \<Rightarrow> json result" where
  "resolve_media media channel s_num img =
     (let fn = path_name img; parts = split_on (CHR ''/'') img in
      rbind (if CHR ''/'' \<in> set img
        then find_media (\<lambda>rp. contains rp (parts ! 0 @ ''/image/'' @ parts ! 1)) channel media else Ok JNull) (\<lambda>mid.
      rbind (if truthy mid then Ok mid
        else find_media (\<lambda>rp. contains rp (''session'' @ py_str s_num @ ''/image/'' @ fn)) channel media) (\<lambda>mid.
        if truthy mid then Ok mid else find_media (\<lambda>rp. ends_with rp (''/image/'' @ fn)) channel media)))"

definition question_item ::
  "media_index \<Rightarrow> string \<Rightarrow> bool \<Rightarrow> json \<Rightarrow> nat \<times> json \<Rightarrow> question_item option result" where
  "question_item media channel multi s_num iq =
     rbind (obj_fields (snd iq)) (\<lambda>q.
     rbind (nested_get q ''question'' ''image'') (\<lambda>img.
     if \<not> truthy img then Ok None
     else
       rbind (nested_get q ''question'' ''text'') (\<lambda>txt.
       let ans = py_str (dict_get q ''original_answer'' (JStr [])); notes = py_str (dict_get q ''validation_notes'' (JStr [])) in
       rbind (nested_get q ''question_type'' ''sub_type'') (\<lambda>st.
       rbind (str_of img) (\<lambda>image.
       rbind (resolve_media media channel s_num image) (\<lambda>mid.
         Ok (Some \<lparr>qi_channel = channel, qi_session = s_num, qi_image = image, qi_media = mid, qi_text = txt,
           qi_notes = notes, qi_sub_type = st,
           qi_vlm_score = length (rx_finditer vlm_kw (py_str txt @ '' '' @ ans @ '' '' @ notes)),
           qi_orig_id = question_id q s_num (fst iq), qi_multi = multi\<rparr>)))))))"

definition file_items :: "fs \<Rightarrow> path \<Rightarrow> media_index \<Rightarrow> path \<Rightarrow> question_item list result" where
  "file_items fs raw media qf =
     (let place = relative_text raw qf in
      rbind (read_document fs qf) (\<lambda>data.
      rbind (session_number_of data) (\<lambda>s_num.
      rbind (questions_of data) (\<lambda>qs.
      rbind (mapM (question_item media (channel_of place) (is_multiparty place) s_num) qs) (\<lambda>found.
        Ok (List.map_filter (\<lambda>x. x) found))))))"

section \<open>The strata\<close>

definition target_quotas :: "(string, nat) dict" where
  "target_quotas =
     [(''vlm_dependent'', 79), (''visual_plus_context'', 149), (''direct_visual'', 99), (''long_range'', 130),
      (''referential'', 60), (''interleaved'', 51), (''context_only'', 50)]"

definition zero_counts :: "(string, nat) dict" where
  "zero_counts = map (\<lambda>(s, _). (s, 0)) target_quotas"

definition has_room :: "(string, nat) dict \<Rightarrow> string \<Rightarrow> bool" where
  "has_room counts s \<longleftrightarrow> dict_get counts s 0 < dict_get target_quotas s 0"

definition choose_stratum :: "bool \<Rightarrow> question_item \<Rightarrow> (string, nat) dict \<Rightarrow> string" where
  "choose_stratum vlm item counts =
     (if vlm \<and> has_room counts ''vlm_dependent'' then ''vlm_dependent''
      else if qi_sub_type item = JStr ''Multimodal Causal Inference'' \<and> has_room counts ''visual_plus_context''
      then ''visual_plus_context''
      else if qi_sub_type item = JStr ''Cross-modal Related Retrieval'' \<and> has_room counts ''direct_visual''
      then ''direct_visual''
      else if qi_sub_type item = JStr ''Reference & Evolution Tracking'' \<and> has_room counts ''long_range''
      then ''long_range''
      else if qi_multi item \<and> has_room counts ''referential'' then ''referential''
      else if qi_multi item \<and> has_room counts ''interleaved'' then ''interleaved''
      else if has_room counts ''context_only'' then ''context_only''
      else if has_room counts ''visual_plus_context'' then ''visual_plus_context''
      else if has_room counts ''direct_visual'' then ''direct_visual''
      else if has_room counts ''long_range'' then ''long_range''
      else if has_room counts ''referential'' then ''referential''
      else if has_room counts ''interleaved'' then ''interleaved''
      else ''vlm_dependent'')"

text \<open>The questions with the highest scores, ties in their order.\<close>

definition vlm_set :: "question_item list \<Rightarrow> nat set" where
  "vlm_set items = set (take 79 (sort_key (\<lambda>i. - int (qi_vlm_score (items ! i))) [0..<length items]))"

section \<open>The rows\<close>

definition candidate_messages :: "message_index \<Rightarrow> string \<Rightarrow> json \<Rightarrow> pyobj list result" where
  "candidate_messages messages channel s_num =
     rbind (session_messages messages channel s_num) (\<lambda>ms.
       if ms \<noteq> [] then Ok ms else session_messages messages channel (JInt 1))"

definition tier_a_row :: "message_index \<Rightarrow> string \<Rightarrow> string \<Rightarrow> nat \<Rightarrow> question_item \<Rightarrow> pyobj result" where
  "tier_a_row messages generated_at stratum seq item =
     rbind (str_of (qi_text item)) (\<lambda>txt.
     rbind (candidate_messages messages (qi_channel item) (qi_session item)) (\<lambda>cand_msgs.
     rbind (mapM (\<lambda>m. str_item m ''message_id'') (take 2 cand_msgs)) (\<lambda>evidence.
     if \<not> truthy (qi_media item) then Raise (ValueError ''Could not resolve media_id'')
     else Ok (gold_row
       \<lparr>g_stratum = stratum, g_number = seq, g_query = clean_query_text txt, g_answer = [], g_action = ''return_result'',
        g_media = [qi_media item], g_evidence = evidence, g_targets = [],
        g_clues = (if qi_notes item \<noteq> [] then [JStr (qi_notes item)] else []), g_tier = ''tier_a'', g_difficulty = ''medium'',
        g_split = JStr ''dev'', g_group = JStr (qi_channel item), g_agent = ''codex-5.5'', g_generated_at = generated_at,
        g_questions = (if truthy (qi_orig_id item) then [qi_orig_id item] else []), g_label_result = ''passed'',
        g_rewrites = 1, g_is_media = True\<rparr>))))"

definition label_item ::
  "message_index \<Rightarrow> string \<Rightarrow> nat set \<Rightarrow> (string, nat) dict \<times> pyobj list \<Rightarrow> nat \<times> question_item \<Rightarrow>
    ((string, nat) dict \<times> pyobj list) result" where
  "label_item messages generated_at vlm st ix = (case (st, ix) of ((counts, rows), (i, item)) \<Rightarrow>
     let stratum = choose_stratum (i \<in> vlm) item counts; seq = dict_get counts stratum 0 + 1 in
     rbind (tier_a_row messages generated_at stratum seq item) (\<lambda>row.
       Ok (AList.update stratum seq counts, rows @ [row])))"

definition label_items :: "message_index \<Rightarrow> string \<Rightarrow> question_item list \<Rightarrow> pyobj list result" where
  "label_items messages generated_at items =
     rbind (foldM (label_item messages generated_at (vlm_set items)) (zero_counts, []) (enumerate0 items)) (\<lambda>(_, rows). Ok rows)"

definition build_tier_a_records :: "fs \<Rightarrow> path \<Rightarrow> string \<Rightarrow> pyobj list result" where
  "build_tier_a_records fs base generated_at =
     rbind (load_corpus_indexes fs base) (\<lambda>(messages, media).
     rbind (mapM (file_items fs (raw_dir base) media) (question_files fs (raw_dir base))) (\<lambda>items.
     rbind (ensure (length (concat items) = 618) (ValueError ''Expected exactly 618 Tier A questions'')) (\<lambda>_.
     rbind (label_items messages generated_at (concat items)) check_tier)))"

definition tier_a_manifest :: "pyobj list \<Rightarrow> pyobj" where
  "tier_a_manifest rows =
     [(''artifact_type'', JStr ''golden_tier_a''), (''row_count'', JInt (int (length rows))),
      (''sha256'', JStr (sha256_hex (utf8_encode (tier_content rows)))), (''author'', JStr ''codex-5.5''),
      (''labelling_model'', JStr ''antigravity''), (''provenance_ref'', JStr PROVENANCE_REF),
      (''strata_counts'', JObj (map (\<lambda>(s, _). (s, JInt (count_field ''stratum'' rows s))) target_quotas))]"

definition generate_and_freeze_tier_a :: "path \<Rightarrow> path option \<Rightarrow> (path \<times> path) io" where
  "generate_and_freeze_tier_a base output =
     (let dir = (case output of Some p \<Rightarrow> p | None \<Rightarrow> base @ [''data'', ''golden'']) in
      io_seq (io_mkdirs dir)
      (io_bind (io_check (\<lambda>fs. build_tier_a_records fs base ''2026-09-21T12:00:00+00:00'')) (\<lambda>rows.
       io_seq (io_write (dir @ [''tier_a.jsonl'']) (utf8_encode (tier_content rows)))
       (io_seq (io_write (dir @ [''tier_a_manifest.json''])
         (utf8_encode (dumps js_pretty (JObj (tier_a_manifest rows)) @ [CHR 0x0A])))
       (io_return (dir @ [''tier_a.jsonl''], dir @ [''tier_a_manifest.json'']))))))"

section \<open>The quotas are met\<close>

abbreviation others :: "string list" where
  "others \<equiv> [''visual_plus_context'', ''direct_visual'', ''long_range'', ''referential'', ''interleaved'', ''context_only'']"

lemma choose_vlm: "has_room counts ''vlm_dependent'' \<Longrightarrow> choose_stratum True item counts = ''vlm_dependent''"
  by (simp add: choose_stratum_def)

lemma choose_other:
  assumes "\<exists>s \<in> set others. has_room counts s"
  shows "choose_stratum False item counts \<in> set others \<and> has_room counts (choose_stratum False item counts)"
  using assms by (auto simp: choose_stratum_def)

text \<open>
  After some of the questions: as many rows in the first stratum as there were questions of the highest
  scores, no stratum over its quota, and the rows of a stratum numbered from one.
\<close>

definition labelled :: "nat \<Rightarrow> nat \<Rightarrow> (string, nat) dict \<Rightarrow> pyobj list \<Rightarrow> bool" where
  "labelled v u counts rows \<longleftrightarrow>
     dict_get counts ''vlm_dependent'' 0 = v \<and> sum_list (map (\<lambda>s. dict_get counts s 0) others) = u \<and>
     (\<forall>s \<in> set others. dict_get counts s 0 \<le> dict_get target_quotas s 0) \<and>
     (\<forall>row \<in> set rows. \<exists>s \<in> set (''vlm_dependent'' # others). jget row ''stratum'' = JStr s) \<and>
     (\<forall>s. map (\<lambda>r. jget r ''query_id'') (filter (\<lambda>r. jget r ''stratum'' = JStr s) rows) =
        map (\<lambda>n. JStr (query_id_text s n)) [1..<Suc (dict_get counts s 0)])"

lemma quota_sum: "sum_list (map (\<lambda>s. dict_get target_quotas s 0) others) = 539"
  by (simp add: target_quotas_def dict_get_def)

lemma tier_a_row_fields:
  "tier_a_row messages generated_at stratum seq item = Ok row \<Longrightarrow>
    jget row ''stratum'' = JStr stratum \<and> jget row ''query_id'' = JStr (query_id_text stratum seq)"
  by (auto simp: tier_a_row_def rbind_Ok_iff gold_row_fields split: if_splits)

declare dict_get_update [simp]

text \<open>A row of a stratum with its next number.\<close>

lemma labelled_rows_step:
  assumes "\<forall>s. map (\<lambda>r. jget r ''query_id'') (filter (\<lambda>r. jget r ''stratum'' = JStr s) rows) =
      map (\<lambda>n. JStr (query_id_text s n)) [1..<Suc (dict_get counts s 0)]"
    and "jget row ''stratum'' = JStr t" "jget row ''query_id'' = JStr (query_id_text t (dict_get counts t 0 + 1))"
  shows "map (\<lambda>r. jget r ''query_id'') (filter (\<lambda>r. jget r ''stratum'' = JStr s) (rows @ [row])) =
      map (\<lambda>n. JStr (query_id_text s n)) [1..<Suc (dict_get (AList.update t (dict_get counts t 0 + 1) counts) s 0)]"
  using assms by simp

lemma labelled_vlm:
  assumes "labelled v u counts rows" "v < 79" "jget row ''stratum'' = JStr ''vlm_dependent''"
    "jget row ''query_id'' = JStr (query_id_text ''vlm_dependent'' (dict_get counts ''vlm_dependent'' 0 + 1))"
  shows "labelled (Suc v) u (AList.update ''vlm_dependent'' (dict_get counts ''vlm_dependent'' 0 + 1) counts) (rows @ [row])"
  using assms labelled_rows_step [of rows counts row "''vlm_dependent''"] unfolding labelled_def by simp

lemma labelled_other:
  assumes "labelled v u counts rows" "t \<in> set others" "has_room counts t" "jget row ''stratum'' = JStr t"
    "jget row ''query_id'' = JStr (query_id_text t (dict_get counts t 0 + 1))"
  shows "labelled v (Suc u) (AList.update t (dict_get counts t 0 + 1) counts) (rows @ [row])"
proof -
  let ?c = "AList.update t (dict_get counts t 0 + 1) counts"
  have "sum_list (map (\<lambda>s. dict_get ?c s 0) others) = Suc (sum_list (map (\<lambda>s. dict_get counts s 0) others))"
    using assms(2) by auto
  moreover have "\<forall>s \<in> set others. dict_get ?c s 0 \<le> dict_get target_quotas s 0"
    using assms(1,3) unfolding labelled_def has_room_def by simp
  moreover have "t \<noteq> ''vlm_dependent''" using assms(2) by auto
  ultimately show ?thesis
    using assms labelled_rows_step [of rows counts row t] unfolding labelled_def by simp
qed

lemma labelled_step:
  assumes "labelled v u counts rows" "label_item messages generated_at vlm (counts, rows) (i, item) = Ok (counts', rows')"
    "i \<in> vlm \<Longrightarrow> v < 79" "i \<notin> vlm \<Longrightarrow> u < 539"
  shows "labelled (if i \<in> vlm then Suc v else v) (if i \<in> vlm then u else Suc u) counts' rows'"
proof -
  let ?t = "choose_stratum (i \<in> vlm) item counts"
  obtain row where row: "tier_a_row messages generated_at ?t (dict_get counts ?t 0 + 1) item = Ok row"
    "counts' = AList.update ?t (dict_get counts ?t 0 + 1) counts" "rows' = rows @ [row]"
    using assms(2) by (auto simp: label_item_def Let_def rbind_Ok_iff)
  note fields = tier_a_row_fields [OF row(1)]
  show ?thesis
  proof (cases "i \<in> vlm")
    case True
    have "has_room counts ''vlm_dependent''"
      using assms(1,3) True by (simp add: labelled_def has_room_def target_quotas_def dict_get_def)
    then have "?t = ''vlm_dependent''" using True by (simp add: choose_vlm)
    then show ?thesis using labelled_vlm [OF assms(1,3), of row] True fields row by simp
  next
    case False
    have "\<exists>s \<in> set others. has_room counts s"
    proof (rule ccontr)
      assume "\<not> (\<exists>s \<in> set others. has_room counts s)"
      then have "\<forall>s \<in> set others. dict_get target_quotas s 0 \<le> dict_get counts s 0" by (simp add: has_room_def not_less)
      then have "sum_list (map (\<lambda>s. dict_get target_quotas s 0) others) \<le> sum_list (map (\<lambda>s. dict_get counts s 0) others)"
        by (intro sum_list_mono) blast
      then show False using assms(1,4) False unfolding labelled_def quota_sum by simp
    qed
    from choose_other [OF this, of item] have "?t \<in> set others" "has_room counts ?t" using False by simp_all
    from labelled_other [OF assms(1) this, of row] show ?thesis using False fields row by simp
  qed
qed

lemma card_vlm_set: "79 \<le> length items \<Longrightarrow> card (vlm_set items) = 79 \<and> vlm_set items \<subseteq> {..<length items}"
proof -
  assume n: "79 \<le> length items"
  let ?xs = "sort_key (\<lambda>i. - int (qi_vlm_score (items ! i))) [0..<length items]"
  have "distinct ?xs" "set ?xs = {..<length items}" "length ?xs = length items" by (simp_all add: atLeast_upt)
  then have "distinct (take 79 ?xs)" "set (take 79 ?xs) \<subseteq> {..<length items}" "length (take 79 ?xs) = 79"
    using n set_take_subset [of 79 ?xs] by auto
  then show ?thesis using distinct_card [of "take 79 ?xs"] by (simp add: vlm_set_def)
qed

lemma labelled_start: "labelled 0 0 zero_counts []"
  by (auto simp: labelled_def zero_counts_def target_quotas_def dict_get_def map_of_eq_None_iff split: option.splits)

lemma labelled_prefix:
  assumes "length items = 618" "k \<le> 618"
    "foldM (label_item messages generated_at (vlm_set items)) (zero_counts, []) (take k (enumerate0 items)) = Ok (counts, rows)"
  shows "labelled (card (vlm_set items \<inter> {..<k})) (card ({..<k} - vlm_set items)) counts rows"
  using assms(2,3)
proof (induction k arbitrary: counts rows)
  case 0
  then show ?case using labelled_start by simp
next
  case (Suc k)
  let ?V = "vlm_set items"
  have vlm: "card ?V = 79" "?V \<subseteq> {..<618}" using card_vlm_set [of items] assms(1) by simp_all
  have finV: "finite ?V" by (rule finite_subset [OF vlm(2)]) simp
  have nth: "take (Suc k) (enumerate0 items) = take k (enumerate0 items) @ [(k, items ! k)]"
    using Suc.prems(1) assms(1) by (simp add: take_Suc_conv_app_nth nth_enumerate_eq)
  from Suc.prems(2) obtain c r where
    prev: "foldM (label_item messages generated_at ?V) (zero_counts, []) (take k (enumerate0 items)) = Ok (c, r)"
    and step: "label_item messages generated_at ?V (c, r) (k, items ! k) = Ok (counts, rows)"
    unfolding nth foldM_append rbind_Ok_iff by auto
  have "labelled (card (?V \<inter> {..<k})) (card ({..<k} - ?V)) c r" using Suc.IH [OF _ prev] Suc.prems(1) by simp
  note before = this
  have b1: "card (?V \<inter> {..<k}) < 79" if "k \<in> ?V"
  proof -
    have "?V \<inter> {..<k} \<subset> ?V" using that by auto
    from psubset_card_mono [OF finV this] show ?thesis by (simp add: vlm(1))
  qed
  have b2: "card ({..<k} - ?V) < 539" if k: "k \<notin> ?V"
  proof -
    have "card ({..<618} - ?V) = 618 - 79" using card_Diff_subset [OF finV vlm(2)] vlm(1) by simp
    moreover have "finite ({..<618} - ?V)" by (rule finite_Diff) (rule finite_lessThan)
    moreover have "{..<k} - ?V \<subset> {..<618} - ?V"
    proof
      show "{..<k} - ?V \<subseteq> {..<618} - ?V" using Suc.prems(1) by (intro Diff_mono) (simp_all add: lessThan_subset_iff)
      have "k \<in> {..<618} - ?V" "k \<notin> {..<k} - ?V" using k Suc.prems(1) by simp_all
      then show "{..<k} - ?V \<noteq> {..<618} - ?V" by blast
    qed
    then have "card ({..<k} - ?V) < card ({..<618} - ?V)" using psubset_card_mono calculation(2) by blast
    ultimately show ?thesis by simp
  qed
  note after = labelled_step [OF before step b1 b2]
  show ?case
  proof (cases "k \<in> ?V")
    case True
    then have "?V \<inter> {..<Suc k} = insert k (?V \<inter> {..<k})" "{..<Suc k} - ?V = {..<k} - ?V" by (auto simp: lessThan_Suc)
    then show ?thesis using after True finV by simp
  next
    case False
    then have "?V \<inter> {..<Suc k} = ?V \<inter> {..<k}" "{..<Suc k} - ?V = insert k ({..<k} - ?V)" by (auto simp: lessThan_Suc)
    then show ?thesis using after False by simp
  qed
qed

lemma labelled_full:
  assumes "labelled 79 539 counts rows" "(s, n) \<in> set target_quotas"
  shows "dict_get counts s 0 = n"
proof (cases "s = ''vlm_dependent''")
  case True
  then show ?thesis using assms by (auto simp: labelled_def target_quotas_def)
next
  case False
  have le: "\<forall>t \<in> set others. dict_get counts t 0 \<le> dict_get target_quotas t 0"
    and sum: "sum_list (map (\<lambda>t. dict_get counts t 0) others) = sum_list (map (\<lambda>t. dict_get target_quotas t 0) others)"
    using assms(1) by (auto simp only: labelled_def quota_sum)
  have "dict_get counts t 0 = dict_get target_quotas t 0" if "t \<in> set others" for t
    using le sum that by auto
  moreover have "s \<in> set others \<and> n = dict_get target_quotas s 0"
    using assms(2) False by (auto simp: target_quotas_def dict_get_def)
  ultimately show ?thesis by simp
qed

lemma label_items_labelled:
  assumes "length items = 618" "label_items messages generated_at items = Ok rows"
  obtains counts where "labelled 79 539 counts rows"
proof -
  obtain counts where "foldM (label_item messages generated_at (vlm_set items)) (zero_counts, []) (take 618 (enumerate0 items)) =
      Ok (counts, rows)"
    using assms by (auto simp: label_items_def rbind_Ok_iff)
  note l = labelled_prefix [OF assms(1) _ this]
  have V: "card (vlm_set items) = 79" "vlm_set items \<subseteq> {..<618}" using card_vlm_set [of items] assms(1) by simp_all
  then have "vlm_set items \<inter> {..<618} = vlm_set items" by blast
  moreover have "card ({..<618} - vlm_set items) = 539"
    using card_Diff_subset [OF finite_subset [OF V(2)] V(2)] V(1) by simp
  ultimately have "labelled 79 539 counts rows" using l V(1) by simp
  then show ?thesis by (rule that)
qed

lemma label_items_quotas:
  assumes "length items = 618" "label_items messages generated_at items = Ok rows" "(s, n) \<in> set target_quotas"
  shows "map (\<lambda>r. jget r ''query_id'') (filter (\<lambda>r. jget r ''stratum'' = JStr s) rows) =
    map (\<lambda>i. JStr (query_id_text s i)) [1..<Suc n]"
proof -
  obtain counts where l: "labelled 79 539 counts rows" by (rule label_items_labelled [OF assms(1,2)])
  then show ?thesis using labelled_full [OF l assms(3)] by (simp add: labelled_def)
qed

text \<open>
  C39: The greedy labelling of tier A meets its quotas: whatever 618 questions the corpus holds
  and however they are classified, the rows that are built are, in every stratum, numbered
  without gaps from one to the quota of the stratum.
\<close>

theorem tier_a_meets_quotas:
  assumes "build_tier_a_records fs base generated_at = Ok rows"
  shows "\<forall>(s, n) \<in> set target_quotas.
    map (\<lambda>r. jget r ''query_id'') (filter (\<lambda>r. jget r ''stratum'' = JStr s) rows) =
      map (\<lambda>i. JStr (query_id_text s i)) [1..<Suc n]"
proof -
  obtain messages items rows' where "length items = 618" "label_items messages generated_at items = Ok rows'" "check_tier rows' = Ok rows"
    using assms by (auto simp: build_tier_a_records_def rbind_Ok_iff ensure_Ok_iff)
  then show ?thesis using label_items_quotas check_tier_Ok by blast
qed

section \<open>A tier of one question\<close>

text \<open>The query ids of labelled rows are distinct, so that the gate has nothing to object to.\<close>

lemma query_id_head:
  assumes "list_all (\<lambda>c. \<not> is_digit c) s"
  shows "takeWhile (\<lambda>c. \<not> is_digit c) (query_id_text s n) = ''q_'' @ s @ ''_''"
proof -
  obtain d ds where d: "zero_pad 4 n = d # ds" using nat_str_nonempty [of n] by (cases "zero_pad 4 n") (simp_all add: zero_pad_def)
  have "is_digit d" using zero_pad_digits [of 4 n] d by simp
  moreover have "\<forall>c \<in> set (''q_'' @ s @ ''_''). \<not> is_digit c" using assms by (auto simp: list_all_iff is_digit_def)
  ultimately show ?thesis using takeWhile_append2 [of "''q_'' @ s @ ''_''" "\<lambda>c. \<not> is_digit c" "d # ds"]
    by (simp add: query_id_text_def d)
qed

lemma strata_no_digits: "list_all (list_all (\<lambda>c. \<not> is_digit c)) (''vlm_dependent'' # others)"
  by code_simp

lemma query_id_stratum:
  assumes "s \<in> set (''vlm_dependent'' # others)" "t \<in> set (''vlm_dependent'' # others)" "query_id_text s n = query_id_text t m"
  shows "s = t"
proof -
  have "list_all (\<lambda>c. \<not> is_digit c) s" "list_all (\<lambda>c. \<not> is_digit c) t"
    using strata_no_digits assms(1,2) unfolding list_all_iff by blast+
  from query_id_head [OF this(1), of n] query_id_head [OF this(2), of m] assms(3) show ?thesis by simp
qed

lemma query_id_inj: "query_id_text s n = query_id_text s m \<longleftrightarrow> n = m"
  by (simp add: query_id_text_def zero_pad_inj)

lemma distinct_by_class:
  assumes "\<And>s. distinct (map f (filter (\<lambda>x. g x = s) xs))" "\<And>x y. x \<in> set xs \<Longrightarrow> y \<in> set xs \<Longrightarrow> f x = f y \<Longrightarrow> g x = g y"
  shows "distinct (map f xs)"
  using assms
proof (induction xs)
  case (Cons x xs)
  have "distinct (map f (filter (\<lambda>x. g x = s) xs))" for s using Cons.prems(1) [of s] by (simp split: if_splits)
  then have "distinct (map f xs)" by (rule Cons.IH) (rule Cons.prems(2), simp_all)
  moreover have "f x \<notin> f ` set xs"
  proof
    assume "f x \<in> f ` set xs"
    then obtain y where y: "y \<in> set xs" "f x = f y" by blast
    have "g y = g x" by (rule Cons.prems(2)) (use y in simp_all)
    then have "f y \<in> f ` set (filter (\<lambda>z. g z = g x) xs)" using y(1) by simp
    moreover have "f x \<notin> f ` set (filter (\<lambda>z. g z = g x) xs)" using Cons.prems(1) [of "g x"] by simp
    ultimately show False using y(2) by simp
  qed
  ultimately show ?case by simp
qed simp

lemma labelled_distinct:
  assumes "labelled v u counts rows"
  shows "distinct (map (\<lambda>r. jget r ''query_id'') rows)"
proof (rule distinct_by_class [where g = "\<lambda>r. jget r ''stratum''"])
  have known: "\<exists>t \<in> set (''vlm_dependent'' # others). jget r ''stratum'' = JStr t" if "r \<in> set rows" for r
    using assms that unfolding labelled_def by blast
  have ids: "map (\<lambda>r. jget r ''query_id'') (filter (\<lambda>r. jget r ''stratum'' = JStr t) rows) =
      map (\<lambda>n. JStr (query_id_text t n)) [1..<Suc (dict_get counts t 0)]" for t
    using assms unfolding labelled_def by blast
  have number: "\<exists>n. jget r ''query_id'' = JStr (query_id_text t n)" if "r \<in> set rows" "jget r ''stratum'' = JStr t" for r t
  proof -
    have "jget r ''query_id'' \<in> set (map (\<lambda>r. jget r ''query_id'') (filter (\<lambda>r. jget r ''stratum'' = JStr t) rows))"
      using that by auto
    then show ?thesis unfolding ids by auto
  qed
  show "distinct (map (\<lambda>r. jget r ''query_id'') (filter (\<lambda>r. jget r ''stratum'' = s) rows))" for s
  proof (cases "\<exists>t. s = JStr t")
    case True
    then obtain t where t: "s = JStr t" by blast
    show ?thesis unfolding t ids by (simp add: distinct_map inj_on_def query_id_inj)
  next
    case False
    have "jget r ''stratum'' \<noteq> s" if "r \<in> set rows" for r using known [OF that] False by auto
    then have "filter (\<lambda>r. jget r ''stratum'' = s) rows = []" by (simp add: filter_empty_conv)
    then show ?thesis by simp
  qed
  show "jget x ''stratum'' = jget y ''stratum''"
    if xy: "x \<in> set rows" "y \<in> set rows" "jget x ''query_id'' = jget y ''query_id''" for x y
  proof -
    obtain s t where st: "s \<in> set (''vlm_dependent'' # others)" "t \<in> set (''vlm_dependent'' # others)"
      "jget x ''stratum'' = JStr s" "jget y ''stratum'' = JStr t" using known xy(1,2) by blast
    moreover obtain n m where "jget x ''query_id'' = JStr (query_id_text s n)" "jget y ''query_id'' = JStr (query_id_text t m)"
      using number xy(1,2) st(3,4) by metis
    ultimately show ?thesis using query_id_stratum xy(3) by (metis json.inject(4))
  qed
qed

text \<open>Rows of media answers with one clean query pass the checks.\<close>

definition media_answer :: "string \<Rightarrow> pyobj \<Rightarrow> bool" where
  "media_answer q row \<longleftrightarrow> (\<exists>g. row = gold_row g \<and> g_query g = q \<and> g_answer g = [] \<and> g_action g = ''return_result'' \<and>
     g_media g \<noteq> [] \<and> g_is_media g)"

lemma gold_row_contract:
  "dict_get (gold_row g) ''gold_media_ids'' d = JArr (g_media g)" "dict_get (gold_row g) ''gold_answer'' d = JStr (g_answer g)"
  "dict_get (gold_row g) ''answer_is_media'' d = JBool (g_is_media g)" "dict_get (gold_row g) ''query'' d = JStr (g_query g)"
  "jget (gold_row g) ''expected_action'' = JStr (g_action g)"
  by (simp_all add: gold_row_def gold_fields_def dict_get_def)

lemma media_answer_ok: "media_answer q row \<Longrightarrow> gold_row_ok row \<and> released_text row = q @ [CHR 0x0A]"
  by (auto simp only: media_answer_def gold_row_ok_def gold_row_contract released_text_def py_str_JStr truthy.simps Let_def if_True append_Nil2)

lemma check_media_answers:
  assumes "labelled v u counts rows" "\<forall>row \<in> set rows. media_answer q row" "pattern_hits HARD_FAIL_PATTERNS (q @ [CHR 0x0A]) = []"
  shows "check_tier rows = Ok rows"
proof -
  have str: "is_str (jget r ''query_id'') \<and> jget r ''query_id'' \<noteq> JStr []" if "r \<in> set rows" for r
    using assms(2) that by (auto simp: media_answer_def gold_row_fields query_id_text_def)
  then have "validate_gold_rows rows = Ok rows"
    using labelled_distinct [OF assms(1)] media_answer_ok assms(2) by (auto simp: validate_gold_rows_Ok list_all_iff)
  moreover have "vocabulary_violations rows = []"
    using media_answer_ok assms(2,3) by (auto simp: vocabulary_violations_def vocabulary_report_Nil)
  ultimately show ?thesis by (simp add: check_tier_def)
qed

text \<open>Labelling never fails when every question has a text, a media row and no messages.\<close>

lemma label_items_total:
  assumes "\<forall>item \<in> set items. (\<exists>t. qi_text item = JStr t \<and> clean_query_text t = q) \<and> truthy (qi_media item) \<and> hashable (qi_session item)"
  shows "\<exists>counts rows. foldM (label_item [] generated_at V) st (zip is items) = Ok (counts, rows) \<and>
    (\<forall>row \<in> set rows. row \<in> set (snd st) \<or> media_answer q row)"
  using assms
proof (induction items arbitrary: st "is")
  case Nil
  then show ?case by (cases st) simp
next
  case (Cons item items)
  show ?case
  proof (cases "is")
    case Nil
    then show ?thesis by (cases st) simp
  next
    case (Cons i js)
    obtain counts rows where st: "st = (counts, rows)" by (cases st)
    let ?t = "choose_stratum (i \<in> V) item counts"
    obtain t where t: "qi_text item = JStr t" "clean_query_text t = q" "truthy (qi_media item)" "hashable (qi_session item)"
      using Cons.prems by auto
    have none: "candidate_messages [] (qi_channel item) (qi_session item) = Ok []"
      using t(4) by (simp add: candidate_messages_def session_messages_def index_key_def dict_get_def hashable_def)
    obtain row where row: "tier_a_row [] generated_at ?t (dict_get counts ?t 0 + 1) item = Ok row" "media_answer q row"
    proof -
      have "\<exists>g. tier_a_row [] generated_at ?t (dict_get counts ?t 0 + 1) item = Ok (gold_row g) \<and> g_query g = q \<and>
          g_answer g = [] \<and> g_action g = ''return_result'' \<and> g_media g \<noteq> [] \<and> g_is_media g"
        by (simp add: tier_a_row_def str_of_def none t split del: if_split) (intro exI conjI, rule refl, simp_all add: t)
      then show ?thesis using that unfolding media_answer_def by blast
    qed
    then have step: "label_item [] generated_at V st (i, item) = Ok (AList.update ?t (dict_get counts ?t 0 + 1) counts, rows @ [row])"
      by (simp add: st label_item_def Let_def)
    from Cons.IH [of "(AList.update ?t (dict_get counts ?t 0 + 1) counts, rows @ [row])" js] Cons.prems
    obtain c r where "foldM (label_item [] generated_at V) (AList.update ?t (dict_get counts ?t 0 + 1) counts, rows @ [row])
        (zip js items) = Ok (c, r)" "\<forall>x \<in> set r. x \<in> set (rows @ [row]) \<or> media_answer q x" by auto
    then show ?thesis using step row(2) st by (auto simp: \<open>is = i # js\<close>)
  qed
qed

section \<open>A corpus of 618 questions\<close>

definition found_question :: json where
  "found_question = JObj [(''original_question_id'', JStr ''o1''), (''question'', JObj [(''image'', JStr ''1.png''), (''text'', JStr ''Find it'')])]"

definition found_media :: pyobj where
  "found_media = [(''channel_id'', JStr ''dyadic_d1''), (''media_id'', JStr ''med_1''),
     (''raw_relative_path'', JStr ''dialogue1/session0/image/1.png'')]"

definition found_index :: media_index where
  "found_index = [((JStr ''dyadic_d1'', JStr ''dialogue1/session0/image/1.png''), JStr ''med_1'')]"

definition found_place :: path where
  "found_place = [''base'', ''data'', ''raw'', ''H2HMEM'', ''dialogue1'', ''questions.json'']"

definition found_document :: pyobj where
  "found_document = [(''questions'', JArr (replicate 618 found_question))]"

definition found_files :: fs where
  "found_files = [([''base'', ''data'', ''processed'', ''media.jsonl''], File (dumps js_compact (JObj found_media))),
     (found_place, File (dumps js_compact (JObj found_document)))]"

definition found_item :: "json \<Rightarrow> question_item" where
  "found_item oid = \<lparr>qi_channel = ''dyadic_d1'', qi_session = JInt 0, qi_image = ''1.png'', qi_media = JStr ''med_1'', qi_text = JStr ''Find it'',
     qi_notes = [], qi_sub_type = JStr [], qi_vlm_score = 0, qi_orig_id = oid, qi_multi = False\<rparr>"

lemma loads_compact: "js_plain v \<Longrightarrow> loads (dumps js_compact v) = Ok v"
  using loads_dumps [of js_compact v "[]"] js_ordered_unsorted [of js_compact v] js_separators_styles(2)
  by (simp add: js_compact_def)

lemma found_lines: "optional_lines found_files [''base'', ''data'', ''processed'', ''media.jsonl''] = Ok [dumps js_compact (JObj found_media)]"
  "dumps js_compact (JObj found_media) \<noteq> []"
proof -
  show "dumps js_compact (JObj found_media) \<noteq> []" by (simp add: dumps_def bracketed_def found_media_def)
  have "utf8_decode (dumps js_compact (JObj found_media)) = Some (dumps js_compact (JObj found_media))" by code_simp
  moreover have "filter (\<lambda>line. strip line \<noteq> []) (file_lines (dumps js_compact (JObj found_media))) = [dumps js_compact (JObj found_media)]"
    by code_simp
  ultimately show "optional_lines found_files [''base'', ''data'', ''processed'', ''media.jsonl''] = Ok [dumps js_compact (JObj found_media)]"
    by (simp add: optional_lines_def found_files_def fs_exists_def fs_read_def)
qed

lemma found_indexes: "load_corpus_indexes found_files [''base''] = Ok ([], found_index)"
proof -
  have "loads (dumps js_compact (JObj found_media)) = Ok (JObj found_media)"
    by (rule loads_compact) (simp add: found_media_def)
  then have "index_media [] (dumps js_compact (JObj found_media)) = Ok found_index"
    by (simp add: index_media_def loads_object_def obj_fields_def found_media_def dict_item_def index_key_def hashable_def dict_get_def found_index_def)
  moreover have "optional_lines found_files (messages_file [''base'']) = Ok []"
    by (simp add: optional_lines_def fs_exists_def found_files_def found_place_def)
  ultimately show ?thesis using found_lines by (simp add: load_corpus_indexes_def)
qed

lemma found_question_files: "question_files found_files (raw_dir [''base'']) = [found_place]"
  by (simp add: question_files_def found_files_def found_place_def raw_dir_def strict_prefix_def)

lemma found_read: "read_document found_files found_place = Ok found_document"
proof -
  have plain: "js_plain (JObj found_document)" by (simp add: found_document_def found_question_def list_all_iff)
  have "universal_newlines (dumps js_compact (JObj found_document)) = dumps js_compact (JObj found_document)"
  proof (intro universal_newlines_id ballI)
    fix c assume "c \<in> set (dumps js_compact (JObj found_document))"
    then have "printable c" unfolding dumps_def by (rule dump_printable [OF js_inline_styles(2) plain])
    then show "c \<noteq> CHR 0x0D" by auto
  qed
  moreover have "is_ascii (dumps js_compact (JObj found_document))"
    by (rule dumps_text(1) [OF _ plain]) (auto simp: js_text_def js_compact_def js_canonical_def)
  then have "utf8_decode (dumps js_compact (JObj found_document)) = Some (dumps js_compact (JObj found_document))"
    by (metis utf8_decode_encode utf8_encode_ascii)
  moreover have "loads (dumps js_compact (JObj found_document)) = Ok (JObj found_document)"
    by (rule loads_compact) (rule plain)
  ultimately show ?thesis
    by (simp add: read_document_def fs_read_text_def fs_read_def found_files_def found_place_def obj_fields_def)
qed

lemma found_item_of: "question_item found_index ''dyadic_d1'' False (JInt 0) (i, found_question) = Ok (Some (found_item (JStr ''o1'')))"
proof -
  have "resolve_media found_index ''dyadic_d1'' (JInt 0) ''1.png'' = Ok (JStr ''med_1'')" by code_simp
  moreover have "length (rx_finditer vlm_kw ''Find it  '') = 0" by code_simp
  ultimately show ?thesis
    by (simp add: question_item_def found_question_def obj_fields_def nested_get_def dict_get_def str_of_def question_id_def found_item_def)
qed

lemma found_items: "file_items found_files (raw_dir [''base'']) found_index found_place = Ok (replicate 618 (found_item (JStr ''o1'')))"
proof -
  have "channel_of (relative_text (raw_dir [''base'']) found_place) = ''dyadic_d1''"
    "is_multiparty (relative_text (raw_dir [''base'']) found_place) = False" by code_simp+
  moreover have "session_number_of found_document = Ok (JInt 0)"
    by (simp add: session_number_of_def found_document_def dict_get_def obj_fields_def)
  moreover have "questions_of found_document = Ok (enumerate0 (replicate 618 found_question))"
    by (simp add: questions_of_def found_document_def dict_get_def py_iter_def)
  moreover have "mapM (question_item found_index ''dyadic_d1'' False (JInt 0)) (zip ks (replicate n found_question)) =
      Ok (replicate (min (length ks) n) (Some (found_item (JStr ''o1''))))" for ks n
  proof (induction n arbitrary: ks)
    case (Suc n)
    then show ?case by (cases ks) (simp_all add: found_item_of)
  qed simp
  moreover have "List.map_filter (\<lambda>x. x) (replicate n (Some y)) = replicate n y" for n and y :: question_item
    by (induction n) (simp_all add: List.map_filter_simps)
  ultimately show ?thesis
    unfolding file_items_def Let_def found_read by (simp add: enumerate_eq_zip)
qed


text \<open>Each of the questions is labelled.\<close>

theorem tier_a_meets_quotas_witness:
  "\<exists>rows. build_tier_a_records found_files [''base''] ''2026'' = Ok rows \<and>
    map (\<lambda>r. jget r ''query_id'') (filter (\<lambda>r. jget r ''stratum'' = JStr ''long_range'') rows) =
      map (\<lambda>i. JStr (query_id_text ''long_range'' i)) [1..<131]"
proof -
  let ?items = "replicate 618 (found_item (JStr ''o1''))"
  let ?q = "clean_query_text ''Find it''"
  have "\<forall>item \<in> set ?items. (\<exists>t. qi_text item = JStr t \<and> clean_query_text t = ?q) \<and> truthy (qi_media item) \<and> hashable (qi_session item)"
    by (simp add: found_item_def hashable_def)
  from label_items_total [OF this, of "''2026''" "vlm_set ?items" "(zero_counts, [])" "[0..<618]"]
  obtain counts rows where rows: "foldM (label_item [] ''2026'' (vlm_set ?items)) (zero_counts, []) (enumerate0 ?items) = Ok (counts, rows)"
    "\<forall>row \<in> set rows. media_answer ?q row" by (auto simp: enumerate_eq_zip)
  have "?q = ''Find it''" by code_simp
  then have clean: "pattern_hits HARD_FAIL_PATTERNS (?q @ [CHR 0x0A]) = []" by (simp only:) code_simp
  have labelled: "label_items [] ''2026'' ?items = Ok rows" by (simp add: label_items_def rows(1))
  moreover obtain counts' where "labelled 79 539 counts' rows" by (rule label_items_labelled [OF _ labelled]) simp
  then have "check_tier rows = Ok rows" using check_media_answers [OF _ rows(2) clean] by blast
  ultimately have built: "build_tier_a_records found_files [''base''] ''2026'' = Ok rows"
    by (simp add: build_tier_a_records_def found_indexes found_question_files found_items ensure_Ok_iff)
  have "(''long_range'', 130) \<in> set target_quotas" by (simp add: target_quotas_def)
  with tier_a_meets_quotas [OF built] have "map (\<lambda>r. jget r ''query_id'') (filter (\<lambda>r. jget r ''stratum'' = JStr ''long_range'') rows) =
      map (\<lambda>i. JStr (query_id_text ''long_range'' i)) [1..<Suc 130]" by blast
  with built show ?thesis by simp
qed

end
