(* ===== verification/Tier_B.thy ===== *)
theory Tier_B
  imports Tier_Text
begin

text \<open>
  Tier B (\<^verbatim>\<open>src/evaluation/golden/tier_b.py\<close>): refusals, conflicts, questions about the metadata of messages,
  nine fixed interleaved rows and one fixed visual row. The nested loops over channels, sessions and messages leave
  early; the theorem states which messages they choose.
\<close>

section \<open>Questions without an image\<close>

definition imageless_question :: "string \<Rightarrow> json \<Rightarrow> (string \<times> pyobj \<times> json) option result" where
  "imageless_question channel v =
     rbind (obj_fields v) (\<lambda>q.
     rbind (nested_get q ''question'' ''image'') (\<lambda>img.
     if truthy img then Ok None
     else rbind (nested_get q ''question_type'' ''sub_type'') (\<lambda>st. Ok (Some (channel, q, st)))))"

definition imageless_questions :: "fs \<Rightarrow> path \<Rightarrow> path \<Rightarrow> (string \<times> pyobj \<times> json) list result" where
  "imageless_questions fs raw qf =
     rbind (read_document fs qf) (\<lambda>data.
     rbind (questions_of data) (\<lambda>qs.
     rbind (mapM (\<lambda>(i, q). imageless_question (channel_of (relative_text raw qf)) q) qs) (\<lambda>found.
       Ok (List.map_filter (\<lambda>x. x) found))))"

definition of_sub_type :: "string \<Rightarrow> (string \<times> pyobj \<times> json) list \<Rightarrow> (string \<times> pyobj) list" where
  "of_sub_type name qs = map (\<lambda>(c, q, st). (c, q)) (filter (\<lambda>(c, q, st). st = JStr name) qs)"

text \<open>A refusal or a conflict, without evidence.\<close>

definition question_row ::
  "string \<Rightarrow> string \<Rightarrow> string list \<Rightarrow> string \<Rightarrow> nat \<times> string \<times> pyobj \<Rightarrow> pyobj result" where
  "question_row stratum action targets generated_at icq = (case icq of (i, channel, q) \<Rightarrow>
     rbind (rbind (nested_get q ''question'' ''text'') str_of) (\<lambda>txt.
       let given = (\<lambda>k. if truthy (jget q k) then [jget q k] else []) in
       Ok (gold_row
         \<lparr>g_stratum = stratum, g_number = i, g_query = clean_query_text txt, g_answer = [], g_action = action,
          g_media = [], g_evidence = [], g_targets = targets, g_clues = given ''validation_notes'', g_tier = ''tier_b'',
          g_difficulty = ''medium'', g_split = JStr ''dev'', g_group = JStr channel, g_agent = ''codex-5.5'',
          g_generated_at = generated_at, g_questions = given ''original_question_id'', g_label_result = ''passed'',
          g_rewrites = 0, g_is_media = False\<rparr>)))"

definition question_rows ::
  "string \<Rightarrow> string \<Rightarrow> string list \<Rightarrow> string \<Rightarrow> nat \<Rightarrow> (string \<times> pyobj) list \<Rightarrow> pyobj list result" where
  "question_rows stratum action targets generated_at quota qs =
     mapM (question_row stratum action targets generated_at) (List.enumerate 1 (take quota qs))"

section \<open>Questions about the metadata of a message\<close>

definition numbered_meeting :: regex where
  "numbered_meeting =
     rx_seq [WordB, rx_alt [Seq (Chr (\<lambda>c. c \<in> {CHR ''S'', CHR ''s''})) (rx_lit ''ession''), rx_lit ''meeting''],
       blanks, digits1, WordB]"

definition sentence_end :: regex where
  "sentence_end = Chr (\<lambda>c. c \<in> {CHR ''.'', CHR ''!'', CHR ''?''})"

text \<open>
  \<^verbatim>\<open>str.title()\<close>: the first letter of every run of letters is a capital, the others are not. The capital of the
  sharp s is \<^verbatim>\<open>Ss\<close>.
\<close>

fun title_from :: "bool \<Rightarrow> string \<Rightarrow> string" where
  "title_from inner [] = []"
| "title_from inner (c # cs) =
     (if inner then [to_lower c] else if code c = 223 then ''Ss'' else [to_upper c]) @ title_from (is_alpha c) cs"

definition clean_name :: "string \<Rightarrow> string" where
  "clean_name sender =
     title_from False (str_replace ''_'' '' '' (str_replace ''_apostrophe_'' [CHR 0x27] (str_replace ''sender_'' [] sender)))"

text \<open>What the question and the answer are made of; \<open>None\<close> when the message is passed over.\<close>

record grounding =
  n_name :: string
  n_date :: string
  n_sentence :: string
  n_message :: string

definition message_note :: "pyobj \<Rightarrow> grounding option result" where
  "message_note msg =
     rbind (str_item msg ''text'') (\<lambda>text.
     let txt = strip text in
     if length txt < 40 \<or> rx_search numbered_meeting txt \<noteq> None then Ok None
     else
       let first_sent = strip (hd (rx_split sentence_end txt)) in
       if length first_sent < 20 \<or> length first_sent > 120 then Ok None
       else
         rbind (str_of (dict_get msg ''sender_id'' (JStr ''Alex''))) (\<lambda>sender.
         rbind (str_of (dict_get msg ''timestamp'' (JStr ''2024-11-20''))) (\<lambda>timestamp.
         rbind (str_item msg ''message_id'') (\<lambda>mid.
           Ok (Some \<lparr>n_name = clean_name sender, n_date = take 10 timestamp, n_sentence = first_sent, n_message = mid\<rparr>)))))"

definition metadata_question :: "nat \<Rightarrow> grounding \<Rightarrow> string" where
  "metadata_question i n =
     clean_query_text
       ([''What update did '' @ n_name n @ '' share on '' @ n_date n @ ''?'',
         ''Find the message sent by '' @ n_name n @ '' on '' @ n_date n @ ''.'',
         ''Show notes from '' @ n_name n @ '' recorded on '' @ n_date n @ ''.''] ! (i mod 3))"

definition metadata_row :: "string \<Rightarrow> nat \<times> string \<times> grounding \<Rightarrow> pyobj" where
  "metadata_row generated_at icn = (case icn of (i, channel, n) \<Rightarrow>
     gold_row
       \<lparr>g_stratum = ''metadata_only'', g_number = i, g_query = metadata_question i n,
        g_answer = clean_query_text (n_name n @ '' noted: '' @ [CHR 0x22] @ n_sentence n @ [CHR 0x22] @ ''.''),
        g_action = ''return_result'', g_media = [], g_evidence = [n_message n], g_targets = [],
        g_clues = [JStr (''Grounded message metadata query for sender '' @ n_name n)], g_tier = ''tier_b'',
        g_difficulty = ''easy'', g_split = JStr ''dev'', g_group = JStr channel, g_agent = ''codex-5.5'',
        g_generated_at = generated_at, g_questions = [], g_label_result = ''passed'', g_rewrites = 0, g_is_media = False\<rparr>)"

text \<open>
  The loops, with the rows so far, which are the count of the tier, and the count of the channel. Each is left when the
  channel has three rows or the tier seventy.
\<close>

type_synonym metadata_state = "nat \<times> pyobj list"

definition enough :: "metadata_state \<Rightarrow> bool" where
  "enough st \<longleftrightarrow> fst st \<ge> 3 \<or> length (snd st) \<ge> 70"

fun scan_messages :: "string \<Rightarrow> string \<Rightarrow> metadata_state \<Rightarrow> pyobj list \<Rightarrow> metadata_state result" where
  "scan_messages generated_at channel st [] = Ok st"
| "scan_messages generated_at channel (k, rows) (msg # msgs) =
     rbind (message_note msg) (\<lambda>found.
       case found of
         None \<Rightarrow> scan_messages generated_at channel (k, rows) msgs
       | Some n \<Rightarrow>
           let st = (k + 1, rows @ [metadata_row generated_at (length rows + 1, channel, n)]) in
           if enough st then Ok st else scan_messages generated_at channel st msgs)"

fun scan_sessions ::
  "message_index \<Rightarrow> string \<Rightarrow> string \<Rightarrow> metadata_state \<Rightarrow> nat list \<Rightarrow> metadata_state result" where
  "scan_sessions messages generated_at channel st [] = Ok st"
| "scan_sessions messages generated_at channel st (s # ss) =
     rbind (session_messages messages channel (JInt (int s))) (\<lambda>msgs.
     rbind (scan_messages generated_at channel st msgs) (\<lambda>st.
       if enough st then Ok st else scan_sessions messages generated_at channel st ss))"

fun scan_channels :: "message_index \<Rightarrow> string \<Rightarrow> pyobj list \<Rightarrow> string list \<Rightarrow> pyobj list result" where
  "scan_channels messages generated_at rows [] = Ok rows"
| "scan_channels messages generated_at rows (channel # channels) =
     rbind (scan_sessions messages generated_at channel (0, rows) [1..<15]) (\<lambda>(_, rows).
       if length rows \<ge> 70 then Ok rows else scan_channels messages generated_at rows channels)"

definition index_channels :: "message_index \<Rightarrow> string list result" where
  "index_channels messages = rbind (mapM (\<lambda>((c, s), _). str_of c) messages) (\<lambda>cs. Ok (sort (remdups cs)))"

definition metadata_rows :: "message_index \<Rightarrow> string \<Rightarrow> pyobj list result" where
  "metadata_rows messages generated_at =
     rbind (index_channels messages) (scan_channels messages generated_at [])"

section \<open>The fixed rows\<close>

definition grounded_interleaved_cases :: "(string \<times> string \<times> string \<times> string list \<times> string) list" where
  "grounded_interleaved_cases =
     [
      (''multiparty_d4'', ''What classic designer piece did Chloe identify when Nina asked for opinions on a coat?'',
       ''Chloe identified it as a classic piece from MaxMara selling for over 5000 on the official website.'',
       [''multiparty_d4:session1:0'', ''multiparty_d4:session1:1''], ''Active event: Nina product comparison discussion''),
      (''multiparty_d5'', (''What concern was raised regarding whether Xiaobai'' @ [CHR 0x27] @ ''s old box is still usable?''),
       (''Vicky noted that the crack on Xiaobai'' @ [CHR 0x27] @ ''s box looks serious and doubted if it can hold up.''),
       [''multiparty_d5:session2:0'', ''multiparty_d5:session2:1''], ''Active event: Xiaobai box usability debate''),
      (''multiparty_d5'', ''What suitcase recommendation did Vicky make for durable travel equipment?'',
       ''Vicky recommended buying a better aluminum case that is sturdy and good-looking.'',
       [''multiparty_d5:session2:3'', ''multiparty_d5:session2:4''], ''Active event: Luggage equipment choice''),
      (''multiparty_d5'', ''Why was Vicky frustrated with her boss during the late night conversation?'',
       ''Vicky had enough of her boss sending work requests at 3 a.m. in the middle of the night.'',
       [''multiparty_d5:session4:17'', ''multiparty_d5:session4:50''], ''Active event: Vicky overtime pressure and boss demands''),
      (''multiparty_d5'', ''What missing personal item did Xiaobai ask the group to help search for?'',
       ''Xiaobai asked for help finding the other glove.'',
       [''multiparty_d5:session5:31'', ''multiparty_d5:session5:33''], ''Active event: Xiaobai lost glove inquiry''),
      (''multiparty_d4'', ''What delivery damage did Una report regarding her picture frame?'',
       ''Una reported that the glass in her picture frame broke during logistics delivery.'',
       [''multiparty_d4:session4:22'', ''multiparty_d4:session4:73''], ''Active event: Broken picture frame logistics issue''),
      (''multiparty_d2'', ''What technical replay dispute occurred between Xiao Pi and Ricky during the match?'',
       ''They disputed whether the VAR lines proved the play was not offside.'',
       [''multiparty_d2:session4:6'', ''multiparty_d2:session4:20''], ''Active event: VAR offside line controversy''),
      (''multiparty_d4'', ''What width measurement did Una record before renovating the cluttered corner?'',
       ''Una measured the corner with a tape measure and found it was 80 centimeters wide.'',
       [''multiparty_d4:session3:6'', ''multiparty_d4:session3:15''], ''Active event: Space planning corner dimensions''),
      (''multiparty_d2'', ''What sports equipment did Liu Cixin ask the group to examine regarding wear?'',
       ''Liu Cixin asked everyone to examine old running shoes for wear.'',
       [''multiparty_d2:session2:0''], ''Active event: Running shoe wear inspection'')]"

definition interleaved_row :: "string \<Rightarrow> nat \<times> string \<times> string \<times> string \<times> string list \<times> string \<Rightarrow> pyobj" where
  "interleaved_row generated_at item = (case item of (i, channel, q_text, a_text, evidence, clue) \<Rightarrow>
     gold_row
       \<lparr>g_stratum = ''interleaved'', g_number = 52 + i, g_query = clean_query_text q_text,
        g_answer = clean_query_text a_text, g_action = ''return_result'', g_media = [], g_evidence = evidence,
        g_targets = [], g_clues = [JStr clue], g_tier = ''tier_b'', g_difficulty = ''medium'', g_split = JStr ''dev'',
        g_group = JStr channel, g_agent = ''codex-5.5'', g_generated_at = generated_at, g_questions = [],
        g_label_result = ''passed'', g_rewrites = 0, g_is_media = False\<rparr>)"

definition visual_row :: "string \<Rightarrow> pyobj" where
  "visual_row generated_at =
     gold_row
       \<lparr>g_stratum = ''direct_visual'', g_number = 100,
        g_query = clean_query_text ''Find the picture showing a Venn diagram describing emotional states'',
        g_answer = [], g_action = ''return_result'', g_media = [JStr ''dyadic_d10:session6:7:2.png''],
        g_evidence = [''dyadic_d10:session6:7''], g_targets = [],
        g_clues = [JStr ''Direct visual lookup of emotional states Venn diagram''], g_tier = ''tier_b'',
        g_difficulty = ''easy'', g_split = JStr ''dev'', g_group = JStr ''dyadic_d10'', g_agent = ''codex-5.5'',
        g_generated_at = generated_at, g_questions = [], g_label_result = ''passed'', g_rewrites = 0, g_is_media = True\<rparr>"

section \<open>The tier\<close>

definition tier_b_rows ::
  "message_index \<Rightarrow> (string \<times> pyobj \<times> json) list \<Rightarrow> string \<Rightarrow> pyobj list result" where
  "tier_b_rows messages found generated_at =
     rbind (question_rows ''unanswerable'' ''no_result'' [] generated_at 70 (of_sub_type ''Answer Refusal'' found)) (\<lambda>refusals.
     rbind (question_rows ''ambiguous_clarification'' ''clarify'' [''clarify_interpretation_a'', ''clarify_interpretation_b'']
       generated_at 60 (of_sub_type ''Conflict Detection'' found)) (\<lambda>conflicts.
     rbind (metadata_rows messages generated_at) (\<lambda>notes.
     let rows = refusals @ conflicts @ notes @ map (interleaved_row generated_at) (enumerate0 grounded_interleaved_cases) @
       [visual_row generated_at] in
     rbind (ensure (length rows = 210) (ValueError ''Expected 210 Tier B rows'')) (\<lambda>_. check_tier rows))))"

definition build_tier_b_records :: "fs \<Rightarrow> path \<Rightarrow> string \<Rightarrow> pyobj list result" where
  "build_tier_b_records fs base generated_at =
     rbind (load_corpus_indexes fs base) (\<lambda>(messages, _).
     rbind (mapM (imageless_questions fs (raw_dir base)) (question_files fs (raw_dir base))) (\<lambda>found.
       tier_b_rows messages (concat found) generated_at))"

definition tier_b_manifest :: "pyobj list \<Rightarrow> pyobj" where
  "tier_b_manifest rows =
     [(''artifact_type'', JStr ''golden_tier_b''), (''row_count'', JInt (int (length rows))),
      (''sha256'', JStr (sha256_hex (utf8_encode (tier_content rows)))), (''author'', JStr ''codex-5.5''),
      (''labelling_model'', JStr ''antigravity''), (''provenance_ref'', JStr PROVENANCE_REF),
      (''strata_counts'', JObj (map (\<lambda>s. (s, JInt (count_field ''stratum'' rows s)))
         [''unanswerable'', ''ambiguous_clarification'', ''metadata_only'', ''interleaved'', ''direct_visual'']))]"

definition generate_and_freeze_tier_b :: "path \<Rightarrow> path option \<Rightarrow> (path \<times> path) io" where
  "generate_and_freeze_tier_b base output =
     (let dir = (case output of Some p \<Rightarrow> p | None \<Rightarrow> base @ [''data'', ''golden'']) in
      io_seq (io_mkdirs dir)
      (io_bind (io_check (\<lambda>fs. build_tier_b_records fs base ''2026-09-21T12:00:00+00:00'')) (\<lambda>rows.
       io_seq (io_write (dir @ [''tier_b.jsonl'']) (utf8_encode (tier_content rows)))
       (io_seq (io_write (dir @ [''tier_b_manifest.json''])
         (utf8_encode (dumps js_pretty (JObj (tier_b_manifest rows)) @ [CHR 0x0A])))
       (io_return (dir @ [''tier_b.jsonl''], dir @ [''tier_b_manifest.json'']))))))"

section \<open>Which messages the loops choose\<close>

text \<open>The messages of a session, and what those that are not passed over give.\<close>

definition messages_of :: "message_index \<Rightarrow> string \<Rightarrow> nat \<Rightarrow> pyobj list" where
  "messages_of messages channel s = dict_get messages (JStr channel, JFloat (of_nat s)) []"

definition notes_in :: "pyobj list \<Rightarrow> grounding list" where
  "notes_in = List.map_filter (\<lambda>msg. case message_note msg of Ok found \<Rightarrow> found | Raise _ \<Rightarrow> None)"

definition channel_notes :: "message_index \<Rightarrow> string \<Rightarrow> grounding list" where
  "channel_notes messages channel = notes_in (concat (map (messages_of messages channel) [1..<15]))"

definition rows_from :: "string \<Rightarrow> nat \<Rightarrow> (string \<times> grounding) list \<Rightarrow> pyobj list" where
  "rows_from generated_at i cns = map (metadata_row generated_at) (List.enumerate i cns)"

lemma session_messages_of: "session_messages messages channel (JInt (int s)) = Ok (messages_of messages channel s)"
  by (simp add: session_messages_def index_key_def hashable_def messages_of_def)

lemma notes_simps [simp]:
  "notes_in [] = []"
  "message_note msg = Ok None \<Longrightarrow> notes_in (msg # msgs) = notes_in msgs"
  "message_note msg = Ok (Some n) \<Longrightarrow> notes_in (msg # msgs) = n # notes_in msgs"
  "notes_in (xs @ ys) = notes_in xs @ notes_in ys"
  by (simp_all add: notes_in_def List.map_filter_simps List.map_filter_def)

lemma rows_from_append: "rows_from g i (xs @ ys) = rows_from g i xs @ rows_from g (i + length xs) ys"
  by (simp add: rows_from_def enumerate_append_eq)

lemma rows_from_simps [simp]:
  "rows_from g i [] = []" "rows_from g i ((c, n) # cns) = metadata_row g (i, c, n) # rows_from g (Suc i) cns"
  "length (rows_from g i cns) = length cns"
  by (simp_all add: rows_from_def)

text \<open>The room that is left for a channel.\<close>

definition room :: "metadata_state \<Rightarrow> nat" where
  "room st = min (3 - fst st) (70 - length (snd st))"

lemma enough_room: "enough st \<longleftrightarrow> room st = 0"
  by (auto simp: enough_def room_def min_def)

text \<open>The state after some more rows of a channel.\<close>

definition extend :: "string \<Rightarrow> string \<Rightarrow> metadata_state \<Rightarrow> grounding list \<Rightarrow> metadata_state" where
  "extend g channel st ns = (fst st + length ns, snd st @ rows_from g (length (snd st) + 1) (map (Pair channel) ns))"

lemma extend_simps [simp]:
  "extend g channel st [] = st"
  "extend g channel (extend g channel st ns) ms = extend g channel st (ns @ ms)"
  "room (extend g channel st ns) = room st - length ns"
  by (auto simp: extend_def rows_from_append room_def min_def)

lemma scan_messages_chosen:
  "\<not> enough st \<Longrightarrow> scan_messages g channel st msgs = Ok st' \<Longrightarrow> st' = extend g channel st (take (room st) (notes_in msgs))"
proof (induction msgs arbitrary: st)
  case (Cons msg msgs)
  obtain k rows where st: "st = (k, rows)" by (cases st)
  from Cons.prems(2) obtain found where found: "message_note msg = Ok found" by (auto simp: st rbind_Ok_iff)
  show ?case
  proof (cases found)
    case None
    then show ?thesis using Cons found by (simp add: st)
  next
    case (Some n)
    let ?st = "extend g channel st [n]"
    have eq: "scan_messages g channel st (msg # msgs) = (if enough ?st then Ok ?st else scan_messages g channel ?st msgs)"
      unfolding st by (simp add: found Some Let_def extend_def)
    obtain r where m: "room st = Suc r" using Cons.prems(1) by (cases "room st") (simp_all add: enough_room)
    have ns: "notes_in (msg # msgs) = n # notes_in msgs" using found Some by simp
    show ?thesis
    proof (cases "enough ?st")
      case True
      then show ?thesis using Cons.prems(2) eq m ns by (simp add: enough_room)
    next
      case False
      then have "scan_messages g channel ?st msgs = Ok st'" using Cons.prems(2) eq by simp
      from Cons.IH [OF False this] show ?thesis by (simp add: m ns)
    qed
  qed
qed simp

lemma scan_sessions_chosen:
  "\<not> enough st \<Longrightarrow> scan_sessions messages g channel st ss = Ok st' \<Longrightarrow>
    st' = extend g channel st (take (room st) (notes_in (concat (map (messages_of messages channel) ss))))"
proof (induction ss arbitrary: st)
  case (Cons s ss)
  let ?ns = "notes_in (messages_of messages channel s)"
  from Cons.prems(2) obtain st1 where st1: "scan_messages g channel st (messages_of messages channel s) = Ok st1"
    "(if enough st1 then Ok st1 else scan_sessions messages g channel st1 ss) = Ok st'"
    by (auto simp: session_messages_of rbind_Ok_iff)
  note chosen = scan_messages_chosen [OF Cons.prems(1) st1(1)]
  show ?case
  proof (cases "enough st1")
    case True
    then have "room st \<le> length ?ns" by (simp add: enough_room chosen)
    then show ?thesis using st1(2) True chosen by simp
  next
    case False
    then have m: "length ?ns < room st" by (simp add: enough_room chosen)
    from Cons.IH [OF False] st1(2) False
    have "st' = extend g channel st1 (take (room st1) (notes_in (concat (map (messages_of messages channel) ss))))" by simp
    then show ?thesis using m chosen by simp
  qed
qed simp

lemma scan_channels_chosen:
  "length rows < 70 \<Longrightarrow> scan_channels messages g rows channels = Ok rows' \<Longrightarrow>
    rows' = rows @ rows_from g (length rows + 1) (take (70 - length rows)
      (concat (map (\<lambda>c. map (Pair c) (take 3 (channel_notes messages c))) channels)))"
proof (induction channels arbitrary: rows)
  case (Cons channel channels)
  let ?ns = "take 3 (channel_notes messages channel)"
  have n: "\<not> enough (0, rows)" using Cons.prems(1) by (simp add: enough_def)
  from Cons.prems(2) have "rbind (scan_sessions messages g channel (0, rows) [1..<15]) (\<lambda>(_, rows).
      if length rows \<ge> 70 then Ok rows else scan_channels messages g rows channels) = Ok rows'" by simp
  then obtain st where st: "scan_sessions messages g channel (0, rows) [1..<15] = Ok st"
    "(if length (snd st) \<ge> 70 then Ok (snd st) else scan_channels messages g (snd st) channels) = Ok rows'"
    unfolding rbind_Ok_iff case_prod_beta' by blast
  have rows1: "snd st = rows @ rows_from g (length rows + 1) (map (Pair channel) (take (70 - length rows) ?ns))"
    using scan_sessions_chosen [OF n st(1)] by (simp add: extend_def channel_notes_def room_def min.commute)
  show ?case
  proof (cases "length (snd st) \<ge> 70")
    case True
    then have "70 - length rows \<le> length ?ns" by (simp add: rows1 min_def split: if_splits)
    moreover from this have "70 - (length rows + min (length (channel_notes messages channel)) 3) = 0" by (simp add: min_def)
    ultimately show ?thesis using st(2) True rows1 by (simp add: take_map)
  next
    case False
    then have m: "length ?ns < 70 - length rows" by (simp add: rows1 min_def split: if_splits)
    from Cons.IH [of "snd st"] st(2) False
    have "rows' = snd st @ rows_from g (length (snd st) + 1) (take (70 - length (snd st))
      (concat (map (\<lambda>c. map (Pair c) (take 3 (channel_notes messages c))) channels)))" by simp
    moreover have "snd st = rows @ rows_from g (length rows + 1) (map (Pair channel) ?ns)"
      using rows1 m by (simp only: take_all less_imp_le)
    ultimately show ?thesis using m by (simp add: rows_from_append)
  qed
qed simp

lemma metadata_chosen:
  assumes "metadata_rows messages generated_at = Ok rows"
  obtains channels where "index_channels messages = Ok channels"
    "rows = rows_from generated_at 1 (take 70 (concat (map (\<lambda>c. map (Pair c) (take 3 (channel_notes messages c))) channels)))"
proof -
  obtain channels where "index_channels messages = Ok channels" "scan_channels messages generated_at [] channels = Ok rows"
    using assms by (auto simp: metadata_rows_def rbind_Ok_iff)
  with scan_channels_chosen [of "[]" messages generated_at channels rows] that show ?thesis by simp
qed

text \<open>
  C40: The loops over channels, sessions and messages of tier B, which are left as soon as a
  channel has three rows or the tier seventy, choose the first seventy of the first three
  messages of every channel, in the order of the channels, that are long enough, name no
  numbered meeting and have a first sentence of fitting length in the sessions 1 to 14, and
  number them from one.
\<close>

theorem metadata_rows_chosen:
  assumes "metadata_rows messages generated_at = Ok rows"
  shows "\<exists>channels. index_channels messages = Ok channels \<and>
    rows = map (metadata_row generated_at) (List.enumerate 1
      (take 70 (concat (map (\<lambda>c. map (Pair c) (take 3 (channel_notes messages c))) channels))))"
  using metadata_chosen [OF assms] by (metis rows_from_def)

text \<open>The loops raise only what a message raises.\<close>

lemma scan_messages_total:
  "list_all (\<lambda>msg. is_ok (message_note msg)) msgs \<Longrightarrow> \<exists>st'. scan_messages g channel st msgs = Ok st'"
proof (induction msgs arbitrary: st)
  case (Cons msg msgs)
  obtain k rows where st: "st = (k, rows)" by (cases st)
  obtain found where "message_note msg = Ok found" using Cons.prems by (auto simp: is_ok_iff)
  then show ?case using Cons by (cases found) (auto simp: st Let_def)
qed simp

lemma scan_sessions_total:
  "list_all (\<lambda>s. list_all (\<lambda>msg. is_ok (message_note msg)) (messages_of messages channel s)) ss \<Longrightarrow>
    \<exists>st'. scan_sessions messages g channel st ss = Ok st'"
proof (induction ss arbitrary: st)
  case (Cons s ss)
  obtain st1 where "scan_messages g channel st (messages_of messages channel s) = Ok st1"
    using scan_messages_total [of "messages_of messages channel s" g channel st] Cons.prems by auto
  then show ?case using Cons by (simp add: session_messages_of)
qed simp

lemma scan_channels_total:
  "list_all (\<lambda>(_, msgs). list_all (\<lambda>msg. is_ok (message_note msg)) msgs) messages \<Longrightarrow>
    \<exists>rows'. scan_channels messages g rows channels = Ok rows'"
proof (induction channels arbitrary: rows)
  case (Cons channel channels)
  have "list_all (\<lambda>msg. is_ok (message_note msg)) (messages_of messages channel s)" for s
  proof (cases "map_of messages (JStr channel, JFloat (of_nat s))")
    case (Some msgs)
    from map_of_SomeD [OF this] Cons.prems show ?thesis using Some by (auto simp: list_all_iff messages_of_def dict_get_def)
  qed (simp add: messages_of_def dict_get_def)
  then have "list_all (\<lambda>s. list_all (\<lambda>msg. is_ok (message_note msg)) (messages_of messages channel s)) [1..<15]" by (simp only: list_all_iff) blast
  from scan_sessions_total [OF this] obtain st where "scan_sessions messages g channel (0, rows) [1..<15] = Ok st" by blast
  then show ?case using Cons.IH [OF Cons.prems, of "snd st"] by (cases st) simp
qed simp

section \<open>The quotas of the tier\<close>

lemma map_eq_list_all2: "list_all2 (\<lambda>x y. f y = h x) xs ys \<Longrightarrow> map f ys = map h xs"
  by (induction rule: list_all2_induct) simp_all

lemma question_rows_ids:
  assumes "question_rows stratum action targets g quota qs = Ok rows"
  shows "map (\<lambda>r. jget r ''query_id'') rows = map (\<lambda>i. JStr (query_id_text stratum i)) [1..<Suc (length rows)]" "length rows \<le> quota"
proof -
  let ?qs = "List.enumerate 1 (take quota qs)"
  have rows: "list_all2 (\<lambda>q r. question_row stratum action targets g q = Ok r) ?qs rows"
    using assms by (simp add: question_rows_def mapM_Ok_iff)
  have n: "length ?qs = length rows" using list_all2_lengthD [OF rows] .
  then show "length rows \<le> quota" by simp
  have "list_all2 (\<lambda>q r. jget r ''query_id'' = JStr (query_id_text stratum (fst q))) ?qs rows"
    by (rule list_all2_mono [OF rows]) (auto simp: question_row_def Let_def rbind_Ok_iff gold_row_fields)
  then have "map (\<lambda>r. jget r ''query_id'') rows = map (\<lambda>q. JStr (query_id_text stratum (fst q))) ?qs"
    by (rule map_eq_list_all2)
  also have "\<dots> = map (\<lambda>i. JStr (query_id_text stratum i)) (map fst ?qs)" by (simp only: map_map o_def)
  also have "map fst ?qs = [1..<Suc (length rows)]" using n by (simp del: upt_Suc)
  finally show "map (\<lambda>r. jget r ''query_id'') rows = map (\<lambda>i. JStr (query_id_text stratum i)) [1..<Suc (length rows)]" .
qed

lemma metadata_row_id: "jget (metadata_row g icn) ''query_id'' = JStr (query_id_text ''metadata_only'' (fst icn))"
  by (cases icn) (simp add: metadata_row_def gold_row_fields)

lemma metadata_rows_ids:
  assumes "metadata_rows messages g = Ok rows"
  shows "map (\<lambda>r. jget r ''query_id'') rows = map (\<lambda>i. JStr (query_id_text ''metadata_only'' i)) [1..<Suc (length rows)]" "length rows \<le> 70"
proof -
  obtain channels where rows: "rows = rows_from g 1 (take 70 (concat (map (\<lambda>c. map (Pair c) (take 3 (channel_notes messages c))) channels)))"
    using metadata_chosen [OF assms] by blast
  then show "length rows \<le> 70" by simp
  have "map (\<lambda>r. jget r ''query_id'') (rows_from g 1 cns) = map (\<lambda>i. JStr (query_id_text ''metadata_only'' i)) (map fst (List.enumerate 1 cns))" for cns
    by (simp only: rows_from_def map_map o_def metadata_row_id)
  then show "map (\<lambda>r. jget r ''query_id'') rows = map (\<lambda>i. JStr (query_id_text ''metadata_only'' i)) [1..<Suc (length rows)]"
    using rows by (simp del: upt_Suc)
qed

text \<open>A tier that is built is full: every stratum has its quota, numbered from where tier A leaves it.\<close>

theorem tier_b_meets_quotas:
  assumes "tier_b_rows messages found g = Ok rows"
  shows "map (\<lambda>r. jget r ''query_id'') rows =
    map (\<lambda>(s, i). JStr (query_id_text s i))
      (map (Pair ''unanswerable'') [1..<71] @ map (Pair ''ambiguous_clarification'') [1..<61] @
       map (Pair ''metadata_only'') [1..<71] @ map (Pair ''interleaved'') [52..<61] @ [(''direct_visual'', 100)])"
proof -
  let ?ids = "map (\<lambda>r. jget r ''query_id'')"
  let ?fixed = "map (interleaved_row g) (enumerate0 grounded_interleaved_cases) @ [visual_row g]"
  from assms obtain r c m where parts:
    "question_rows ''unanswerable'' ''no_result'' [] g 70 (of_sub_type ''Answer Refusal'' found) = Ok r"
    "question_rows ''ambiguous_clarification'' ''clarify'' [''clarify_interpretation_a'', ''clarify_interpretation_b''] g 60
      (of_sub_type ''Conflict Detection'' found) = Ok c"
    "metadata_rows messages g = Ok m" "rows = r @ c @ m @ ?fixed" "length (r @ c @ m @ ?fixed) = 210"
    by (auto simp: tier_b_rows_def Let_def rbind_Ok_iff ensure_Ok_iff dest!: check_tier_Ok)
  have ten: "length ?fixed = 10" by (simp add: grounded_interleaved_cases_def)
  note ids = question_rows_ids [OF parts(1)] question_rows_ids [OF parts(2)] metadata_rows_ids [OF parts(3)]
  have n: "length r = 70" "length c = 60" "length m = 70" using ids(2,4,6) parts(5) ten by simp_all
  have "?ids ?fixed = map (\<lambda>(s, i). JStr (query_id_text s i)) (map (Pair ''interleaved'') [52..<61] @ [(''direct_visual'', 100)])"
    by (simp add: grounded_interleaved_cases_def interleaved_row_def visual_row_def gold_row_fields upt_rec)
  moreover have "?ids rows = ?ids r @ ?ids c @ ?ids m @ ?ids ?fixed" by (simp add: parts(4))
  ultimately show ?thesis using ids(1,3,5) unfolding n by (simp add: comp_def del: upt_Suc)
qed

definition long_message :: "string \<Rightarrow> string \<Rightarrow> pyobj" where
  "long_message mid text = [(''message_id'', JStr mid), (''sender_id'', JStr ''sender_o_apostrophe_neil''),
     (''text'', JStr text), (''timestamp'', JStr ''2024-11-20T09:00:00+07:00'')]"

definition long_messages :: message_index where
  "long_messages =
     [((JStr ''dyadic_d1'', JFloat 1), [long_message ''m1'' ''We met the new designer of the coat today. Nice!'', long_message ''m2'' ''Too short'']),
      ((JStr ''dyadic_d1'', JFloat 3), [long_message ''m3'' ''The old box has a crack on its side, so I bought a new one'',
         long_message ''m4'' ''The boss sends requests in the middle of the night again'', long_message ''m5'' ''The glass of the frame broke during the delivery'']),
      ((JStr ''dyadic_d1'', JFloat 20), [long_message ''m6'' ''Nobody looks for a message in the session with number twenty''])]"

lemma long_notes: "map n_message (take 3 (channel_notes long_messages ''dyadic_d1'')) = [''m1'', ''m3'', ''m4'']"
  "list_all (\<lambda>msg. is_ok (message_note msg)) (concat (map snd long_messages))"
  by code_simp+

lemma long_name: "clean_name ''sender_o_apostrophe_neil'' = [CHR ''O'', CHR 0x27, CHR ''N'', CHR ''e'', CHR ''i'', CHR ''l'']"
  by code_simp

theorem metadata_rows_chosen_witness:
  "\<exists>rows. metadata_rows long_messages ''2026'' = Ok rows \<and>
    map (\<lambda>r. jget r ''gold_evidence_message_ids'') rows = [JArr [JStr ''m1''], JArr [JStr ''m3''], JArr [JStr ''m4'']]"
proof -
  have "list_all (\<lambda>(_, msgs). list_all (\<lambda>msg. is_ok (message_note msg)) msgs) long_messages"
    using long_notes(2) by (simp add: long_messages_def)
  moreover have channels: "index_channels long_messages = Ok [''dyadic_d1'']"
    by (simp add: index_channels_def long_messages_def str_of_def)
  ultimately obtain rows where rows: "metadata_rows long_messages ''2026'' = Ok rows"
    using scan_channels_total [of long_messages "''2026''" "[]" "[''dyadic_d1'']"] by (auto simp: metadata_rows_def)
  from metadata_rows_chosen [OF this] channels
  have "rows = map (metadata_row ''2026'') (List.enumerate 1 (map (Pair ''dyadic_d1'') (take 3 (channel_notes long_messages ''dyadic_d1''))))"
    by simp
  moreover obtain a b c where "take 3 (channel_notes long_messages ''dyadic_d1'') = [a, b, c]" "n_message a = ''m1''" "n_message b = ''m3''"
    "n_message c = ''m4''" using long_notes(1) by (auto simp: map_eq_Cons_conv)
  ultimately show ?thesis using rows by (simp add: metadata_row_def gold_row_fields)
qed

end
