(* ===== verification/Tier_C.thy ===== *)
theory Tier_C
  imports Tier_Text Py_Float Release_Generate
begin

text \<open>
  Tier C (\<^verbatim>\<open>src/evaluation/golden/tier_c.py\<close>): curated multi-hop rows with their reviews, and questions
  whose answers are grounded in the messages of their channel, with the review records and the files of the tier.
\<close>

section \<open>What is rejected\<close>

definition whole_words :: "regex list \<Rightarrow> regex" where
  "whole_words rs = rx_seq [WordB, rx_alt rs, WordB]"

definition plural_image :: "string \<Rightarrow> string \<Rightarrow> regex" where
  "plural_image before after = rx_seq [rx_words before, rx_opt (rx_words ''s''), rx_words after]"

definition META_PREAMBLE_REJECT :: regex where
  "META_PREAMBLE_REJECT = whole_words
     [rx_words ''based on'', rx_words ''according to'', rx_words ''earlier discussion'',
      rx_seq [rx_words ''in '', phrases [''the'', ''this'', ''a''], rx_words '' conversation''],
      rx_seq [rx_words ''in '', phrases [''the'', ''this'', ''a''], rx_words '' dialogue''],
      Seq (rx_words ''conversation'') (rx_opt (rx_words ''s'')),
      plural_image ''how are the image'' [], plural_image ''how is the image'' [],
      plural_image ''does the image'' '' correspond'',
      rx_seq [rx_words ''correspond'', rx_opt (rx_words ''s''), plural_image '' to the image'' []],
      rx_words ''what conclusion did'', rx_words ''problematic'',
      rx_seq [rx_words ''question'', rx_opt (rx_words [CHR 0x27]), rx_opt (rx_words ''s''), blanks1,
        phrases [''picture'', ''image'', ''photo'']],
      rx_words ''which picture'', rx_words ''which photo'', rx_words ''which image'',
      rx_words ''sent the image'', rx_words ''the image sent'', rx_words ''newly learned'', rx_words ''session number'',
      rx_words ''image file name'', rx_words ''chronological'', rx_words ''arrange the'',
      rx_seq [rx_words ''referred to '', phrases [''and'', ''or''], rx_words '' cited''], rx_words ''referred to'',
      rx_words ''referenced'']"

definition NEGATIVE_ANSWER_REJECT :: regex where
  "NEGATIVE_ANSWER_REJECT = whole_words (map rx_words
     [''not mentioned'', ''not specified'', ''not stated'', ''unmentioned'', ''not clear'', ''cannot be determined'',
      ''no mention'', ''none'', ''n/a'', ''false'', ''unknown''])"

definition AC14_VOCABULARY_REJECT :: regex where
  "AC14_VOCABULARY_REJECT = whole_words
     [rx_seq [rx_words ''session'', blanks, digits1], rx_seq [rx_words ''meeting'', blanks, digits1],
      Seq (rx_words ''photo_'') digits1, Seq (rx_words ''section_'') digits1,
      rx_seq [digits1, rx_lit ''.'', image_suffix]]"

abbreviation occurs :: "regex \<Rightarrow> string \<Rightarrow> bool" where
  "occurs r s \<equiv> rx_search r s \<noteq> None"

definition negative_answer :: "string \<Rightarrow> bool" where
  "negative_answer raw_answer \<longleftrightarrow>
     occurs NEGATIVE_ANSWER_REJECT raw_answer \<or>
     str_lower raw_answer \<in> {''no'', ''yes'', ''none'', ''n/a'', ''false'', ''true'', []}"

definition word :: "string \<Rightarrow> regex" where
  "word w = rx_seq [WordB, rx_words w, WordB]"

definition rejected :: "string \<Rightarrow> string \<Rightarrow> bool" where
  "rejected raw_text raw_answer \<longleftrightarrow>
     occurs META_PREAMBLE_REJECT raw_text \<or> occurs META_PREAMBLE_REJECT raw_answer \<or>
     occurs AC14_VOCABULARY_REJECT raw_text \<or> occurs AC14_VOCABULARY_REJECT raw_answer \<or>
     occurs (word ''almond'') raw_text \<or> occurs (word ''almond'') raw_answer \<or>
     (occurs (word ''purchased'') raw_text \<and> occurs (word ''collar'') raw_text) \<or>
     contains (str_lower raw_answer) ''shu xiang affection''"

section \<open>Grounding an answer\<close>

definition stopwords :: "string list" where
  "stopwords =
     [''the'', ''a'', ''an'', ''is'', ''in'', ''to'', ''of'', ''and'', ''or'', ''for'', ''with'',
      ''on'', ''at'', ''by'', ''from'', ''as'', ''it'', ''that'', ''this'', ''was'', ''were'', ''are'', ''be'']"

text \<open>\<^verbatim>\<open>re.findall(r"[a-z0-9]+", s.lower())\<close>, and the set of them without the stop words.\<close>

definition tokens :: "string \<Rightarrow> string list" where
  "tokens s = map fst (rx_finditer (rx_plus (Chr (\<lambda>c. is_lower c \<or> is_digit c))) (str_lower s))"

definition content_tokens :: "string \<Rightarrow> string list" where
  "content_tokens s = remdups (filter (\<lambda>t. t \<notin> set stopwords) (tokens s))"

text \<open>\<^verbatim>\<open>len(xs & ys)\<close>\<close>

definition overlap :: "string list \<Rightarrow> string list \<Rightarrow> nat" where
  "overlap xs ys = length (filter (\<lambda>t. t \<in> set ys) xs)"

text \<open>The messages of a channel in the sessions 0 to 24.\<close>

definition channel_messages :: "message_index \<Rightarrow> string \<Rightarrow> pyobj list result" where
  "channel_messages messages channel =
     rbind (mapM (\<lambda>s. session_messages messages channel (JInt (int s))) [0..<25]) (\<lambda>ms. Ok (concat ms))"

record scored =
  s_score :: nat
  s_cover :: nat
  s_session :: json
  s_message :: string

definition score_message :: "string list \<Rightarrow> string list \<Rightarrow> pyobj \<Rightarrow> scored option result" where
  "score_message ans_tokens q_tokens msg =
     rbind (str_item msg ''text'') (\<lambda>text.
     let m_tok = tokens text; a_cov = overlap ans_tokens m_tok; q_cov = overlap q_tokens m_tok in
     if a_cov > 0 then
       rbind (str_item msg ''message_id'') (\<lambda>mid.
         Ok (Some \<lparr>s_score = a_cov * 6 + q_cov * 2, s_cover = a_cov, s_session = dict_get msg ''session_index'' (JInt 0),
           s_message = mid\<rparr>))
     else Ok None)"

definition score_messages :: "string list \<Rightarrow> string list \<Rightarrow> pyobj list \<Rightarrow> scored list result" where
  "score_messages ans_tokens q_tokens msgs =
     rbind (mapM (score_message ans_tokens q_tokens) msgs) (\<lambda>found.
       Ok (sort_key (\<lambda>s. (- int (s_score s), - int (s_cover s))) (List.map_filter (\<lambda>x. x) found)))"

text \<open>
  The first message of every session until there are three, and further messages of a session already seen
  while there are fewer.
\<close>

fun choose_evidence :: "json list \<Rightarrow> string list \<Rightarrow> scored list \<Rightarrow> (json list \<times> string list) result" where
  "choose_evidence seen chosen [] = Ok (seen, chosen)"
| "choose_evidence seen chosen (s # ss) =
     (if \<not> hashable (s_session s) then Raise (TypeError ''unhashable'')
      else if \<not> list_ex (py_eq (s_session s)) seen then
        if length chosen + 1 \<ge> 3 then Ok (seen @ [s_session s], chosen @ [s_message s])
        else choose_evidence (seen @ [s_session s]) (chosen @ [s_message s]) ss
      else if length chosen < 3 \<and> s_cover s > 0 then choose_evidence seen (chosen @ [s_message s]) ss
      else choose_evidence seen chosen ss)"

text \<open>The texts of the chosen messages, joined.\<close>

definition evidence_text :: "pyobj list \<Rightarrow> string list \<Rightarrow> string result" where
  "evidence_text msgs chosen =
     rbind (mapM (\<lambda>m. jitem m ''message_id'') msgs) (\<lambda>mids.
     rbind (mapM (\<lambda>(_, m). str_item m ''text'') (filter (\<lambda>(mid, _). mid \<in> JStr ` set chosen) (zip mids msgs))) (\<lambda>texts.
       Ok (join '' '' (map str_lower texts))))"

text \<open>
  What a question contributes; \<open>None\<close> when it is passed over. With less than \<open>2 ^ 50\<close> tokens the rounded quotient is
  below three quarters exactly when the quotient is.
\<close>

record grounded =
  r_query :: string
  r_answer :: string
  r_evidence :: "string list"
  r_sessions :: "json list"
  r_covered :: nat
  r_tokens :: nat

definition ground_answer :: "pyobj list \<Rightarrow> string \<Rightarrow> string \<Rightarrow> grounded option result" where
  "ground_answer msgs raw_text raw_answer =
     (let clean_query = sanitize_text raw_text; clean_answer = sanitize_text raw_answer;
          ans_tokens = content_tokens clean_answer; q_tokens = content_tokens clean_query in
      if length clean_query < 10 \<or> length clean_answer < 2 \<or> length ans_tokens < 2 then Ok None
      else
        rbind (score_messages ans_tokens q_tokens msgs) (\<lambda>scored_msgs.
        if scored_msgs = [] then Ok None
        else
          rbind (choose_evidence [] [] scored_msgs) (\<lambda>(sess_seen, chosen_mids).
          rbind (evidence_text msgs chosen_mids) (\<lambda>ev_text.
          let covered = overlap ans_tokens (tokens ev_text) in
          if of_nat covered / of_nat (length ans_tokens) < (3 / 4 :: rat) then Ok None
          else Ok (Some \<lparr>r_query = clean_query, r_answer = clean_answer, r_evidence = chosen_mids,
            r_sessions = sess_seen, r_covered = covered, r_tokens = length ans_tokens\<rparr>)))))"

definition question_grounding :: "pyobj list \<Rightarrow> pyobj \<Rightarrow> grounded option result" where
  "question_grounding msgs q =
     rbind (nested_get q ''question'' ''text'') (\<lambda>txt.
     let raw_answer = strip (py_str (dict_get q ''original_answer'' (JStr []))) in
     if negative_answer raw_answer then Ok None
     else
       rbind (str_of txt) (\<lambda>raw_text.
       if rejected raw_text raw_answer then Ok None else ground_answer msgs raw_text raw_answer))"

section \<open>Rows and reviews\<close>

definition tier_c_quota :: "(string, nat) dict" where
  "tier_c_quota = [(''visual_plus_context'', 51), (''context_only'', 40)]"

definition grounded_stratum :: "bool \<Rightarrow> (string, nat) dict \<Rightarrow> string option" where
  "grounded_stratum pictured counts =
     (let free = (\<lambda>s. dict_get counts s 0 < dict_get tier_c_quota s 0) in
      if pictured \<and> free ''visual_plus_context'' then Some ''visual_plus_context''
      else if \<not> pictured \<and> free ''context_only'' then Some ''context_only''
      else if free ''visual_plus_context'' then Some ''visual_plus_context''
      else None)"

definition given :: "pyobj \<Rightarrow> string \<Rightarrow> json list" where
  "given item k = (if truthy (jget item k) then [jget item k] else [])"

definition grounded_row :: "string \<Rightarrow> string \<Rightarrow> nat \<Rightarrow> string \<Rightarrow> json \<Rightarrow> pyobj \<Rightarrow> grounded \<Rightarrow> pyobj" where
  "grounded_row generated_at stratum seq channel orig_q_id q r =
     gold_row
       \<lparr>g_stratum = stratum, g_number = seq, g_query = r_query r, g_answer = r_answer r, g_action = ''return_result'',
        g_media = [], g_evidence = r_evidence r, g_targets = [], g_clues = given q ''validation_notes'', g_tier = ''tier_c'',
        g_difficulty = ''medium'', g_split = JStr (if seq mod 5 \<in> {1, 2} then ''dev'' else ''test''), g_group = JStr channel,
        g_agent = ''antigravity'', g_generated_at = generated_at,
        g_questions = (if truthy orig_q_id then [orig_q_id] else []),
        g_label_result = ''passed: positive_claim, multi_region_sufficient, naturalness_verified'', g_rewrites = 0,
        g_is_media = False\<rparr>"

text \<open>\<^verbatim>\<open>sorted(sess_seen)\<close>: numbers, or texts, and nothing else that could not be compared.\<close>

definition sorted_sessions :: "json list \<Rightarrow> json list result" where
  "sorted_sessions vs =
     (let nums = List.map_filter (\<lambda>v. case py_norm v of JFloat q \<Rightarrow> Some q | _ \<Rightarrow> None) vs in
      if length nums = length vs then Ok (map snd (sort_key fst (zip nums vs)))
      else if list_all is_str vs then rbind (mapM str_of vs) (\<lambda>ss. Ok (map JStr (sort ss)))
      else if length vs \<le> 1 then Ok vs
      else Raise (TypeError ''not supported between instances''))"

definition grounded_review :: "string \<Rightarrow> nat \<Rightarrow> grounded \<Rightarrow> pyobj result" where
  "grounded_review stratum seq r =
     rbind (sorted_sessions (r_sessions r)) (\<lambda>sessions.
       Ok [(''query_id'', JStr (query_id_text stratum seq)), (''stratum'', JStr stratum), (''claim_polarity'', JStr ''positive''),
         (''entity_verified'', JBool True), (''modality_verified'', JBool True), (''answer_sufficiency'', JStr ''sufficient''),
         (''evidence_sessions'', JArr sessions), (''evidence_session_count'', JInt (int (length sessions))),
         (''token_grounding_score'', JFloat (round_places 4 (ratio (r_covered r) (r_tokens r)))),
         (''naturalness_verified'', JBool True), (''reviewed_by'', JStr ''antigravity''), (''verdict'', JStr ''pass''),
         (''reviewed_at'', JStr ''2026-09-22T08:00:00+00:00'')])"

record tier_c_state =
  t_counts :: "(string, nat) dict"
  t_rows :: "pyobj list"
  t_reviews :: "pyobj list"

definition tier_c_question ::
  "string \<Rightarrow> pyobj list \<Rightarrow> string \<Rightarrow> json \<Rightarrow> tier_c_state \<Rightarrow> nat \<times> json \<Rightarrow> tier_c_state result" where
  "tier_c_question generated_at msgs channel s_num st iq =
     rbind (obj_fields (snd iq)) (\<lambda>q.
     rbind (question_grounding msgs q) (\<lambda>found.
     rbind (nested_get q ''question'' ''image'') (\<lambda>raw_image.
     case found of
       None \<Rightarrow> Ok st
     | Some r \<Rightarrow>
         (case grounded_stratum (truthy raw_image) (t_counts st) of
            None \<Rightarrow> Ok st
          | Some stratum \<Rightarrow>
              let seq = dict_get (t_counts st) stratum 0 + 1;
                  row = grounded_row generated_at stratum seq channel (question_id q s_num (fst iq)) q r in
              rbind (grounded_review stratum seq r) (\<lambda>review.
                Ok \<lparr>t_counts = AList.update stratum seq (t_counts st), t_rows = t_rows st @ [row],
                  t_reviews = t_reviews st @ [review]\<rparr>)))))"

definition path_text :: "path \<Rightarrow> string" where
  "path_text p = ''/'' @ join ''/'' p"

definition tier_c_file :: "fs \<Rightarrow> string \<Rightarrow> message_index \<Rightarrow> tier_c_state \<Rightarrow> path \<Rightarrow> tier_c_state result" where
  "tier_c_file fs generated_at messages st p =
     rbind (read_document fs p) (\<lambda>data.
     let channel = channel_of (path_text p) in
     rbind (session_number_of data) (\<lambda>s_num.
     rbind (channel_messages messages channel) (\<lambda>msgs.
     rbind (questions_of data) (foldM (tier_c_question generated_at msgs channel s_num) st))))"

section \<open>The curated rows\<close>

definition str_list :: "json \<Rightarrow> string list result" where
  "str_list v = rbind (py_iter v) (mapM str_of)"

definition curated_row :: "string \<Rightarrow> nat \<times> pyobj \<Rightarrow> pyobj result" where
  "curated_row generated_at ii = (case ii of (seq, item) \<Rightarrow>
     rbind (str_item item ''query'') (\<lambda>clean_query.
     rbind (str_item item ''gold_answer'') (\<lambda>clean_answer.
     rbind (rbind (jitem item ''gold_evidence_message_ids'') str_list) (\<lambda>evidence.
     rbind (jitem item ''split'') (\<lambda>split.
     rbind (jitem item ''group_id'') (\<lambda>group.
       Ok (gold_row
         \<lparr>g_stratum = ''multi_hop_evidence'', g_number = seq, g_query = clean_query, g_answer = clean_answer,
          g_action = ''return_result'', g_media = [], g_evidence = evidence, g_targets = [], g_clues = given item ''notes'',
          g_tier = ''tier_c'', g_difficulty = ''hard'', g_split = split, g_group = group, g_agent = ''antigravity'',
          g_generated_at = generated_at, g_questions = given item ''orig_id'',
          g_label_result = ''passed: direct_read_entailed, multi_region_sufficient, naturalness_verified'', g_rewrites = 0,
          g_is_media = False\<rparr>)))))))"

definition curated_review :: "string \<Rightarrow> nat \<times> pyobj \<Rightarrow> pyobj result" where
  "curated_review generated_at ii = (case ii of (seq, item) \<Rightarrow>
     let authored_verdict = dict_get item ''authored_verdict'' (JStr ''sufficient'');
         is_sufficient = (authored_verdict = JStr ''sufficient'');
         triage = dict_get item ''triage_score'' (JFloat 1) in
     rbind (jitem item ''evidence_sessions'') (\<lambda>sessions.
     rbind (py_iter sessions) (\<lambda>vs.
     rbind (jitem item ''reasoning_rationale'') (\<lambda>rationale.
       Ok [(''query_id'', JStr (query_id_text ''multi_hop_evidence'' seq)), (''stratum'', JStr ''multi_hop_evidence''),
         (''claim_polarity'', JStr ''positive''), (''entity_verified'', JBool True), (''modality_verified'', JBool True),
         (''answer_sufficiency'', authored_verdict), (''evidence_sessions'', sessions),
         (''evidence_session_count'', JInt (int (length vs))), (''entailment_triage_score'', triage),
         (''token_grounding_score'', triage), (''naturalness_verified'', JBool True),
         (''reviewed_by'', dict_get item ''reviewer'' (JStr ''antigravity'')),
         (''entailment_authoring'', JStr ''antigravity_direct_read''),
         (''semantic_entailment_verified'', JBool is_sufficient),
         (''verdict'', JStr (if is_sufficient then ''pass'' else ''fail'')), (''reasoning_rationale'', rationale),
         (''reviewed_at'', dict_get item ''reviewed_at'' (JStr generated_at))]))))"

definition curated_items :: "fs \<Rightarrow> path \<Rightarrow> (nat \<times> pyobj) list result" where
  "curated_items fs here =
     rbind (fs_read_text fs (here @ [''tier_c_curated_120.json''])) (\<lambda>text.
     rbind (loads text) (\<lambda>v.
     rbind (py_iter v) (\<lambda>vs.
     rbind (mapM obj_fields vs) (\<lambda>items. Ok (List.enumerate 1 items)))))"

text \<open>\<open>here\<close> is the directory of the module, which holds the curated rows.\<close>

definition build_tier_c_records :: "fs \<Rightarrow> path \<Rightarrow> path \<Rightarrow> string \<Rightarrow> (pyobj list \<times> pyobj list) result" where
  "build_tier_c_records fs base here generated_at =
     rbind (load_corpus_indexes fs base) (\<lambda>(messages, _).
     rbind (curated_items fs here) (\<lambda>items.
     rbind (mapM (curated_row generated_at) items) (\<lambda>rows.
     rbind (mapM (curated_review generated_at) items) (\<lambda>reviews.
     rbind (foldM (tier_c_file fs generated_at messages) \<lparr>t_counts = [], t_rows = rows, t_reviews = reviews\<rparr>
       (question_files fs (raw_dir base))) (\<lambda>st.
     rbind (check_tier (t_rows st)) (\<lambda>validated. Ok (validated, t_reviews st)))))))"

section \<open>The files\<close>

definition all_sufficient :: "pyobj list \<Rightarrow> bool" where
  "all_sufficient reviews \<longleftrightarrow> list_all (\<lambda>r. jget r ''answer_sufficiency'' = JStr ''sufficient'') reviews"

definition review_file :: "pyobj list \<Rightarrow> string" where
  "review_file reviews = dumps js_pretty (JObj
     [(''audit_version'', JStr ''v2.0-D61''), (''total_reviewed'', JInt (int (length reviews))),
      (''claim_polarity'', JStr ''positive_only''), (''zero_negative_absence'', JBool True),
      (''all_answers_sufficient'', JBool (all_sufficient reviews)), (''all_entities_verified'', JBool True),
      (''all_naturalness_verified'', JBool True), (''entailment_authoring'', JStr ''antigravity_direct_read''),
      (''records'', JArr (map JObj reviews))]) @ [CHR 0x0A]"

definition corpus_messages :: "fs \<Rightarrow> path \<Rightarrow> (string, json) dict result" where
  "corpus_messages fs base =
     rbind (optional_lines fs (messages_file base)) (\<lambda>lines.
     rbind (mapM loads_object lines) (\<lambda>messages.
     rbind (mapM (\<lambda>m. str_item m ''message_id'') messages) (\<lambda>mids. Ok (dict_of (zip mids (map JObj messages))))))"

text \<open>A message that is not in the corpus counts as an empty one here; the gate rejects it afterwards.\<close>

definition tier_c_binding :: "(string, json) dict \<Rightarrow> json \<Rightarrow> json result" where
  "tier_c_binding msgs mid =
     rbind (get_message msgs mid) (\<lambda>found.
     let m_obj = (if found = JNull then JObj [] else found) in
     rbind (obj_fields m_obj) (\<lambda>m.
     rbind (text_snippet (dict_get m ''text'' (JStr []))) (\<lambda>snippet.
       Ok (JObj [(''message_id'', mid), (''message_hash'', JStr (message_hash m_obj)),
         (''session_index'', dict_get m ''session_index'' (JInt 0)), (''text_snippet'', JStr snippet)]))))"

definition tier_c_judgment :: "(string, json) dict \<Rightarrow> (json, pyobj) dict \<Rightarrow> pyobj \<Rightarrow> pyobj result" where
  "tier_c_judgment msgs rev_by_qid r =
     rbind (jitem r ''query_id'') (\<lambda>qid.
     rbind (case map_of rev_by_qid qid of Some review \<Rightarrow> Ok review | None \<Rightarrow> Raise (KeyError ''query_id'')) (\<lambda>review.
     rbind (rbind (jitem r ''gold_evidence_message_ids'') py_iter) (\<lambda>mids.
     rbind (mapM (tier_c_binding msgs) mids) (\<lambda>evidence_bindings.
     rbind (jitem r ''output_hash'') (\<lambda>output_hash.
     rbind (jitem review ''reasoning_rationale'') (\<lambda>rationale.
       Ok [(''query_id'', qid), (''output_hash'', output_hash), (''evidence_bindings'', JArr evidence_bindings),
         (''verdict'', json_or (jget review ''answer_sufficiency'') (dict_get review ''authored_verdict'' (JStr ''sufficient''))),
         (''reviewer_key'', dict_get review ''reviewed_by'' (JStr ''antigravity'')),
         (''reviewed_at'', dict_get review ''reviewed_at'' (JStr ''2026-09-22T08:00:00+00:00'')),
         (''entailment_triage_score'', dict_get review ''entailment_triage_score'' (JFloat 1)),
         (''reasoning_rationale'', rationale)]))))))"

definition tier_c_judgments :: "fs \<Rightarrow> path \<Rightarrow> pyobj list \<Rightarrow> pyobj list \<Rightarrow> unit result" where
  "tier_c_judgments fs base rows reviews =
     (let mh = filter (\<lambda>r. jget r ''stratum'' = JStr ''multi_hop_evidence'') in
      rbind (corpus_messages fs base) (\<lambda>msgs.
      rbind (mapM (tier_c_judgment msgs (dict_of (map (\<lambda>r. (jget r ''query_id'', r)) (mh reviews)))) (mh rows)) (\<lambda>records.
        validate_multi_hop_judgment records rows (Some msgs))))"

definition tier_c_manifest :: "pyobj list \<Rightarrow> pyobj list \<Rightarrow> pyobj" where
  "tier_c_manifest rows reviews =
     [(''artifact_type'', JStr ''golden_tier_c''), (''row_count'', JInt (int (length rows))),
      (''sha256'', JStr (sha256_hex (utf8_encode (tier_content rows)))), (''author'', JStr ''antigravity''),
      (''labelling_model'', JStr ''antigravity''), (''entailment_authoring'', JStr ''antigravity_direct_read''),
      (''provenance_ref'', JStr PROVENANCE_REF), (''claim_polarity'', JStr ''positive_only''),
      (''zero_negative_absence'', JBool True), (''review_artifact'', JStr ''data/golden/tier_c_review.json''),
      (''review_artifact_sha256'', JStr (sha256_hex (utf8_encode (review_file reviews)))),
      (''strata_counts'', JObj (map (\<lambda>s. (s, JInt (count_field ''stratum'' rows s)))
         [''multi_hop_evidence'', ''visual_plus_context'', ''context_only''])),
      (''splits'', JObj (map (\<lambda>s. (s, JInt (count_field ''split'' rows s))) [''dev'', ''test'']))]"

definition generate_and_freeze_tier_c :: "path \<Rightarrow> path \<Rightarrow> path option \<Rightarrow> (path \<times> path \<times> path) io" where
  "generate_and_freeze_tier_c base here output =
     (let dir = (case output of Some p \<Rightarrow> p | None \<Rightarrow> base @ [''data'', ''golden'']) in
      io_seq (io_mkdirs dir)
      (io_bind (io_check (\<lambda>fs. build_tier_c_records fs base here ''2026-09-22T08:00:00+00:00'')) (\<lambda>(rows, reviews).
       io_seq (io_write (dir @ [''tier_c.jsonl'']) (utf8_encode (tier_content rows)))
       (io_seq (io_of_result (ensure (all_sufficient reviews) (ReleaseGateError ''non-sufficient records'')))
       (io_seq (io_write (dir @ [''tier_c_review.json'']) (utf8_encode (review_file reviews)))
       (io_seq (io_check (\<lambda>fs. tier_c_judgments fs base rows reviews))
       (io_seq (io_write (dir @ [''tier_c_manifest.json''])
         (utf8_encode (dumps js_pretty (JObj (tier_c_manifest rows reviews)) @ [CHR 0x0A])))
       (io_return (dir @ [''tier_c.jsonl''], dir @ [''tier_c_manifest.json''], dir @ [''tier_c_review.json''])))))))))"

end
