(* ===== verification/Spec2Isabelle.thy ===== *)
theory Spec2Isabelle
  imports Release_Generate Visual_Artifact Scoped_Repository Tier_A Tier_B Tier_C
begin

text \<open>
  A model of the core of the multimodal chat memory repository.
\<close>

end
